(* ===== verification/Prelude.thy ===== *)
theory Prelude
  imports Main "HOL-Library.Word"
begin

text \<open>
  Shared vocabulary of the PayFlowMock development: the parts of the Go language and of its
  standard library that the sources use (strings, 64-bit integers, errors and error chains,
  time), the oracle through which the outside world answers, and list lemmas for tables.

  \<^item> A Go \<open>string\<close> is the list of its bytes (\<^typ>\<open>string\<close>), so \<open>len(s)\<close> is \<open>length s\<close>.
  \<^item> \<open>strings.TrimSpace\<close> removes the UTF-8 encodings of the Unicode white space characters
    at both ends; \<open>strings.ToUpper\<close> is exact on ASCII and takes the case mapping of the
    other strings from a parameter, since the Unicode tables are data outside the program.
  \<^item> A \<open>time.Time\<close> is its number of nanoseconds since the Unix epoch and a
    \<open>time.Duration\<close> its number of nanoseconds.
  \<^item> An \<open>error\<close> is a value of type \<open>go_error\<close>; \<open>fmt.Errorf\<close> with \<open>%w\<close> adds a layer that
    \<open>errors.Is\<close> and \<open>errors.As\<close> look through.
\<close>

named_theorems go_simps "unfolding rules of the Go vocabulary"
named_theorems table_simps "rules about tables as lists of rows"

section \<open>Integers, times and identifiers\<close>

type_synonym time = int
type_synonym duration = int
type_synonym uuid = "128 word"

text \<open>The two's complement reading of the low 64 bits: Go's conversion to \<open>int64\<close>.\<close>

definition wrap64 :: "int \<Rightarrow> int" where
  "wrap64 x = sint (word_of_int x :: 64 word)"

definition IsInt64 :: "int \<Rightarrow> bool" where
  "IsInt64 x \<longleftrightarrow> - (2 ^ 63) \<le> x \<and> x < 2 ^ 63"

lemma wrap64_id [simp]: "IsInt64 x \<Longrightarrow> wrap64 x = x"
  unfolding wrap64_def IsInt64_def
  by (simp add: signed_take_bit_int_eq_self_iff sint_sbintrunc')

lemma IsInt64_wrap64 [simp]: "IsInt64 (wrap64 x)"
proof -
  let ?w = "word_of_int x :: 64 word"
  have "- (2 ^ (LENGTH(64) - 1)) \<le> sint ?w" and "sint ?w < 2 ^ (LENGTH(64) - 1)"
    by (rule sint_ge sint_lt)+
  then show ?thesis
    by (simp add: wrap64_def IsInt64_def)
qed

text \<open>\<open>uuid.Nil\<close>, the zero value of \<open>uuid.UUID\<close>.\<close>

definition uuid_Nil :: uuid where
  "uuid_Nil = 0"

text \<open>The zero \<open>time.Time\<close> is the first of January of year 1, UTC.\<close>

definition zero_time :: time where
  "zero_time = - 62135596800 * 1000000000"

definition IsZero :: "time \<Rightarrow> bool" where
  "IsZero t \<longleftrightarrow> t = zero_time"

definition Millisecond :: duration where "Millisecond = 1000000"
definition Second :: duration where "Second = 1000 * Millisecond"
definition Minute :: duration where "Minute = 60 * Second"
definition Hour :: duration where "Hour = 60 * Minute"

lemmas duration_defs = Millisecond_def Second_def Minute_def Hour_def

text \<open>PostgreSQL keeps a \<open>TIMESTAMPTZ\<close> in whole microseconds.\<close>

definition pg_ts :: "time \<Rightarrow> time" where
  "pg_ts t = t div 1000 * 1000"

lemma pg_ts_idem [simp]: "pg_ts (pg_ts t) = pg_ts t"
  by (simp add: pg_ts_def)

lemma pg_ts_le [simp]: "pg_ts t \<le> t"
  by (simp add: pg_ts_def minus_mod_eq_div_mult [symmetric])

lemma pg_ts_mono: "s \<le> t \<Longrightarrow> pg_ts s \<le> pg_ts t"
  unfolding pg_ts_def by (simp add: zdiv_mono1)

section \<open>Strings\<close>

text \<open>A byte outside ASCII has its top bit set (\<open>utf8.RuneSelf\<close> is 0x80).\<close>

abbreviation ascii :: "string \<Rightarrow> bool" where
  "ascii s \<equiv> list_all (\<lambda>c. \<not> digit7 c) s"

definition asciiSpace :: "char \<Rightarrow> bool" where
  "asciiSpace c \<longleftrightarrow>
     c = CHR 0x09 \<or> c = CHR 0x0A \<or> c = CHR 0x0B \<or> c = CHR 0x0C \<or> c = CHR 0x0D \<or> c = CHR 0x20"

text \<open>UTF-8 encodings of the white space characters beyond ASCII (\<open>unicode.IsSpace\<close>).\<close>

definition unicode_spaces :: "string list" where
  "unicode_spaces =
     [[CHR 0xC2, CHR 0x85], [CHR 0xC2, CHR 0xA0], [CHR 0xE1, CHR 0x9A, CHR 0x80],
      [CHR 0xE2, CHR 0x80, CHR 0x80], [CHR 0xE2, CHR 0x80, CHR 0x81],
      [CHR 0xE2, CHR 0x80, CHR 0x82], [CHR 0xE2, CHR 0x80, CHR 0x83],
      [CHR 0xE2, CHR 0x80, CHR 0x84], [CHR 0xE2, CHR 0x80, CHR 0x85],
      [CHR 0xE2, CHR 0x80, CHR 0x86], [CHR 0xE2, CHR 0x80, CHR 0x87],
      [CHR 0xE2, CHR 0x80, CHR 0x88], [CHR 0xE2, CHR 0x80, CHR 0x89],
      [CHR 0xE2, CHR 0x80, CHR 0x8A], [CHR 0xE2, CHR 0x80, CHR 0xA8],
      [CHR 0xE2, CHR 0x80, CHR 0xA9], [CHR 0xE2, CHR 0x80, CHR 0xAF],
      [CHR 0xE2, CHR 0x81, CHR 0x9F], [CHR 0xE3, CHR 0x80, CHR 0x80]]"

text \<open>
  The width of the white space at the head of a string, 0 if there is none. The patterns
  are an argument because the right end is scanned over the reversed string.
\<close>

fun space_width :: "string list \<Rightarrow> string \<Rightarrow> nat" where
  "space_width ps [] = 0"
| "space_width ps (c # s) =
     (if asciiSpace c then 1
      else if \<not> digit7 c then 0
      else (case find (\<lambda>p. take (length p) (c # s) = p) ps of
              Some p \<Rightarrow> length p | None \<Rightarrow> 0))"

function trim_left :: "string list \<Rightarrow> string \<Rightarrow> string" where
  "trim_left ps s =
     (let n = space_width ps s in
      if 0 < n \<and> s \<noteq> [] then trim_left ps (drop n s) else s)"
  by pat_completeness auto
termination
  by (relation "measure (\<lambda>(ps, s). length s)") auto

declare trim_left.simps [simp del]

definition TrimSpace :: "string \<Rightarrow> string" where
  "TrimSpace s =
     rev (trim_left (map rev unicode_spaces) (rev (trim_left unicode_spaces s)))"

lemma trim_left_no_space: "space_width ps s = 0 \<Longrightarrow> trim_left ps s = s"
  by (subst trim_left.simps) simp

lemma space_width_trim_left [simp]: "space_width ps (trim_left ps s) = 0"
proof (induction ps s rule: trim_left.induct)
  case (1 ps s)
  then show ?case
    by (cases "0 < space_width ps s \<and> s \<noteq> []") (auto simp: trim_left.simps [of ps s] Let_def)
qed

lemma trim_left_suffix: "\<exists>u. s = u @ trim_left ps s"
proof (induction ps s rule: trim_left.induct)
  case (1 ps s)
  show ?case
  proof (cases "0 < space_width ps s \<and> s \<noteq> []")
    case True
    then obtain u where "drop (space_width ps s) s = u @ trim_left ps (drop (space_width ps s) s)"
      using "1.IH" by blast
    then have "s = (take (space_width ps s) s @ u) @ trim_left ps (drop (space_width ps s) s)"
      by (metis append.assoc append_take_drop_id)
    with True show ?thesis
      by (metis trim_left.simps)
  next
    case False
    then show ?thesis by (auto simp: trim_left.simps [of ps s] Let_def)
  qed
qed

text \<open>A head without white space stays so when the tail of the string is cut.\<close>

lemma space_width_prefix: "space_width ps (s @ t) = 0 \<Longrightarrow> \<forall>p \<in> set ps. p \<noteq> [] \<Longrightarrow> space_width ps s = 0"
proof (cases s)
  case (Cons c s')
  assume w: "space_width ps (s @ t) = 0" and ne: "\<forall>p \<in> set ps. p \<noteq> []"
  show ?thesis
  proof (cases "asciiSpace c \<or> \<not> digit7 c")
    case True
    with w Cons show ?thesis by (auto split: if_splits)
  next
    case False
    have "find (\<lambda>p. take (length p) (c # s') = p) ps = None"
    proof (rule ccontr)
      assume "find (\<lambda>p. take (length p) (c # s') = p) ps \<noteq> None"
      then obtain p where p: "p \<in> set ps" "take (length p) (c # s') = p"
        by (auto simp: find_None_iff)
      then have "length p \<le> length (c # s')" by (metis length_take min.cobounded1)
      with p have "take (length p) ((c # s') @ t) = p" unfolding take_append by simp
      with p(1) have "find (\<lambda>p. take (length p) ((c # s') @ t) = p) ps \<noteq> None"
        unfolding find_None_iff by blast
      then obtain q where "find (\<lambda>p. take (length p) ((c # s') @ t) = p) ps = Some q"
        by blast
      moreover from this have "q \<in> set ps"
        unfolding find_Some_iff by (metis nth_mem)
      ultimately show False using w False Cons ne by auto
    qed
    with False Cons show ?thesis by simp
  qed
qed simp

lemma unicode_spaces_nonempty: "\<forall>p \<in> set unicode_spaces. p \<noteq> []"
  by (simp add: unicode_spaces_def)

lemma TrimSpace_prefix: "\<exists>u. trim_left unicode_spaces s = TrimSpace s @ u"
proof -
  obtain u where "rev (trim_left unicode_spaces s)
      = u @ trim_left (map rev unicode_spaces) (rev (trim_left unicode_spaces s))"
    using trim_left_suffix by blast
  then have "trim_left unicode_spaces s = TrimSpace s @ rev u"
    unfolding TrimSpace_def by (metis rev_append rev_rev_ident)
  then show ?thesis ..
qed

lemma space_width_TrimSpace [simp]: "space_width unicode_spaces (TrimSpace s) = 0"
  by (metis TrimSpace_prefix space_width_prefix space_width_trim_left unicode_spaces_nonempty)

lemma TrimSpace_idem [simp]: "TrimSpace (TrimSpace s) = TrimSpace s"
proof -
  have "trim_left unicode_spaces (TrimSpace s) = TrimSpace s"
    by (simp add: trim_left_no_space)
  then have "TrimSpace (TrimSpace s) = rev (trim_left (map rev unicode_spaces) (rev (TrimSpace s)))"
    by (simp add: TrimSpace_def [of "TrimSpace s"])
  also have "\<dots> = TrimSpace s"
    by (simp add: TrimSpace_def trim_left_no_space)
  finally show ?thesis .
qed

lemma TrimSpace_length: "length (TrimSpace s) \<le> length s"
proof -
  obtain u where "s = u @ trim_left unicode_spaces s" using trim_left_suffix by blast
  then have "length (trim_left unicode_spaces s) \<le> length s"
    by (metis length_append le_add2)
  moreover obtain v where "trim_left unicode_spaces s = TrimSpace s @ v"
    using TrimSpace_prefix by blast
  ultimately show ?thesis by simp
qed

text \<open>A string whose first and last byte are ASCII and not spaces is left alone.\<close>

lemma TrimSpace_fixed:
  assumes "s \<noteq> []" "\<not> asciiSpace (hd s)" "\<not> digit7 (hd s)" "\<not> asciiSpace (last s)" "\<not> digit7 (last s)"
  shows "TrimSpace s = s"
proof -
  have "space_width unicode_spaces s = 0" using assms by (cases s) auto
  moreover have "space_width (map rev unicode_spaces) (rev s) = 0"
    using assms by (cases s rule: rev_cases) auto
  ultimately show ?thesis by (simp add: TrimSpace_def trim_left_no_space)
qed

lemma TrimSpace_Nil [simp]: "TrimSpace [] = []"
  by (simp add: TrimSpace_def trim_left_no_space)

text \<open>On ASCII strings trimming drops ASCII spaces at both ends.\<close>

lemma space_width_ascii: "ascii s \<Longrightarrow> space_width ps s = (if s \<noteq> [] \<and> asciiSpace (hd s) then 1 else 0)"
  by (cases s) auto

lemma trim_left_ascii: "ascii s \<Longrightarrow> trim_left ps s = dropWhile asciiSpace s"
proof (induction s)
  case Nil
  then show ?case by (simp add: trim_left_no_space)
next
  case (Cons c s)
  show ?case
  proof (cases "asciiSpace c")
    case True
    then show ?thesis using Cons by (subst trim_left.simps) (simp add: Let_def)
  next
    case False
    with Cons.prems show ?thesis by (simp add: trim_left_no_space)
  qed
qed

lemma TrimSpace_ascii:
  assumes "ascii s"
  shows "TrimSpace s = rev (dropWhile asciiSpace (rev (dropWhile asciiSpace s)))"
proof -
  have "ascii (rev (dropWhile asciiSpace s))"
    using assms by (auto simp: list_all_iff dest: set_dropWhileD)
  then show ?thesis using assms by (simp add: TrimSpace_def trim_left_ascii)
qed

text \<open>Clearing bit 5 of a lower-case letter subtracts 32, the distance to its capital.\<close>

definition ascii_upper :: "char \<Rightarrow> char" where
  "ascii_upper c = (if 97 \<le> (of_char c :: nat) \<and> (of_char c :: nat) \<le> 122
     then Char (digit0 c) (digit1 c) (digit2 c) (digit3 c) (digit4 c) False (digit6 c) (digit7 c)
     else c)"

text \<open>\<open>strings.ToUpper\<close>; \<open>U\<close> is the Unicode case mapping of strings that are not ASCII.\<close>

definition ToUpper :: "(string \<Rightarrow> string) \<Rightarrow> string \<Rightarrow> string" where
  "ToUpper U s = (if ascii s then map ascii_upper s else U s)"

lemma ascii_upper_facts [simp]:
  "digit7 (ascii_upper c) = digit7 c" "asciiSpace (ascii_upper c) = asciiSpace c"
  by (cases c; auto simp: ascii_upper_def asciiSpace_def of_char_def horner_sum_simps split: if_splits)+

lemma ascii_upper_idem [simp]: "ascii_upper (ascii_upper c) = ascii_upper c"
  by (cases c) (auto simp: ascii_upper_def)

lemma ToUpper_ascii: "ascii s \<Longrightarrow> ToUpper U s = map ascii_upper s"
  by (simp add: ToUpper_def)

lemma ascii_map_upper [simp]: "ascii (map ascii_upper s) = ascii s"
  by (simp add: list_all_iff)

lemma dropWhile_upper: "dropWhile asciiSpace (map ascii_upper s) = map ascii_upper (dropWhile asciiSpace s)"
  by (simp add: dropWhile_map comp_def)

lemma TrimSpace_upper:
  assumes "ascii s"
  shows "TrimSpace (map ascii_upper s) = map ascii_upper (TrimSpace s)"
  using assms by (simp add: TrimSpace_ascii dropWhile_upper rev_map)

lemma ascii_TrimSpace:
  assumes "ascii s"
  shows "ascii (TrimSpace s)"
  using assms by (auto simp: TrimSpace_ascii list_all_iff dest!: set_dropWhileD)

text \<open>So the order of trimming and upper-casing does not matter on ASCII.\<close>

lemma ToUpper_TrimSpace:
  assumes "ascii s"
  shows "ToUpper U (TrimSpace s) = TrimSpace (ToUpper U s)"
    and "TrimSpace (ToUpper U (ToUpper U (TrimSpace s))) = TrimSpace (ToUpper U s)"
proof -
  have "ToUpper U s = map ascii_upper s" "ToUpper U (TrimSpace s) = map ascii_upper (TrimSpace s)"
    using assms by (simp_all only: ToUpper_ascii ascii_TrimSpace)
  then show "ToUpper U (TrimSpace s) = TrimSpace (ToUpper U s)"
    using assms by (simp add: TrimSpace_upper)
  then show "TrimSpace (ToUpper U (ToUpper U (TrimSpace s))) = TrimSpace (ToUpper U s)"
    using assms by (simp add: ToUpper_ascii ascii_TrimSpace TrimSpace_upper comp_def)
qed

definition ascii_lower :: "char \<Rightarrow> char" where
  "ascii_lower c = (if 65 \<le> (of_char c :: nat) \<and> (of_char c :: nat) \<le> 90
     then Char (digit0 c) (digit1 c) (digit2 c) (digit3 c) (digit4 c) True (digit6 c) (digit7 c)
     else c)"

text \<open>\<open>strings.Split\<close> with a one-byte separator, and \<open>strings.Index\<close> of one byte.\<close>

fun Split :: "char \<Rightarrow> string \<Rightarrow> string list" where
  "Split c [] = [[]]"
| "Split c (x # xs) =
     (if x = c then [] # Split c xs
      else (case Split c xs of [] \<Rightarrow> [[x]] | y # ys \<Rightarrow> (x # y) # ys))"

fun Index :: "string \<Rightarrow> char \<Rightarrow> int" where
  "Index [] c = - 1"
| "Index (x # xs) c = (if x = c then 0 else (let i = Index xs c in if i < 0 then - 1 else i + 1))"

lemma Split_nonempty [simp]: "Split c s \<noteq> []"
  by (induction s) (auto split: list.splits)

lemma Split_no_sep: "c \<notin> set s \<Longrightarrow> Split c s = [s]"
  by (induction s) auto

lemma Split_append: "c \<notin> set s \<Longrightarrow> Split c (s @ c # t) = s # Split c t"
  by (induction s) auto

lemma Index_append: "c \<notin> set s \<Longrightarrow> Index (s @ c # t) c = int (length s)"
  by (induction s) (auto simp: Let_def)

text \<open>Decimal rendering (\<open>%d\<close>, \<open>big.Int.String\<close>, \<open>strconv.Itoa\<close>).\<close>

fun digits10 :: "nat \<Rightarrow> string" where
  "digits10 n = (if n < 10 then [char_of (48 + n)] else digits10 (n div 10) @ [char_of (48 + n mod 10)])"

declare digits10.simps [simp del]

definition Itoa :: "int \<Rightarrow> string" where
  "Itoa i = (if i < 0 then CHR 0x2D # digits10 (nat (- i)) else digits10 (nat i))"

text \<open>
  \<open>strconv.Quote\<close> (the verb \<open>%q\<close>): exact on ASCII, with the quoting of other strings a parameter.
\<close>

definition hex_digit :: "nat \<Rightarrow> char" where
  "hex_digit n = (if n < 10 then char_of (48 + n) else char_of (87 + n))"

definition quote_char :: "char \<Rightarrow> string" where
  "quote_char c =
     (if c = CHR 0x22 \<or> c = CHR 0x5C then [CHR 0x5C, c]
      else if c = CHR 0x07 then [CHR 0x5C, CHR ''a'']
      else if c = CHR 0x08 then [CHR 0x5C, CHR ''b'']
      else if c = CHR 0x0C then [CHR 0x5C, CHR ''f'']
      else if c = CHR 0x0A then [CHR 0x5C, CHR ''n'']
      else if c = CHR 0x0D then [CHR 0x5C, CHR ''r'']
      else if c = CHR 0x09 then [CHR 0x5C, CHR ''t'']
      else if c = CHR 0x0B then [CHR 0x5C, CHR ''v'']
      else if (of_char c :: nat) < 32 \<or> (of_char c :: nat) = 127
        then [CHR 0x5C, CHR ''x'', hex_digit (of_char c div 16), hex_digit (of_char c mod 16)]
      else [c])"

definition Quote :: "(string \<Rightarrow> string) \<Rightarrow> string \<Rightarrow> string" where
  "Quote Q s = (if ascii s then [CHR 0x22] @ concat (map quote_char s) @ [CHR 0x22] else Q s)"

section \<open>Errors\<close>

text \<open>The package-level error values that the sources compare against.\<close>

datatype sentinel =
    ErrRepositoryNotConfigured | ErrInvalidPayment | ErrInvalidAmount | ErrInvalidIdempotencyKey
  | ErrNotFound | ErrConflict | ErrStatusMismatch | ErrInvalidStatusTransition
  | ErrValidation | ErrNoRoute | ErrOutboxEventNotFound
  | ErrNoRows | RedisNil | Canceled | DeadlineExceeded | ErrOpenState | ErrTooManyRequests

datatype go_error =
    Sentinel sentinel
  | Wrapped string go_error
  | PSPError string string bool
  | PgError string string
  | NetError string
  | OtherError string
  | GoPanic string

fun sentinel_text :: "sentinel \<Rightarrow> string" where
  "sentinel_text ErrRepositoryNotConfigured = ''payment repository is not configured''"
| "sentinel_text ErrInvalidPayment = ''invalid payment''"
| "sentinel_text ErrInvalidAmount = ''amount must be positive and fit in int64''"
| "sentinel_text ErrInvalidIdempotencyKey = ''idempotency key is required''"
| "sentinel_text ErrNotFound = ''payment not found''"
| "sentinel_text ErrConflict = ''payment with this idempotency key already exists''"
| "sentinel_text ErrStatusMismatch = ''payment status does not match the expected value''"
| "sentinel_text ErrInvalidStatusTransition = ''invalid status transition''"
| "sentinel_text ErrValidation = ''validation error''"
| "sentinel_text ErrNoRoute = ''psp: no routing rule matched currency and amount''"
| "sentinel_text ErrOutboxEventNotFound = ''outbox event not found''"
| "sentinel_text ErrNoRows = ''no rows in result set''"
| "sentinel_text RedisNil = ''redis: nil''"
| "sentinel_text Canceled = ''context canceled''"
| "sentinel_text DeadlineExceeded = ''context deadline exceeded''"
| "sentinel_text ErrOpenState = ''circuit breaker is open''"
| "sentinel_text ErrTooManyRequests = ''too many requests''"

text \<open>\<open>err.Error()\<close>: a wrapping layer carries its whole formatted text.\<close>

fun Error_text :: "go_error \<Rightarrow> string" where
  "Error_text (Sentinel s) = sentinel_text s"
| "Error_text (Wrapped msg e) = msg"
| "Error_text (PSPError code msg r) =
     (if msg \<noteq> [] then ''psp: '' @ code @ '': '' @ msg else ''psp: '' @ code)"
| "Error_text (PgError code msg) = msg"
| "Error_text (NetError msg) = msg"
| "Error_text (OtherError msg) = msg"
| "Error_text (GoPanic msg) = msg"

text \<open>\<open>fmt.Errorf("prefix: %w", err)\<close> and \<open>fmt.Errorf("%w: suffix", err)\<close>.\<close>

definition wrap_pre :: "string \<Rightarrow> go_error \<Rightarrow> go_error" where
  "wrap_pre pre e = Wrapped (pre @ '': '' @ Error_text e) e"

definition wrap_post :: "go_error \<Rightarrow> string \<Rightarrow> go_error" where
  "wrap_post e suf = Wrapped (Error_text e @ suf) e"

fun errors_Is :: "go_error \<Rightarrow> sentinel \<Rightarrow> bool" where
  "errors_Is (Sentinel s) t = (s = t)"
| "errors_Is (Wrapped msg e) t = errors_Is e t"
| "errors_Is _ t = False"

fun errors_As_PSP :: "go_error \<Rightarrow> (string \<times> string \<times> bool) option" where
  "errors_As_PSP (PSPError code msg r) = Some (code, msg, r)"
| "errors_As_PSP (Wrapped msg e) = errors_As_PSP e"
| "errors_As_PSP _ = None"

fun errors_As_Pg :: "go_error \<Rightarrow> string option" where
  "errors_As_Pg (PgError code msg) = Some code"
| "errors_As_Pg (Wrapped msg e) = errors_As_Pg e"
| "errors_As_Pg _ = None"

text \<open>
  \<open>errors.As\<close> with a \<open>net.Error\<close> target: network errors, and \<open>context.DeadlineExceeded\<close>,
  whose type has the two methods of that interface.
\<close>

fun errors_As_net :: "go_error \<Rightarrow> bool" where
  "errors_As_net (NetError msg) = True"
| "errors_As_net (Sentinel s) = (s = DeadlineExceeded)"
| "errors_As_net (Wrapped msg e) = errors_As_net e"
| "errors_As_net _ = False"

lemma errors_through_wrap [simp]:
  "errors_Is (wrap_pre p e) t = errors_Is e t"
  "errors_Is (wrap_post e q) t = errors_Is e t"
  "errors_As_PSP (wrap_pre p e) = errors_As_PSP e"
  "errors_As_PSP (wrap_post e q) = errors_As_PSP e"
  "errors_As_Pg (wrap_pre p e) = errors_As_Pg e"
  "errors_As_net (wrap_pre p e) = errors_As_net e"
  by (simp_all add: wrap_pre_def wrap_post_def)

type_synonym 'a result = "go_error + 'a"

section \<open>JSON values\<close>

text \<open>
  JSON values as trees: what is handed to \<open>json.Marshal\<close>, and what a request body holds.
  Objects keep the order of their fields; a number that is not an integer literal keeps its text.
\<close>

datatype json = JStr string | JInt int | JBool bool | JObj "(string \<times> json) list"
  | JNull | JNum string | JArr "json list"

text \<open>A field tagged \<open>omitempty\<close> is left out when it has its zero value.\<close>

definition omitempty_str :: "string \<Rightarrow> string \<Rightarrow> (string \<times> json) list" where
  "omitempty_str k v = (if v = [] then [] else [(k, JStr v)])"

definition omitempty_int :: "string \<Rightarrow> int \<Rightarrow> (string \<times> json) list" where
  "omitempty_int k v = (if v = 0 then [] else [(k, JInt v)])"

text \<open>
  \<open>json.Encoder\<close> with HTML escaping; \<open>N\<close> encodes the strings that are not ASCII.
\<close>

definition json_char :: "char \<Rightarrow> string" where
  "json_char c =
     (if c = CHR 0x22 \<or> c = CHR 0x5C then [CHR 0x5C, c]
      else if c = CHR 0x08 then [CHR 0x5C, CHR ''b'']
      else if c = CHR 0x0C then [CHR 0x5C, CHR ''f'']
      else if c = CHR 0x0A then [CHR 0x5C, CHR ''n'']
      else if c = CHR 0x0D then [CHR 0x5C, CHR ''r'']
      else if c = CHR 0x09 then [CHR 0x5C, CHR ''t'']
      else if (of_char c :: nat) < 32 \<or> c = CHR ''<'' \<or> c = CHR ''>'' \<or> c = CHR ''&''
        then [CHR 0x5C, CHR ''u'', CHR ''0'', CHR ''0'', hex_digit (of_char c div 16), hex_digit (of_char c mod 16)]
      else [c])"

definition json_string :: "(string \<Rightarrow> string) \<Rightarrow> string \<Rightarrow> string" where
  "json_string N s = (if ascii s then [CHR 0x22] @ concat (map json_char s) @ [CHR 0x22] else N s)"

fun json_encode :: "(string \<Rightarrow> string) \<Rightarrow> json \<Rightarrow> string"
  and json_fields :: "(string \<Rightarrow> string) \<Rightarrow> (string \<times> json) list \<Rightarrow> string"
  and json_items :: "(string \<Rightarrow> string) \<Rightarrow> json list \<Rightarrow> string" where
  "json_encode N (JStr s) = json_string N s"
| "json_encode N (JInt i) = Itoa i"
| "json_encode N (JBool b) = (if b then ''true'' else ''false'')"
| "json_encode N JNull = ''null''"
| "json_encode N (JNum t) = t"
| "json_encode N (JObj kvs) = ''{'' @ json_fields N kvs @ ''}''"
| "json_encode N (JArr vs) = ''['' @ json_items N vs @ '']''"
| "json_fields N [] = []"
| "json_fields N ((k, v) # kvs) =
     json_string N k @ '':'' @ json_encode N v @ (if kvs = [] then [] else '','' @ json_fields N kvs)"
| "json_items N [] = []"
| "json_items N (v # vs) = json_encode N v @ (if vs = [] then [] else '','' @ json_items N vs)"

section \<open>Metrics and logs\<close>

text \<open>
  The calls on the Prometheus collectors are kept as a trace: a counter increment, a gauge
  setting or a histogram observation with its labels; and so are the lines logged, with their
  level, fields and message, and the HTTP requests sent, with URL, headers and body.
\<close>

datatype obs =
    Inc string "string list"
  | SetGauge string "string list" int
  | Observe string "string list"
  | LogLine string "(string \<times> string) list" string
  | HttpPost string "(string \<times> string) list" string

section \<open>Tables\<close>

text \<open>A table is the list of its rows; \<open>UPDATE\<close>, its row count and \<open>SELECT\<close> on one table.\<close>

definition sql_update :: "('r \<Rightarrow> bool) \<Rightarrow> ('r \<Rightarrow> 'r) \<Rightarrow> 'r list \<Rightarrow> 'r list" where
  "sql_update P f t = map (\<lambda>r. if P r then f r else r) t"

definition sql_count :: "('r \<Rightarrow> bool) \<Rightarrow> 'r list \<Rightarrow> nat" where
  "sql_count P t = length (filter P t)"

definition keys_of :: "('r \<Rightarrow> 'k) \<Rightarrow> 'r list \<Rightarrow> 'k list" where
  "keys_of k t = map k t"

lemma sql_update_Nil [simp]: "sql_update P f [] = []"
  and sql_update_Cons [simp]: "sql_update P f (r # t) = (if P r then f r else r) # sql_update P f t"
  and sql_update_append [table_simps]: "sql_update P f (t @ u) = sql_update P f t @ sql_update P f u"
  by (simp_all add: sql_update_def)

lemma set_sql_update: "r \<in> set (sql_update P f t) \<longleftrightarrow> (\<exists>s \<in> set t. r = (if P s then f s else s))"
  by (auto simp: sql_update_def)

lemma length_sql_update [simp]: "length (sql_update P f t) = length t"
  by (simp add: sql_update_def)

lemma sql_update_keys [table_simps]:
  "(\<And>r. P r \<Longrightarrow> k (f r) = k r) \<Longrightarrow> map k (sql_update P f t) = map k t"
  by (auto simp: sql_update_def)

lemma sql_count_zero [table_simps]: "sql_count P t = 0 \<longleftrightarrow> (\<forall>r \<in> set t. \<not> P r)"
  by (auto simp: sql_count_def filter_empty_conv)

lemma sql_update_none: "sql_count P t = 0 \<Longrightarrow> sql_update P f t = t"
  by (auto simp: sql_count_zero sql_update_def intro: map_idI)

lemma find_sql_update:
  "(\<And>r. P r \<Longrightarrow> K (f r) = K r) \<Longrightarrow>
   find K (sql_update P f t) = map_option (\<lambda>r. if P r then f r else r) (find K t)"
  by (induction t) auto

lemma find_key_unique:
  "distinct (map k t) \<Longrightarrow> r \<in> set t \<Longrightarrow> find (\<lambda>x. k x = k r) t = Some r"
  by (induction t) auto

lemma find_SomeD: "find P t = Some r \<Longrightarrow> r \<in> set t \<and> P r"
  by (auto simp: find_Some_iff)

lemma find_NoneD: "find P t = None \<Longrightarrow> r \<in> set t \<Longrightarrow> \<not> P r"
  by (auto simp: find_None_iff)

lemma sql_count_one:
  "distinct (map k t) \<Longrightarrow> (\<And>r. P r \<Longrightarrow> k r = i) \<Longrightarrow> sql_count P t \<le> 1"
proof (induction t)
  case (Cons r t)
  show ?case
  proof (cases "P r")
    case True
    have "\<not> P s" if "s \<in> set t" for s
      using Cons.prems that True by (metis distinct.simps(2) image_eqI list.simps(9) set_map)
    with True show ?thesis by (simp add: sql_count_def filter_empty_conv)
  next
    case False
    with Cons show ?thesis by (simp add: sql_count_def)
  qed
qed (simp add: sql_count_def)

end
