(* ===== verification/Domain.thy ===== *)
theory Domain
  imports Prelude
begin

text \<open>
  The domain package (\<open>internal/domain/payment.go\<close>, \<open>internal/domain/outbox.go\<close>): payments,
  refunds, requests and responses, the payment status with its transition table, and the
  outbox event. \<open>Status\<close> is a Go string type, so values outside the five constants exist
  and the checks on them are modelled too. A \<open>big.Int\<close> amount is an \<^typ>\<open>int\<close>.
\<close>

section \<open>Statuses\<close>

type_synonym Status = string

definition StatusInitiated :: Status where "StatusInitiated = ''initiated''"
definition StatusProcessing :: Status where "StatusProcessing = ''processing''"
definition StatusSuccess :: Status where "StatusSuccess = ''success''"
definition StatusFailed :: Status where "StatusFailed = ''failed''"
definition StatusRefunded :: Status where "StatusRefunded = ''refunded''"

lemmas status_defs = StatusInitiated_def StatusProcessing_def StatusSuccess_def
  StatusFailed_def StatusRefunded_def

lemma status_distinct [simp]:
  "StatusInitiated \<noteq> StatusProcessing" "StatusProcessing \<noteq> StatusInitiated"
  "StatusInitiated \<noteq> StatusSuccess" "StatusSuccess \<noteq> StatusInitiated"
  "StatusInitiated \<noteq> StatusFailed" "StatusFailed \<noteq> StatusInitiated"
  "StatusInitiated \<noteq> StatusRefunded" "StatusRefunded \<noteq> StatusInitiated"
  "StatusProcessing \<noteq> StatusSuccess" "StatusSuccess \<noteq> StatusProcessing"
  "StatusProcessing \<noteq> StatusFailed" "StatusFailed \<noteq> StatusProcessing"
  "StatusProcessing \<noteq> StatusRefunded" "StatusRefunded \<noteq> StatusProcessing"
  "StatusSuccess \<noteq> StatusFailed" "StatusFailed \<noteq> StatusSuccess"
  "StatusSuccess \<noteq> StatusRefunded" "StatusRefunded \<noteq> StatusSuccess"
  "StatusFailed \<noteq> StatusRefunded" "StatusRefunded \<noteq> StatusFailed"
  "StatusInitiated \<noteq> []"
  by (simp_all add: status_defs)

definition IsKnownStatus :: "Status \<Rightarrow> bool" where
  "IsKnownStatus s \<longleftrightarrow>
     s = StatusInitiated \<or> s = StatusProcessing \<or> s = StatusSuccess \<or> s = StatusFailed
       \<or> s = StatusRefunded"

definition ValidTransition :: "Status \<Rightarrow> Status \<Rightarrow> bool" where
  "ValidTransition from to =
     (if from = StatusInitiated then to = StatusProcessing
      else if from = StatusProcessing then to = StatusSuccess \<or> to = StatusFailed
      else if from = StatusSuccess then to = StatusRefunded
      else if from = StatusFailed then False
      else if from = StatusRefunded then False
      else False)"

lemma IsKnownStatus_consts [simp]:
  "IsKnownStatus StatusInitiated" "IsKnownStatus StatusProcessing" "IsKnownStatus StatusSuccess"
  "IsKnownStatus StatusFailed" "IsKnownStatus StatusRefunded"
  by (simp_all add: IsKnownStatus_def)

lemma ValidTransition_consts [simp]:
  "ValidTransition StatusInitiated s \<longleftrightarrow> s = StatusProcessing"
  "ValidTransition StatusProcessing s \<longleftrightarrow> s = StatusSuccess \<or> s = StatusFailed"
  "ValidTransition StatusSuccess s \<longleftrightarrow> s = StatusRefunded"
  "\<not> ValidTransition StatusFailed s" "\<not> ValidTransition StatusRefunded s"
  by (auto simp: ValidTransition_def)

lemma ValidTransition_cases:
  assumes "ValidTransition s t"
  obtains (start) "s = StatusInitiated" "t = StatusProcessing"
  | (ok) "s = StatusProcessing" "t = StatusSuccess"
  | (fail) "s = StatusProcessing" "t = StatusFailed"
  | (refund) "s = StatusSuccess" "t = StatusRefunded"
  using assms by (auto simp: ValidTransition_def split: if_splits)

lemma ValidTransition_known: "ValidTransition s t \<Longrightarrow> IsKnownStatus s \<and> IsKnownStatus t"
  by (auto elim!: ValidTransition_cases)

text \<open>The position of a status on its way to the end of its life.\<close>

definition status_rank :: "Status \<Rightarrow> nat" where
  "status_rank s = (if s = StatusInitiated then 0 else if s = StatusProcessing then 1
     else if s = StatusSuccess then 2 else 3)"

lemma ValidTransition_rank: "ValidTransition s t \<Longrightarrow> status_rank s < status_rank t"
  by (auto elim!: ValidTransition_cases simp: status_rank_def)

lemma transitions_rank:
  "successively ValidTransition (s # ss) \<Longrightarrow> length ss + status_rank s \<le> status_rank (last (s # ss))"
proof (induction ss arbitrary: s)
  case (Cons t ss)
  then have "ValidTransition s t" and "length ss + status_rank t \<le> status_rank (last (t # ss))"
    by (auto simp: successively_Cons)
  with ValidTransition_rank [of s t] show ?case by simp
qed simp

section \<open>Currencies\<close>

definition allowedCurrencies :: "string list" where
  "allowedCurrencies = [''USD'', ''EUR'', ''GBP'', ''INR'']"

definition ValidCurrency :: "string \<Rightarrow> bool" where
  "ValidCurrency c \<longleftrightarrow> c \<in> set allowedCurrencies"

lemma ValidCurrency_cases:
  assumes "ValidCurrency c"
  obtains "c = ''USD''" | "c = ''EUR''" | "c = ''GBP''" | "c = ''INR''"
  using assms by (auto simp: ValidCurrency_def allowedCurrencies_def)

lemma TrimSpace_currency: "ValidCurrency c \<Longrightarrow> TrimSpace c = c"
  by (erule ValidCurrency_cases) (simp_all add: TrimSpace_fixed asciiSpace_def)

lemma ToUpper_currency: "ValidCurrency c \<Longrightarrow> ToUpper U c = c"
  by (erule ValidCurrency_cases) (simp_all add: ToUpper_def ascii_upper_def)

lemma length_currency: "ValidCurrency c \<Longrightarrow> length c = 3"
  by (erule ValidCurrency_cases) simp_all

lemmas currency_simps = TrimSpace_currency ToUpper_currency length_currency

section \<open>Payments, refunds, requests and responses\<close>

record payment =
  p_ID :: uuid
  p_MerchantID :: uuid
  p_Amount :: int
  p_Currency :: string
  p_Status :: Status
  p_IdempotencyKey :: string
  p_PSP :: string
  p_PSPReferenceID :: string
  p_FailureReason :: string
  p_CreatedAt :: time
  p_UpdatedAt :: time

record create_payment_request =
  cr_MerchantID :: uuid
  cr_Amount :: int
  cr_Currency :: string
  cr_IdempotencyKey :: string

record create_payment_response =
  cs_PaymentID :: uuid
  cs_Status :: Status

record refund_request =
  rr_PaymentID :: uuid
  rr_Amount :: int
  rr_Currency :: string
  rr_IdempotencyKey :: string

record refund_response =
  rs_RefundID :: uuid
  rs_Status :: Status

section \<open>Outbox events\<close>

record outbox_event =
  oe_ID :: uuid
  oe_PaymentID :: uuid
  oe_MerchantID :: uuid
  oe_EventType :: string
  oe_WebhookURL :: string
  oe_Payload :: json
  oe_Status :: string
  oe_LastError :: string
  oe_AttemptCount :: int
  oe_NextRetryAt :: time
  oe_DeliveredAt :: time
  oe_CreatedAt :: time
  oe_UpdatedAt :: time

definition OutboxStatusPending :: string where "OutboxStatusPending = ''PENDING''"
definition OutboxStatusProcessing :: string where "OutboxStatusProcessing = ''PROCESSING''"
definition OutboxStatusDelivered :: string where "OutboxStatusDelivered = ''DELIVERED''"
definition OutboxStatusDead :: string where "OutboxStatusDead = ''DEAD''"

lemmas outbox_status_defs = OutboxStatusPending_def OutboxStatusProcessing_def
  OutboxStatusDelivered_def OutboxStatusDead_def

lemma outbox_status_distinct [simp]:
  "OutboxStatusPending \<noteq> OutboxStatusProcessing" "OutboxStatusProcessing \<noteq> OutboxStatusPending"
  "OutboxStatusPending \<noteq> OutboxStatusDelivered" "OutboxStatusDelivered \<noteq> OutboxStatusPending"
  "OutboxStatusPending \<noteq> OutboxStatusDead" "OutboxStatusDead \<noteq> OutboxStatusPending"
  "OutboxStatusProcessing \<noteq> OutboxStatusDelivered" "OutboxStatusDelivered \<noteq> OutboxStatusProcessing"
  "OutboxStatusProcessing \<noteq> OutboxStatusDead" "OutboxStatusDead \<noteq> OutboxStatusProcessing"
  "OutboxStatusDelivered \<noteq> OutboxStatusDead" "OutboxStatusDead \<noteq> OutboxStatusDelivered"
  by (simp_all add: outbox_status_defs)

definition EventPaymentSuccess :: string where "EventPaymentSuccess = ''payment.success''"
definition EventPaymentFailed :: string where "EventPaymentFailed = ''payment.failed''"
definition EventPaymentRefunded :: string where "EventPaymentRefunded = ''payment.refunded''"

lemmas event_type_defs = EventPaymentSuccess_def EventPaymentFailed_def EventPaymentRefunded_def

lemma event_type_distinct [simp]:
  "EventPaymentSuccess \<noteq> EventPaymentFailed" "EventPaymentFailed \<noteq> EventPaymentSuccess"
  "EventPaymentSuccess \<noteq> EventPaymentRefunded" "EventPaymentRefunded \<noteq> EventPaymentSuccess"
  "EventPaymentFailed \<noteq> EventPaymentRefunded" "EventPaymentRefunded \<noteq> EventPaymentFailed"
  by (simp_all add: event_type_defs)

section \<open>The life of a payment status\<close>

text \<open>
  Every chain of valid transitions is at most three transitions long, passes through
  known statuses only, never comes back to a status it has left, and once it has reached
  \<open>failed\<close> or \<open>refunded\<close> it has ended.
\<close>

theorem status_lifecycle:
  assumes "successively ValidTransition ss" and "2 \<le> length ss"
  shows "length ss \<le> 4 \<and> (\<forall>s \<in> set ss. IsKnownStatus s) \<and> distinct ss \<and>
    (\<forall>s \<in> set (butlast ss). s \<noteq> StatusFailed \<and> s \<noteq> StatusRefunded)"
proof -
  obtain s u where ss: "ss = s # u" using assms(2) by (cases ss) auto
  have "length u + status_rank s \<le> status_rank (last (s # u))"
    using transitions_rank assms(1) ss by blast
  moreover have "status_rank (last (s # u)) \<le> 3" by (simp add: status_rank_def)
  ultimately have len: "length ss \<le> 4" using ss by simp
  have "IsKnownStatus s" if "s \<in> set ss" for s
    using assms that
  proof (induction ss rule: induct_list012)
    case (3 x y zs)
    then show ?case using ValidTransition_known [of x y] by (cases zs) auto
  qed auto
  moreover have "sorted_wrt (<) (map status_rank ss)"
    using assms(1) by (intro successively_iff_sorted_wrt_strong [THEN iffD1])
      (auto simp: successively_map intro: successively_mono ValidTransition_rank)
  then have "distinct ss" by (metis distinct_map strict_sorted_iff)
  moreover have "\<forall>s \<in> set (butlast ss). s \<noteq> StatusFailed \<and> s \<noteq> StatusRefunded"
    using assms(1) by (induction ss rule: induct_list012) auto
  ultimately show ?thesis using len by blast
qed

theorem status_lifecycle_witness:
  "successively ValidTransition [StatusInitiated, StatusProcessing, StatusSuccess, StatusRefunded] \<and>
   distinct [StatusInitiated, StatusProcessing, StatusSuccess, StatusRefunded]"
  using status_lifecycle
    [of "[StatusInitiated, StatusProcessing, StatusSuccess, StatusRefunded]"] by simp

end
