(* ===== verification/Database.thy ===== *)
theory Database
  imports Domain
begin

text \<open>
  The PostgreSQL database that the repositories talk to. Rows follow the migrations
  (\<open>migrations/up\<close>), a table is the list of its rows, and the SQL texts of the repositories are
  translated statement by statement in the theories that import this one.

  Everything the program cannot decide comes from the oracle record \<open>env\<close>, indexed by a step
  counter of the world: both clocks, generated identifiers, rows locked by others, and
  faults. A fault makes a statement fail with an error of the connection, of the context or
  of the server (also for values a column does not take); its flag says whether the statement had taken effect at the server
  before the error reached the client. Constraint violations that the code distinguishes
  are not faults: they follow from the tables.

  One statement is one atomic step, and so is one transaction: the transactions of the
  repositories lock the one payment row they update before anything else they read matters.
\<close>

section \<open>Rows\<close>

record payment_row =
  pr_id :: uuid
  pr_merchant_id :: uuid
  pr_amount :: int
  pr_currency :: string
  pr_status :: Status
  pr_idempotency_key :: string
  pr_psp :: "string option"
  pr_psp_reference_id :: "string option"
  pr_failure_reason :: "string option"
  pr_created_at :: time
  pr_updated_at :: time

record refund_row =
  rf_id :: uuid
  rf_payment_id :: uuid
  rf_amount :: int
  rf_status :: Status
  rf_idempotency_key :: string
  rf_created_at :: time

record outbox_row =
  ob_id :: uuid
  ob_payment_id :: uuid
  ob_merchant_id :: uuid
  ob_event_type :: string
  ob_webhook_url :: string
  ob_payload :: json
  ob_status :: string
  ob_attempt_count :: int
  ob_next_retry_at :: time
  ob_last_error :: "string option"
  ob_delivered_at :: "time option"
  ob_created_at :: time
  ob_updated_at :: time

record world =
  payments :: "payment_row list"
  refunds :: "refund_row list"
  outbox :: "outbox_row list"
  tick :: nat
  obs :: "obs list"

definition empty_world :: world where
  "empty_world = \<lparr>payments = [], refunds = [], outbox = [], tick = 0, obs = []\<rparr>"

section \<open>Oracles\<close>

datatype db_fault = NetFault string | CtxCanceled | CtxDeadline | ServerFault string

fun fault_error :: "db_fault \<Rightarrow> go_error" where
  "fault_error (NetFault msg) = NetError msg"
| "fault_error CtxCanceled = Sentinel Canceled"
| "fault_error CtxDeadline = Sentinel DeadlineExceeded"
| "fault_error (ServerFault msg) = PgError ''XX000'' msg"

text \<open>
  The last fields are library functions: the Unicode case mapping, quoting and JSON
  encoding of strings that are not ASCII, the text of a UUID and its parser, the RFC 3339 text
  of a time, the text of a duration, the first JSON value of a request body, the case
  folding of object keys that are not ASCII, and the replacement of invalid UTF-8.
\<close>

record env =
  fault_at :: "nat \<Rightarrow> (db_fault \<times> bool) option"
  now_at :: "nat \<Rightarrow> time"
  time_at :: "nat \<Rightarrow> time"
  uuid7_at :: "nat \<Rightarrow> uuid result"
  dbuuid_at :: "nat \<Rightarrow> uuid"
  locked_at :: "nat \<Rightarrow> uuid \<Rightarrow> bool"
  e_upper :: "string \<Rightarrow> string"
  e_quote :: "string \<Rightarrow> string"
  uuid_str :: "uuid \<Rightarrow> string"
  rfc3339 :: "time \<Rightarrow> string"
  e_json :: "string \<Rightarrow> string"
  uuid_Parse :: "string \<Rightarrow> uuid option"
  duration_str :: "duration \<Rightarrow> string"
  first_json :: "string \<Rightarrow> json option"
  e_fold :: "string \<Rightarrow> string"
  e_utf8 :: "string \<Rightarrow> string"

text \<open>\<open>NewV7\<close> never answers with the nil UUID, and fails only with an error of its own.\<close>

definition ids_ok :: "env \<Rightarrow> bool" where
  "ids_ok E \<longleftrightarrow> (\<forall>t. (\<forall>i. uuid7_at E t = Inr i \<longrightarrow> i \<noteq> uuid_Nil) \<and>
     (\<forall>e. uuid7_at E t = Inl e \<longrightarrow> (\<exists>m. e = OtherError m)))"

definition no_faults :: "env \<Rightarrow> bool" where
  "no_faults E \<longleftrightarrow> (\<forall>t. fault_at E t = None)"

text \<open>
  A quiet environment for concrete runs: nothing fails, both clocks show the second after the
  epoch and identifiers count up.
\<close>

definition steady :: env where
  "steady = \<lparr>fault_at = (\<lambda>_. None), now_at = (\<lambda>_. 1000000000), time_at = (\<lambda>_. 1000000000),
     uuid7_at = (\<lambda>t. Inr (if of_nat t = (0 :: uuid) then 1 else of_nat t)), dbuuid_at = (\<lambda>t. of_nat t),
     locked_at = (\<lambda>_ _. False), e_upper = (\<lambda>s. s), e_quote = (\<lambda>s. s), uuid_str = (\<lambda>_. ''u''),
     rfc3339 = (\<lambda>_. ''1970-01-01T00:00:01Z''), e_json = (\<lambda>s. s), uuid_Parse = (\<lambda>_. Some 1),
     duration_str = (\<lambda>_. ''1ms''), first_json = (\<lambda>_. None),
     e_fold = (\<lambda>s. s), e_utf8 = (\<lambda>s. s)\<rparr>"

lemma steady_ok [simp]: "ids_ok steady" "no_faults steady"
  by (simp_all add: ids_ok_def no_faults_def steady_def uuid_Nil_def)

definition tickw :: "world \<Rightarrow> world" where
  "tickw w = w\<lparr>tick := Suc (tick w)\<rparr>"

definition observe :: "obs \<Rightarrow> world \<Rightarrow> world" where
  "observe x w = w\<lparr>obs := obs w @ [x]\<rparr>"

lemma tickw_fields [simp]:
  "payments (tickw w) = payments w" "refunds (tickw w) = refunds w" "outbox (tickw w) = outbox w"
  "tick (tickw w) = Suc (tick w)" "obs (tickw w) = obs w"
  by (simp_all add: tickw_def)

lemma observe_fields [simp]:
  "payments (observe x w) = payments w" "refunds (observe x w) = refunds w"
  "outbox (observe x w) = outbox w" "tick (observe x w) = tick w"
  by (simp_all add: observe_def)

text \<open>\<open>domain.NewID\<close>: a UUID of version 7.\<close>

definition NewID :: "env \<Rightarrow> world \<Rightarrow> uuid result \<times> world" where
  "NewID E w = (uuid7_at E (tick w), tickw w)"

text \<open>\<open>time.Now().UTC()\<close> in the application.\<close>

definition Now :: "env \<Rightarrow> world \<Rightarrow> time \<times> world" where
  "Now E w = (time_at E (tick w), tickw w)"

text \<open>\<open>NOW()\<close> in a statement.\<close>

definition db_now :: "env \<Rightarrow> world \<Rightarrow> time" where
  "db_now E w = pg_ts (now_at E (tick w))"

section \<open>Statements and transactions\<close>

definition db_call :: "env \<Rightarrow> (world \<Rightarrow> 'a result \<times> world) \<Rightarrow> world \<Rightarrow> 'a result \<times> world" where
  "db_call E stmt w =
     (case fault_at E (tick w) of
        None \<Rightarrow> stmt (tickw w)
      | Some (f, applied) \<Rightarrow> (Inl (fault_error f), if applied then snd (stmt (tickw w)) else tickw w))"

definition rollback :: "world \<Rightarrow> world \<Rightarrow> world" where
  "rollback w0 w = w\<lparr>payments := payments w0, refunds := refunds w0, outbox := outbox w0\<rparr>"

lemma rollback_fields [simp]:
  "payments (rollback w0 w) = payments w0" "refunds (rollback w0 w) = refunds w0"
  "outbox (rollback w0 w) = outbox w0" "tick (rollback w0 w) = tick w" "obs (rollback w0 w) = obs w"
  by (simp_all add: rollback_def)

text \<open>
  The shape the three transactional methods share: \<open>BeginTx\<close>, a deferred rollback that runs
  when the method ends with an error, and \<open>Commit\<close>. Both ends wrap their errors with a text
  of the method. A commit whose acknowledgement is lost has either happened or not.
\<close>

definition run_tx :: "env \<Rightarrow> string \<Rightarrow> string \<Rightarrow> (world \<Rightarrow> 'a result \<times> world) \<Rightarrow> world \<Rightarrow> 'a result \<times> world" where
  "run_tx E beginmsg commitmsg body w =
     (case db_call E (\<lambda>w. (Inr (), w)) w of
        (Inl e, w1) \<Rightarrow> (Inl (wrap_pre beginmsg e), w1)
      | (Inr _, w1) \<Rightarrow>
          (case body w1 of
             (Inl e, w2) \<Rightarrow> (Inl e, rollback w1 w2)
           | (Inr x, w2) \<Rightarrow>
               (case fault_at E (tick w2) of
                  None \<Rightarrow> (Inr x, tickw w2)
                | Some (f, applied) \<Rightarrow>
                    (Inl (wrap_pre commitmsg (fault_error f)),
                     if applied then tickw w2 else rollback w1 (tickw w2)))))"

section \<open>Lemmas\<close>

text \<open>The tables of a world, for statements about what changed.\<close>

definition tables :: "world \<Rightarrow> payment_row list \<times> refund_row list \<times> outbox_row list" where
  "tables w = (payments w, refunds w, outbox w)"

lemma tables_eq_iff:
  "tables w = tables v \<longleftrightarrow> payments w = payments v \<and> refunds w = refunds v \<and> outbox w = outbox v"
  by (simp add: tables_def)

lemma tables_simps [simp]:
  "tables (tickw w) = tables w" "tables (observe x w) = tables w" "tables (rollback w0 w) = tables w0"
  by (simp_all add: tables_def)

lemma fault_error_simps [simp]:
  "errors_As_Pg (fault_error f) \<noteq> Some ''23505''"
  "\<not> errors_Is (fault_error f) ErrNoRows"
  "fault_error f \<noteq> Sentinel ErrNoRows"
  "errors_As_PSP (fault_error f) = None"
  by (cases f; simp)+

lemma fault_not_sentinel: "errors_Is (fault_error f) s \<Longrightarrow> s = Canceled \<or> s = DeadlineExceeded"
  by (cases f) auto

text \<open>
  A call ends in one of three ways: no fault and the statement's own result, a fault
  before the statement took effect, or a fault after it.
\<close>

lemma db_call_cases:
  obtains (ok) "db_call E stmt w = stmt (tickw w)" "fault_at E (tick w) = None"
  | (lost) f where "db_call E stmt w = (Inl (fault_error f), tickw w)" "fault_at E (tick w) \<noteq> None"
  | (late) f where "db_call E stmt w = (Inl (fault_error f), snd (stmt (tickw w)))" "fault_at E (tick w) \<noteq> None"
proof (cases "fault_at E (tick w)")
  case None
  then show ?thesis by (intro ok) (simp_all add: db_call_def)
next
  case (Some fa)
  obtain f a where "fa = (f, a)" by fastforce
  with Some show ?thesis by (cases a) (auto simp: db_call_def intro: lost late)
qed

lemma db_call_no_fault: "fault_at E (tick w) = None \<Longrightarrow> db_call E stmt w = stmt (tickw w)"
  by (simp add: db_call_def)

text \<open>A read leaves the tables alone whatever happens.\<close>

lemma db_call_read: "(\<And>v. tables (snd (stmt v)) = tables v) \<Longrightarrow> tables (snd (db_call E stmt w)) = tables w"
  by (cases rule: db_call_cases [of E stmt w]) simp_all

text \<open>
  A transaction ends with the tables untouched, or with those its body left when the body
  succeeded; when the call succeeds it is the latter.
\<close>

lemma run_tx_atomic:
  assumes "run_tx E b c body w = (r, w')"
  shows "tables w' = tables w \<or>
    (\<exists>w1 x w2. tables w1 = tables w \<and> body w1 = (Inr x, w2) \<and> tables w' = tables w2)"
    and "r = Inr x \<Longrightarrow> \<exists>w1 w2. tables w1 = tables w \<and> body w1 = (Inr x, w2) \<and> tables w' = tables w2"
proof -
  obtain r1 w1 where c1: "db_call E (\<lambda>w. (Inr (), w)) w = (r1, w1)" by fastforce
  have t1: "tables w1 = tables w"
    using db_call_read [of "\<lambda>w. (Inr (), w)" E w] c1 by simp
  obtain r2 w2 where c2: "body w1 = (r2, w2)" by fastforce
  show "tables w' = tables w \<or>
    (\<exists>w1 x w2. tables w1 = tables w \<and> body w1 = (Inr x, w2) \<and> tables w' = tables w2)"
    using assms c1 c2 t1
    by (cases r1; cases r2; cases "fault_at E (tick w2)")
      (auto simp: run_tx_def split: if_splits prod.splits)
  show "\<exists>w1 w2. tables w1 = tables w \<and> body w1 = (Inr x, w2) \<and> tables w' = tables w2" if "r = Inr x"
    using assms c1 c2 t1 that
    by (cases r1; cases r2; cases "fault_at E (tick w2)") (auto simp: run_tx_def)
qed

end
