(* ===== verification/Http.thy ===== *)
theory Http
  imports Database "HOL-Library.AList"
begin

text \<open>
  What the handlers and middlewares use of \<open>net/http\<close>: requests, the calls on a
  \<open>ResponseWriter\<close>, and the response that these calls give. A handler is a function from a
  request and a state to the list of its calls on the writer and the new state; a panic is the
  last of its calls. The \<open>responseRecorder\<close> of the idempotency middleware is the second
  interpretation of the same calls.
\<close>

section \<open>Requests and handlers\<close>

text \<open>
  An \<open>http.Header\<close> is a map from canonical names to values; here it is the association list of
  that map. The order of its keys means nothing, so headers are compared by \<open>header_values\<close>.
\<close>

type_synonym header = "(string \<times> string list) list"

definition header_values :: "header \<Rightarrow> string \<Rightarrow> string list" where
  "header_values h k = (case map_of h k of None \<Rightarrow> [] | Some vs \<Rightarrow> vs)"

definition header_Set :: "string \<Rightarrow> string \<Rightarrow> header \<Rightarrow> header" where
  "header_Set k v h = AList.update k [v] h"

definition header_Add :: "string \<Rightarrow> string \<Rightarrow> header \<Rightarrow> header" where
  "header_Add k v h = AList.update k (header_values h k @ [v]) h"

text \<open>
  \<open>rq_Body\<close>: nil, an error while reading, or the bytes. The last three fields are what the chi
  router put into the context: the URL parameter \<open>id\<close>, the route pattern and the request id.
\<close>

record http_request =
  rq_Method :: string
  rq_Path :: string
  rq_Header :: header
  rq_Body :: "string result option"
  rq_id :: string
  rq_route :: "string option"
  rq_reqid :: string

definition header_Get :: "header \<Rightarrow> string \<Rightarrow> string" where
  "header_Get h k = (case header_values h k of [] \<Rightarrow> [] | v # _ \<Rightarrow> v)"

datatype wop = HSet string string | HAdd string string | HStatus int | HWrite string | HPanic string

type_synonym 's handler = "http_request \<Rightarrow> 's \<Rightarrow> wop list \<times> 's"

section \<open>The server's response writer\<close>

text \<open>The headers count as they are when the status is written; a first write sends status 200.\<close>

record writer =
  wr_header :: header
  wr_sent :: "(int \<times> header) option"
  wr_body :: string

record http_response =
  rp_status :: int
  rp_header :: header
  rp_body :: string

definition new_writer :: writer where
  "new_writer = \<lparr>wr_header = [], wr_sent = None, wr_body = []\<rparr>"

fun write_op :: "wop \<Rightarrow> writer \<Rightarrow> writer" where
  "write_op (HSet k v) w = w\<lparr>wr_header := header_Set k v (wr_header w)\<rparr>"
| "write_op (HAdd k v) w = w\<lparr>wr_header := header_Add k v (wr_header w)\<rparr>"
| "write_op (HStatus n) w = (case wr_sent w of None \<Rightarrow> w\<lparr>wr_sent := Some (n, wr_header w)\<rparr> | Some _ \<Rightarrow> w)"
| "write_op (HWrite b) w =
     (case wr_sent w of
        None \<Rightarrow> w\<lparr>wr_sent := Some (200, wr_header w), wr_body := wr_body w @ b\<rparr>
      | Some _ \<Rightarrow> w\<lparr>wr_body := wr_body w @ b\<rparr>)"
| "write_op (HPanic m) w = w"

definition run_writer :: "wop list \<Rightarrow> writer" where
  "run_writer ops = fold write_op ops new_writer"

definition response_of :: "wop list \<Rightarrow> http_response" where
  "response_of ops =
     (let w = run_writer ops in
      case wr_sent w of
        None \<Rightarrow> \<lparr>rp_status = 200, rp_header = wr_header w, rp_body = wr_body w\<rparr>
      | Some (n, h) \<Rightarrow> \<lparr>rp_status = n, rp_header = h, rp_body = wr_body w\<rparr>)"

fun is_panic :: "wop \<Rightarrow> bool" where
  "is_panic (HPanic m) = True"
| "is_panic _ = False"

definition panics :: "wop list \<Rightarrow> bool" where
  "panics ops \<longleftrightarrow> list_ex is_panic ops"

lemma panics_simps [simp]:
  "\<not> panics []" "panics (HPanic m # ops)" "panics (HSet k v # ops) = panics ops" "panics (HAdd k v # ops) = panics ops"
  "panics (HStatus n # ops) = panics ops" "panics (HWrite b # ops) = panics ops"
  "panics (xs @ ys) \<longleftrightarrow> panics xs \<or> panics ys"
  by (auto simp: panics_def)

text \<open>\<open>http.Error\<close>.\<close>

definition http_Error :: "string \<Rightarrow> int \<Rightarrow> wop list" where
  "http_Error msg status =
     [HSet ''Content-Type'' ''text/plain; charset=utf-8'', HSet ''X-Content-Type-Options'' ''nosniff'',
      HStatus status, HWrite (msg @ [CHR 0x0A])]"

section \<open>The recorder\<close>

record recorder =
  rr_header :: header
  rr_body :: string
  rr_statusCodeVal :: int

definition newResponseRecorder :: recorder where
  "newResponseRecorder = \<lparr>rr_header = [], rr_body = [], rr_statusCodeVal = 0\<rparr>"

definition recorder_Write :: "string \<Rightarrow> recorder \<Rightarrow> recorder" where
  "recorder_Write b rr =
     (let rr1 = (if rr_statusCodeVal rr = 0 then rr\<lparr>rr_statusCodeVal := 200\<rparr> else rr)
      in rr1\<lparr>rr_body := rr_body rr1 @ b\<rparr>)"

definition recorder_WriteHeader :: "int \<Rightarrow> recorder \<Rightarrow> recorder" where
  "recorder_WriteHeader n rr = rr\<lparr>rr_statusCodeVal := n\<rparr>"

definition recorder_statusCode :: "recorder \<Rightarrow> int" where
  "recorder_statusCode rr = (if rr_statusCodeVal rr = 0 then 200 else rr_statusCodeVal rr)"

fun record_op :: "wop \<Rightarrow> recorder \<Rightarrow> recorder" where
  "record_op (HSet k v) rr = rr\<lparr>rr_header := header_Set k v (rr_header rr)\<rparr>"
| "record_op (HAdd k v) rr = rr\<lparr>rr_header := header_Add k v (rr_header rr)\<rparr>"
| "record_op (HStatus n) rr = recorder_WriteHeader n rr"
| "record_op (HWrite b) rr = recorder_Write b rr"
| "record_op (HPanic m) rr = rr"

definition run_recorder :: "wop list \<Rightarrow> recorder" where
  "run_recorder ops = fold record_op ops newResponseRecorder"

text \<open>
  Calls in the usual order: headers first, then one status, then the body. The handlers of the
  program write this way.
\<close>

fun is_header :: "wop \<Rightarrow> bool" where
  "is_header (HSet k v) = True"
| "is_header (HAdd k v) = True"
| "is_header _ = False"

definition well_written :: "wop list \<Rightarrow> bool" where
  "well_written ops \<longleftrightarrow>
     (\<exists>hs n bs. ops = hs @ HStatus n # map HWrite bs \<and> (\<forall>h \<in> set hs. is_header h) \<and> n \<noteq> 0)"

lemma fold_headers:
  assumes "\<forall>h \<in> set hs. is_header h" and "wr_header w = rr_header rr"
  shows "wr_sent (fold write_op hs w) = wr_sent w" "wr_body (fold write_op hs w) = wr_body w"
    "rr_body (fold record_op hs rr) = rr_body rr" "rr_statusCodeVal (fold record_op hs rr) = rr_statusCodeVal rr"
    "wr_header (fold write_op hs w) = rr_header (fold record_op hs rr)"
proof -
  have "wr_sent (fold write_op hs w) = wr_sent w \<and> wr_body (fold write_op hs w) = wr_body w \<and>
    rr_body (fold record_op hs rr) = rr_body rr \<and> rr_statusCodeVal (fold record_op hs rr) = rr_statusCodeVal rr \<and>
    wr_header (fold write_op hs w) = rr_header (fold record_op hs rr)"
    using assms
  proof (induction hs arbitrary: w rr)
    case (Cons h hs)
    then show ?case using Cons.IH [of "write_op h w" "record_op h rr"] by (cases h) simp_all
  qed simp
  then show "wr_sent (fold write_op hs w) = wr_sent w" "wr_body (fold write_op hs w) = wr_body w"
    "rr_body (fold record_op hs rr) = rr_body rr" "rr_statusCodeVal (fold record_op hs rr) = rr_statusCodeVal rr"
    "wr_header (fold write_op hs w) = rr_header (fold record_op hs rr)" by blast+
qed

lemma fold_bodies:
  "wr_sent w = Some nh \<Longrightarrow> fold write_op (map HWrite bs) w = w\<lparr>wr_body := wr_body w @ concat bs\<rparr>"
  by (induction bs arbitrary: w) simp_all

lemma fold_record_bodies:
  "rr_statusCodeVal rr \<noteq> 0 \<Longrightarrow> fold record_op (map HWrite bs) rr = rr\<lparr>rr_body := rr_body rr @ concat bs\<rparr>"
  by (induction bs arbitrary: rr) (simp_all add: recorder_Write_def Let_def)

text \<open>On such calls the recorder holds what the server would send.\<close>

lemma recorder_response:
  assumes "well_written ops"
  shows "response_of ops = \<lparr>rp_status = recorder_statusCode (run_recorder ops),
    rp_header = rr_header (run_recorder ops), rp_body = rr_body (run_recorder ops)\<rparr>"
proof -
  obtain hs n bs where ops: "ops = hs @ HStatus n # map HWrite bs" "\<forall>h \<in> set hs. is_header h" "n \<noteq> 0"
    using assms by (auto simp: well_written_def)
  note h = fold_headers [OF ops(2), of new_writer newResponseRecorder]
  show ?thesis
    using ops(3) h
    by (simp add: ops(1) response_of_def run_writer_def run_recorder_def fold_bodies fold_record_bodies recorder_WriteHeader_def
        recorder_statusCode_def new_writer_def newResponseRecorder_def Let_def)
qed

section \<open>Decoding JSON into structs\<close>

text \<open>
  \<open>encoding/json\<close> on structs: keys match field names without regard to case, unknown
  keys are skipped, \<open>null\<close> leaves a field alone, and a value of the wrong kind is an error.
\<close>

definition key_is :: "env \<Rightarrow> string \<Rightarrow> string \<Rightarrow> bool" where
  "key_is E k name \<longleftrightarrow> (if ascii k then map ascii_lower k else e_fold E k) = name"

fun decode_str :: "json \<Rightarrow> string \<Rightarrow> string option" where
  "decode_str (JStr s) cur = Some s"
| "decode_str JNull cur = Some cur"
| "decode_str _ cur = None"

fun decode_fields :: "(string \<times> json \<Rightarrow> 'r \<Rightarrow> 'r option) \<Rightarrow> (string \<times> json) list \<Rightarrow> 'r \<Rightarrow> 'r option" where
  "decode_fields f [] r = Some r"
| "decode_fields f (kv # kvs) r = (case f kv r of None \<Rightarrow> None | Some r' \<Rightarrow> decode_fields f kvs r')"

end
