(* ===== verification/Cached_Response.thy ===== *)
theory Cached_Response
  imports Http
begin

text \<open>
  The record that the idempotency middleware keeps of a response (\<open>cachedResponse\<close> in
  \<open>internal/middleware/idempotency.go\<close>) and its JSON form. A document in Redis or in a
  \<open>JSONB\<close> column is a value of type \<^typ>\<open>json\<close>: text and parser of JSON are left out, the
  mapping between structs and documents (field names, base64 of byte slices, replacement of
  invalid UTF-8) is not.
\<close>

section \<open>Base64\<close>

text \<open>\<open>base64.StdEncoding\<close>, which \<open>encoding/json\<close> uses for \<open>[]byte\<close>. The decoder skips line breaks.\<close>

definition b64_alphabet :: string where
  "b64_alphabet = ''ABCDEFGHIJKLMNOPQRSTUVWXYZabcdefghijklmnopqrstuvwxyz0123456789+/''"

definition b64_char :: "nat \<Rightarrow> char" where
  "b64_char n = b64_alphabet ! n"

definition b64_val :: "char \<Rightarrow> nat option" where
  "b64_val c = find (\<lambda>n. b64_char n = c) [0..<64]"

definition byte_val :: "char \<Rightarrow> nat" where
  "byte_val c = of_char c"

fun b64_encode :: "string \<Rightarrow> string" where
  "b64_encode [] = []"
| "b64_encode [a] = [b64_char (byte_val a div 4), b64_char (byte_val a mod 4 * 16), CHR ''='', CHR ''='']"
| "b64_encode [a, b] =
     [b64_char (byte_val a div 4), b64_char (byte_val a mod 4 * 16 + byte_val b div 16),
      b64_char (byte_val b mod 16 * 4), CHR ''='']"
| "b64_encode (a # b # c # s) =
     [b64_char (byte_val a div 4), b64_char (byte_val a mod 4 * 16 + byte_val b div 16),
      b64_char (byte_val b mod 16 * 4 + byte_val c div 64), b64_char (byte_val c mod 64)] @ b64_encode s"

fun b64_quads :: "string \<Rightarrow> string option" where
  "b64_quads [] = Some []"
| "b64_quads (p # q # r # t # s) =
     (case (b64_val p, b64_val q) of
        (Some x, Some y) \<Rightarrow>
          if r = CHR ''='' then
            (if t = CHR ''='' \<and> s = [] then Some [char_of (x * 4 + y div 16)] else None)
          else
            (case b64_val r of
               None \<Rightarrow> None
             | Some z \<Rightarrow>
                 if t = CHR ''='' then
                   (if s = [] then Some [char_of (x * 4 + y div 16), char_of (y mod 16 * 16 + z div 4)] else None)
                 else
                   (case (b64_val t, b64_quads s) of
                      (Some v, Some rest) \<Rightarrow>
                        Some (char_of (x * 4 + y div 16) # char_of (y mod 16 * 16 + z div 4)
                              # char_of (z mod 4 * 64 + v) # rest)
                    | _ \<Rightarrow> None))
      | _ \<Rightarrow> None)"
| "b64_quads _ = None"

definition b64_decode :: "string \<Rightarrow> string option" where
  "b64_decode s = b64_quads (filter (\<lambda>c. c \<noteq> CHR 0x0A \<and> c \<noteq> CHR 0x0D) s)"

lemma b64_table: "list_all (\<lambda>n. b64_val (b64_char n) = Some n \<and> b64_char n \<noteq> CHR ''='' \<and>
    b64_char n \<noteq> CHR 0x0A \<and> b64_char n \<noteq> CHR 0x0D \<and> \<not> digit7 (b64_char n)) [0..<64]"
  by code_simp

lemma b64_chars [simp]:
  assumes "n < 64"
  shows "b64_val (b64_char n) = Some n" "b64_char n \<noteq> CHR ''=''" "b64_char n \<noteq> CHR 0x0A" "b64_char n \<noteq> CHR 0x0D"
    "\<not> digit7 (b64_char n)"
  using b64_table assms by (auto simp: list_all_iff)

lemma byte_val_less: "byte_val c < 256"
  unfolding byte_val_def by (metis mod_less_divisor of_char_mod_256 zero_less_numeral)

lemma char_of_byte_val [simp]: "char_of (byte_val c) = c"
  by (simp add: byte_val_def)

lemma byte_div: "byte_val a div 4 < 64" "byte_val b div 16 < 16" "byte_val c div 64 < 4"
  using byte_val_less [of a] byte_val_less [of b] byte_val_less [of c] by (simp_all add: less_mult_imp_div_less)

lemma byte_pieces [simp]:
  "byte_val a div 4 < 64" "byte_val a mod 4 * 16 < 64" "byte_val a mod 4 * 16 + byte_val b div 16 < 64"
  "byte_val b mod 16 * 4 < 64" "byte_val b mod 16 * 4 + byte_val c div 64 < 64" "byte_val c mod 64 < 64"
proof -
  have m: "byte_val a mod 4 < 4" "byte_val b mod 16 < 16" "byte_val c mod 64 < 64" by simp_all
  show "byte_val a div 4 < 64" "byte_val c mod 64 < 64" using byte_div(1) m(3) .
  show "byte_val a mod 4 * 16 < 64" "byte_val a mod 4 * 16 + byte_val b div 16 < 64"
    "byte_val b mod 16 * 4 < 64" "byte_val b mod 16 * 4 + byte_val c div 64 < 64"
    using m byte_div(2) [of b] byte_div(3) [of c] by linarith+
qed

lemma byte_high [simp]:
  "byte_val b div 16 div 16 = 0" "byte_val b div 16 mod 16 = byte_val b div 16"
  "byte_val c div 64 div 4 = 0" "byte_val c div 64 mod 4 = byte_val c div 64"
  using byte_div(2) [of b] byte_div(3) [of c] by simp_all

lemma b64_encode_plain: "list_all (\<lambda>c. c \<noteq> CHR 0x0A \<and> c \<noteq> CHR 0x0D \<and> \<not> digit7 c) (b64_encode s)"
  by (induction s rule: b64_encode.induct) simp_all

lemma b64_quads_encode: "b64_quads (b64_encode s) = Some s"
  by (induction s rule: b64_encode.induct) simp_all

lemma b64_roundtrip [simp]: "b64_decode (b64_encode s) = Some s"
proof -
  have "filter (\<lambda>c. c \<noteq> CHR 0x0A \<and> c \<noteq> CHR 0x0D) (b64_encode s) = b64_encode s"
    using b64_encode_plain [of s] by (auto simp: filter_id_conv list_all_iff)
  then show ?thesis by (simp add: b64_decode_def b64_quads_encode)
qed

section \<open>The record and its document\<close>

record cached_response =
  cd_RequestPath :: string
  cd_RequestMethod :: string
  cd_RequestHash :: string
  cd_ResponseStatus :: int
  cd_ResponseHeaders :: header
  cd_ResponseBody :: string
  cd_CreatedAtUnixNano :: int
  cd_ExpiresAtUnixNano :: int

definition zero_response :: cached_response where
  "zero_response = \<lparr>cd_RequestPath = [], cd_RequestMethod = [], cd_RequestHash = [], cd_ResponseStatus = 0,
     cd_ResponseHeaders = [], cd_ResponseBody = [], cd_CreatedAtUnixNano = 0, cd_ExpiresAtUnixNano = 0\<rparr>"

text \<open>
  \<open>json.Marshal\<close>: strings become valid UTF-8, byte slices base64. The empty slice, nil or not,
  is one value here and is written as \<open>null\<close>.
\<close>

definition utf8 :: "env \<Rightarrow> string \<Rightarrow> string" where
  "utf8 E s = (if ascii s then s else e_utf8 E s)"

definition headers_json :: "env \<Rightarrow> header \<Rightarrow> json" where
  "headers_json E h = JObj (map (\<lambda>(k, vs). (utf8 E k, JArr (map (\<lambda>v. JStr (utf8 E v)) vs))) h)"

definition Marshal :: "env \<Rightarrow> cached_response \<Rightarrow> json" where
  "Marshal E r = JObj
     [(''request_path'', JStr (utf8 E (cd_RequestPath r))), (''request_method'', JStr (utf8 E (cd_RequestMethod r))),
      (''request_hash'', JStr (utf8 E (cd_RequestHash r))), (''response_status'', JInt (cd_ResponseStatus r)),
      (''response_headers'', headers_json E (cd_ResponseHeaders r)),
      (''response_body'', if cd_ResponseBody r = [] then JNull else JStr (b64_encode (cd_ResponseBody r))),
      (''created_at_unix_nano'', JInt (cd_CreatedAtUnixNano r)), (''expires_at_unix_nano'', JInt (cd_ExpiresAtUnixNano r))]"

text \<open>
  \<open>json.Unmarshal\<close>. Decoding into a map goes on after a value of the wrong kind; the flag tells
  whether there was none.
\<close>

fun string_item :: "json \<Rightarrow> bool \<times> string" where
  "string_item (JStr s) = (True, s)"
| "string_item JNull = (True, [])"
| "string_item _ = (False, [])"

fun string_items :: "json \<Rightarrow> bool \<times> string list" where
  "string_items (JArr vs) = (list_all (\<lambda>v. fst (string_item v)) vs, map (\<lambda>v. snd (string_item v)) vs)"
| "string_items JNull = (True, [])"
| "string_items _ = (False, [])"

definition headers_fields :: "(string \<times> json) list \<Rightarrow> header \<Rightarrow> header" where
  "headers_fields kvs h = fold (\<lambda>(k, v). AList.update k (snd (string_items v))) kvs h"

fun headers_of :: "json \<Rightarrow> header \<Rightarrow> bool \<times> header" where
  "headers_of (JObj kvs) h = (list_all (\<lambda>(k, v). fst (string_items v)) kvs, headers_fields kvs h)"
| "headers_of JNull h = (True, [])"
| "headers_of _ h = (False, h)"

fun byte_item :: "json \<Rightarrow> char option" where
  "byte_item (JInt n) = (if 0 \<le> n \<and> n < 256 then Some (char_of (nat n)) else None)"
| "byte_item JNull = Some (char_of (0 :: nat))"
| "byte_item _ = None"

fun decode_bytes :: "json \<Rightarrow> string option" where
  "decode_bytes (JStr s) = b64_decode s"
| "decode_bytes JNull = Some []"
| "decode_bytes (JArr vs) = those (map byte_item vs)"
| "decode_bytes _ = None"

fun decode_int64 :: "json \<Rightarrow> int \<Rightarrow> int option" where
  "decode_int64 (JInt n) cur = (if IsInt64 n then Some n else None)"
| "decode_int64 JNull cur = Some cur"
| "decode_int64 _ cur = None"

definition response_field :: "env \<Rightarrow> string \<times> json \<Rightarrow> cached_response \<Rightarrow> cached_response option" where
  "response_field E kv r =
     (case kv of (k, v) \<Rightarrow>
        if key_is E k ''request_path'' then map_option (\<lambda>x. r\<lparr>cd_RequestPath := x\<rparr>) (decode_str v (cd_RequestPath r))
        else if key_is E k ''request_method'' then map_option (\<lambda>x. r\<lparr>cd_RequestMethod := x\<rparr>) (decode_str v (cd_RequestMethod r))
        else if key_is E k ''request_hash'' then map_option (\<lambda>x. r\<lparr>cd_RequestHash := x\<rparr>) (decode_str v (cd_RequestHash r))
        else if key_is E k ''response_status'' then
          map_option (\<lambda>x. r\<lparr>cd_ResponseStatus := x\<rparr>) (decode_int64 v (cd_ResponseStatus r))
        else if key_is E k ''response_headers'' then
          (case headers_of v (cd_ResponseHeaders r) of (ok, h) \<Rightarrow> if ok then Some (r\<lparr>cd_ResponseHeaders := h\<rparr>) else None)
        else if key_is E k ''response_body'' then map_option (\<lambda>x. r\<lparr>cd_ResponseBody := x\<rparr>) (decode_bytes v)
        else if key_is E k ''created_at_unix_nano'' then
          map_option (\<lambda>x. r\<lparr>cd_CreatedAtUnixNano := x\<rparr>) (decode_int64 v (cd_CreatedAtUnixNano r))
        else if key_is E k ''expires_at_unix_nano'' then
          map_option (\<lambda>x. r\<lparr>cd_ExpiresAtUnixNano := x\<rparr>) (decode_int64 v (cd_ExpiresAtUnixNano r))
        else Some r)"

fun Unmarshal :: "env \<Rightarrow> json \<Rightarrow> cached_response option" where
  "Unmarshal E (JObj kvs) = decode_fields (response_field E) kvs zero_response"
| "Unmarshal E JNull = Some zero_response"
| "Unmarshal E _ = None"

section \<open>Round trip\<close>

definition plain_header :: "env \<Rightarrow> header \<Rightarrow> bool" where
  "plain_header E h \<longleftrightarrow> distinct (map fst h) \<and> (\<forall>(k, vs) \<in> set h. utf8 E k = k \<and> (\<forall>v \<in> set vs. utf8 E v = v))"

lemma string_items_strs [simp]: "string_items (JArr (map (\<lambda>v. JStr (f v)) vs)) = (True, map f vs)"
  by (induction vs) simp_all

lemma update_fresh: "k \<notin> fst ` set h \<Longrightarrow> AList.update k v h = h @ [(k, v)]"
  by (induction h) auto

lemma headers_fields_fresh:
  assumes "distinct (map fst h)" and "fst ` set h \<inter> fst ` set acc = {}"
    and "\<forall>(k, vs) \<in> set h. utf8 E k = k \<and> (\<forall>v \<in> set vs. utf8 E v = v)"
  shows "headers_fields (map (\<lambda>(k, vs). (utf8 E k, JArr (map (\<lambda>v. JStr (utf8 E v)) vs))) h) acc = acc @ h"
  using assms
proof (induction h arbitrary: acc)
  case (Cons kv h)
  obtain k vs where kv: "kv = (k, vs)" by fastforce
  have vs: "map (utf8 E) vs = vs" and k: "utf8 E k = k" using Cons.prems(3) by (auto simp: kv intro: map_idI)
  have "AList.update k vs acc = acc @ [kv]" using Cons.prems(2) by (intro update_fresh [of k acc vs, folded kv]) (auto simp: kv)
  then show ?case
    using Cons.IH [of "acc @ [kv]"] Cons.prems by (simp add: headers_fields_def kv vs k comp_def)
qed (simp add: headers_fields_def)

lemma headers_roundtrip [simp]: "plain_header E h \<Longrightarrow> headers_of (headers_json E h) [] = (True, h)"
  using headers_fields_fresh [of h "[]" E]
  by (auto simp: plain_header_def headers_json_def list_all_iff)

definition plain_response :: "env \<Rightarrow> cached_response \<Rightarrow> bool" where
  "plain_response E r \<longleftrightarrow> utf8 E (cd_RequestPath r) = cd_RequestPath r \<and> utf8 E (cd_RequestMethod r) = cd_RequestMethod r \<and>
     utf8 E (cd_RequestHash r) = cd_RequestHash r \<and> plain_header E (cd_ResponseHeaders r) \<and> IsInt64 (cd_ResponseStatus r) \<and>
     IsInt64 (cd_CreatedAtUnixNano r) \<and> IsInt64 (cd_ExpiresAtUnixNano r)"

lemma field_keys:
  "key_is E ''request_path'' s \<longleftrightarrow> s = ''request_path''" "key_is E ''request_method'' s \<longleftrightarrow> s = ''request_method''"
  "key_is E ''request_hash'' s \<longleftrightarrow> s = ''request_hash''" "key_is E ''response_status'' s \<longleftrightarrow> s = ''response_status''"
  "key_is E ''response_headers'' s \<longleftrightarrow> s = ''response_headers''" "key_is E ''response_body'' s \<longleftrightarrow> s = ''response_body''"
  "key_is E ''created_at_unix_nano'' s \<longleftrightarrow> s = ''created_at_unix_nano''"
  "key_is E ''expires_at_unix_nano'' s \<longleftrightarrow> s = ''expires_at_unix_nano''"
  by (auto simp: key_is_def ascii_lower_def)

lemma response_roundtrip: "plain_response E r \<Longrightarrow> Unmarshal E (Marshal E r) = Some r"
  by (simp add: Marshal_def response_field_def field_keys plain_response_def zero_response_def)

text \<open>
  C40: a cached response that is written as a JSON document, as in the Redis cache, is read
  back unchanged, body included, as long as its strings are valid UTF-8, its header names are
  distinct and its numbers fit 64 bits.
\<close>

theorem cached_response_roundtrip:
  assumes "plain_response E r"
  shows "Unmarshal E (Marshal E r) = Some r"
  using assms by (rule response_roundtrip)

theorem cached_response_roundtrip_witness:
  "Unmarshal steady (Marshal steady (zero_response\<lparr>cd_ResponseStatus := 201, cd_ResponseBody := ''ok'',
     cd_ResponseHeaders := [(''Content-Type'', [''text/plain''])]\<rparr>)) =
   Some (zero_response\<lparr>cd_ResponseStatus := 201, cd_ResponseBody := ''ok'',
     cd_ResponseHeaders := [(''Content-Type'', [''text/plain''])]\<rparr>)"
  by (rule cached_response_roundtrip)
    (simp add: plain_response_def zero_response_def plain_header_def utf8_def IsInt64_def)

end
