(* ===== verification/Idempotency.thy ===== *)
theory Idempotency
  imports Cached_Response
begin

text \<open>
  The idempotency middleware (\<open>internal/middleware/idempotency.go\<close>): a response cache and a lock
  in Redis, and behind them the table \<open>idempotency_keys\<close> with completed responses and leases.

  Both stores are shared with other processes. Between any two steps of a request the oracle
  \<open>ie_others\<close> may change them at will; it also decides how much time a step takes, how far the
  clocks of the servers are off, which calls fail and whether a failed call took effect, and
  when the context of the request is done. Time never runs backwards, and a sleep takes at
  least its duration. Spans, and the values a column does not take (an error of the server,
  hence a fault), are as in the repositories. \<open>sha256\<close> is a parameter.
\<close>

section \<open>Configuration\<close>

definition defaultResponseTTL :: duration where "defaultResponseTTL = 24 * Hour"
definition defaultLockTTL :: duration where "defaultLockTTL = 15 * Second"
definition defaultRequestTimeout :: duration where "defaultRequestTimeout = 60 * Second"
definition defaultWaitTimeout :: duration where "defaultWaitTimeout = 8 * Second"
definition defaultPollEvery :: duration where "defaultPollEvery = 150 * Millisecond"

lemmas default_defs = defaultResponseTTL_def defaultLockTTL_def defaultRequestTimeout_def defaultWaitTimeout_def
  defaultPollEvery_def duration_defs

text \<open>\<open>id_redis\<close> and \<open>id_db\<close> tell whether the clients are configured (not nil).\<close>

record idempotency =
  id_redis :: bool
  id_db :: bool
  id_responseTTL :: duration
  id_lockTTL :: duration
  id_requestTimeout :: duration
  id_waitTimeout :: duration
  id_pollEvery :: duration

record lock_handle =
  lk_kind :: string
  lk_key :: string
  lk_token :: string
  lk_completed :: bool

definition NewIdempotency :: "bool \<Rightarrow> bool \<Rightarrow> idempotency option" where
  "NewIdempotency redisClient db =
     Some \<lparr>id_redis = redisClient, id_db = db, id_responseTTL = defaultResponseTTL, id_lockTTL = defaultLockTTL,
       id_requestTimeout = defaultRequestTimeout, id_waitTimeout = defaultWaitTimeout, id_pollEvery = defaultPollEvery\<rparr>"

definition SetRequestTimeout :: "duration \<Rightarrow> idempotency option \<Rightarrow> idempotency option" where
  "SetRequestTimeout d mo = (if d \<le> 0 then mo else map_option (\<lambda>m. m\<lparr>id_requestTimeout := d\<rparr>) mo)"

section \<open>The stores\<close>

text \<open>A row of \<open>idempotency_keys\<close> (migrations 000003 and 000005).\<close>

record idem_row =
  ik_key :: string
  ik_request_path :: string
  ik_request_method :: string
  ik_request_hash :: string
  ik_status :: string
  ik_lock_token :: "string option"
  ik_lock_expires_at :: "time option"
  ik_response_status_code :: "int option"
  ik_response_headers :: "json option"
  ik_response_body :: "string option"
  ik_created_at :: time
  ik_expires_at :: time

text \<open>Redis: each value with the time at which it expires by the clock of the server.\<close>

datatype redis_val = RText string | RJson json

type_synonym redis = "string \<Rightarrow> (redis_val \<times> time) option"

record stores =
  st_rows :: "idem_row list"
  st_redis :: redis
  st_clock :: time
  st_tick :: nat

record idem_env =
  ie_lat :: "nat \<Rightarrow> nat"
  ie_rskew :: "nat \<Rightarrow> int"
  ie_pskew :: "nat \<Rightarrow> int"
  ie_rfault :: "nat \<Rightarrow> (string \<times> bool) option"
  ie_pfault :: "nat \<Rightarrow> (db_fault \<times> bool) option"
  ie_ctx :: "nat \<Rightarrow> go_error option"
  ie_timer :: "nat \<Rightarrow> go_error option"
  ie_others :: "nat \<Rightarrow> idem_row list \<times> redis \<Rightarrow> idem_row list \<times> redis"
  ie_sha256 :: "string \<Rightarrow> string"

text \<open>One step: time passes and others act.\<close>

definition istep :: "idem_env \<Rightarrow> stores \<Rightarrow> stores" where
  "istep I st =
     (let t = st_tick st; (rows, rds) = ie_others I t (st_rows st, st_redis st)
      in st\<lparr>st_rows := rows, st_redis := rds, st_clock := st_clock st + int (ie_lat I t), st_tick := Suc t\<rparr>)"

text \<open>\<open>time.Now()\<close>, and a timer that is left to run.\<close>

definition inow :: "idem_env \<Rightarrow> stores \<Rightarrow> time \<times> stores" where
  "inow I st = (let st1 = istep I st in (st_clock st1, st1))"

definition isleep :: "idem_env \<Rightarrow> duration \<Rightarrow> stores \<Rightarrow> stores" where
  "isleep I d st = (let st1 = istep I st in st1\<lparr>st_clock := st_clock st1 + d\<rparr>)"

definition redis_clock :: "idem_env \<Rightarrow> stores \<Rightarrow> time" where
  "redis_clock I st = st_clock st + ie_rskew I (st_tick st)"

definition pg_now :: "idem_env \<Rightarrow> stores \<Rightarrow> time" where
  "pg_now I st = pg_ts (st_clock st + ie_pskew I (st_tick st))"

definition redis_call :: "idem_env \<Rightarrow> (stores \<Rightarrow> 'a \<times> stores) \<Rightarrow> stores \<Rightarrow> 'a result \<times> stores" where
  "redis_call I cmd st =
     (let st1 = istep I st in
      case ie_rfault I (st_tick st) of
        None \<Rightarrow> (case cmd st1 of (x, st2) \<Rightarrow> (Inr x, st2))
      | Some (msg, applied) \<Rightarrow> (Inl (NetError msg), if applied then snd (cmd st1) else st1))"

definition pg_call :: "idem_env \<Rightarrow> (stores \<Rightarrow> 'a result \<times> stores) \<Rightarrow> stores \<Rightarrow> 'a result \<times> stores" where
  "pg_call I stmt st =
     (let st1 = istep I st in
      case ie_pfault I (st_tick st) of
        None \<Rightarrow> stmt st1
      | Some (f, applied) \<Rightarrow> (Inl (fault_error f), if applied then snd (stmt st1) else st1))"

text \<open>Redis commands. A missing key is the answer \<open>redis.Nil\<close>, here \<open>None\<close>.\<close>

definition redis_live :: "idem_env \<Rightarrow> stores \<Rightarrow> string \<Rightarrow> redis_val option" where
  "redis_live I st k =
     (case st_redis st k of None \<Rightarrow> None | Some (v, ex) \<Rightarrow> if redis_clock I st < ex then Some v else None)"

definition redis_put :: "idem_env \<Rightarrow> string \<Rightarrow> redis_val \<Rightarrow> duration \<Rightarrow> stores \<Rightarrow> stores" where
  "redis_put I k v ttl st = st\<lparr>st_redis := (st_redis st)(k \<mapsto> (v, redis_clock I st + ttl))\<rparr>"

definition redis_Get :: "idem_env \<Rightarrow> string \<Rightarrow> stores \<Rightarrow> redis_val option \<times> stores" where
  "redis_Get I k st = (redis_live I st k, st)"

definition redis_Set :: "idem_env \<Rightarrow> string \<Rightarrow> redis_val \<Rightarrow> duration \<Rightarrow> stores \<Rightarrow> unit \<times> stores" where
  "redis_Set I k v ttl st = ((), redis_put I k v ttl st)"

definition redis_SetNX :: "idem_env \<Rightarrow> string \<Rightarrow> redis_val \<Rightarrow> duration \<Rightarrow> stores \<Rightarrow> string option \<times> stores" where
  "redis_SetNX I k v ttl st =
     (if redis_live I st k = None then (Some ''OK'', redis_put I k v ttl st) else (None, st))"

text \<open>The script of \<open>releaseLock\<close>: compare and delete.\<close>

definition releaseLua :: "idem_env \<Rightarrow> string \<Rightarrow> string \<Rightarrow> stores \<Rightarrow> int \<times> stores" where
  "releaseLua I k tok st =
     (if redis_live I st k = Some (RText tok) then (1, st\<lparr>st_redis := (st_redis st)(k := None)\<rparr>) else (0, st))"

section \<open>Requests and keys\<close>

definition isIdempotentCandidateMethod :: "string \<Rightarrow> bool" where
  "isIdempotentCandidateMethod method \<longleftrightarrow> method \<in> {''POST'', ''PUT'', ''PATCH'', ''DELETE''}"

definition readAndHashBody :: "idem_env \<Rightarrow> http_request \<Rightarrow> (string \<times> string) result" where
  "readAndHashBody I r =
     (case rq_Body r of
        None \<Rightarrow> Inr ([], ie_sha256 I [])
      | Some (Inl err) \<Rightarrow> Inl err
      | Some (Inr body) \<Rightarrow> Inr (body, ie_sha256 I body))"

definition buildLockScope :: "string \<Rightarrow> string \<Rightarrow> string \<Rightarrow> string" where
  "buildLockScope method path key = method @ '':'' @ path @ '':'' @ key"

definition redisResponseKey :: "string \<Rightarrow> string" where
  "redisResponseKey key = ''idem:resp:'' @ key"

definition redisLockKey :: "string \<Rightarrow> string" where
  "redisLockKey scope = ''idem:lock:'' @ scope"

definition request_key :: "http_request \<Rightarrow> string" where
  "request_key r =
     (let key = TrimSpace (header_Get (rq_Header r) ''Idempotency-Key'')
      in if key = [] then TrimSpace (header_Get (rq_Header r) ''X-Idempotency-Key'') else key)"

section \<open>Storing and looking up responses\<close>

definition writeRedisCache :: "env \<Rightarrow> idem_env \<Rightarrow> idempotency \<Rightarrow> string \<Rightarrow> cached_response \<Rightarrow> stores \<Rightarrow> unit result \<times> stores" where
  "writeRedisCache E I m key resp st =
     (let ttl = (if id_responseTTL m \<le> 0 then defaultResponseTTL else id_responseTTL m)
      in redis_call I (redis_Set I (redisResponseKey key) (RJson (Marshal E resp)) ttl) st)"

definition select_completed :: "idem_env \<Rightarrow> string \<Rightarrow> stores \<Rightarrow> cached_response result \<times> stores" where
  "select_completed I key st =
     (case find (\<lambda>row. ik_key row = key \<and> ik_status row = ''completed'' \<and> pg_now I st < ik_expires_at row) (st_rows st) of
        None \<Rightarrow> (Inl (Sentinel ErrNoRows), st)
      | Some row \<Rightarrow>
          (case ik_response_status_code row of
             None \<Rightarrow> (Inl (OtherError ''cannot scan NULL into *int''), st)
           | Some n \<Rightarrow>
               (Inr \<lparr>cd_RequestPath = ik_request_path row, cd_RequestMethod = ik_request_method row,
                  cd_RequestHash = ik_request_hash row, cd_ResponseStatus = n,
                  cd_ResponseHeaders = (case ik_response_headers row of None \<Rightarrow> [] | Some j \<Rightarrow> snd (headers_of j [])),
                  cd_ResponseBody = (case ik_response_body row of None \<Rightarrow> [] | Some b \<Rightarrow> b),
                  cd_CreatedAtUnixNano = ik_created_at row, cd_ExpiresAtUnixNano = ik_expires_at row\<rparr>, st)))"

definition lookup_redis :: "env \<Rightarrow> idem_env \<Rightarrow> string \<Rightarrow> stores \<Rightarrow> cached_response option \<times> stores" where
  "lookup_redis E I key st =
     (case redis_call I (redis_Get I (redisResponseKey key)) st of
        (Inr (Some (RJson j)), st1) \<Rightarrow>
          (case Unmarshal E j of
             None \<Rightarrow> (None, st1)
           | Some resp \<Rightarrow>
               if cd_ExpiresAtUnixNano resp = 0 then (Some resp, st1)
               else (case inow I st1 of (now, st2) \<Rightarrow> (if now < cd_ExpiresAtUnixNano resp then Some resp else None, st2)))
      | (_, st1) \<Rightarrow> (None, st1))"

definition lookupCachedResponse :: "env \<Rightarrow> idem_env \<Rightarrow> idempotency \<Rightarrow> string \<Rightarrow> stores \<Rightarrow> cached_response option result \<times> stores" where
  "lookupCachedResponse E I m key st =
     (case (if id_redis m then lookup_redis E I key st else (None, st)) of
        (Some resp, st1) \<Rightarrow> (Inr (Some resp), st1)
      | (None, st1) \<Rightarrow>
          if \<not> id_db m then (Inr None, st1)
          else (case pg_call I (select_completed I key) st1 of
            (Inl err, st2) \<Rightarrow> if errors_Is err ErrNoRows then (Inr None, st2) else (Inl err, st2)
          | (Inr resp, st2) \<Rightarrow>
              (Inr (Some resp), if id_redis m then snd (writeRedisCache E I m key resp st2) else st2)))"

text \<open>The end of a record's life as a time, and the guard against a zero time.\<close>

definition expires_at :: "idem_env \<Rightarrow> idempotency \<Rightarrow> cached_response \<Rightarrow> stores \<Rightarrow> time \<times> stores" where
  "expires_at I m resp st =
     (let expiresAt = cd_ExpiresAtUnixNano resp in
      if IsZero expiresAt then (case inow I st of (now, st1) \<Rightarrow> (now + id_responseTTL m, st1))
      else (expiresAt, st))"

definition complete_stmt :: "env \<Rightarrow> string \<Rightarrow> cached_response \<Rightarrow> time \<Rightarrow> string \<Rightarrow> stores \<Rightarrow> nat result \<times> stores" where
  "complete_stmt E key resp expiresAt tok st =
     (let P = (\<lambda>row. ik_key row = key \<and> ik_status row = ''in_progress'' \<and> ik_lock_token row = Some tok) in
      (Inr (sql_count P (st_rows st)),
       st\<lparr>st_rows := sql_update P (\<lambda>row. row\<lparr>ik_status := ''completed'', ik_response_status_code := Some (cd_ResponseStatus resp),
            ik_response_headers := Some (headers_json E (cd_ResponseHeaders resp)),
            ik_response_body := Some (cd_ResponseBody resp), ik_expires_at := pg_ts expiresAt,
            ik_lock_token := None, ik_lock_expires_at := None\<rparr>) (st_rows st)\<rparr>))"

definition writePGCache :: "env \<Rightarrow> idem_env \<Rightarrow> idempotency \<Rightarrow> string \<Rightarrow> cached_response \<Rightarrow> lock_handle option
    \<Rightarrow> stores \<Rightarrow> unit result \<times> stores" where
  "writePGCache E I m key resp handle st =
     (case handle of
        None \<Rightarrow> (Inl (OtherError ''idempotency: writePGCache: nil handle''), st)
      | Some h \<Rightarrow>
          (case expires_at I m resp st of (expiresAt, st1) \<Rightarrow>
            (case pg_call I (complete_stmt E key resp expiresAt (lk_token h)) st1 of
               (Inl err, st2) \<Rightarrow> (Inl err, st2)
             | (Inr n, st2) \<Rightarrow>
                 if n = 0 then
                   (Inl (OtherError ''idempotency: pg lease completion: no matching in-progress row or token mismatch''), st2)
                 else (Inr (), st2))))"

definition upsert_stmt :: "env \<Rightarrow> idem_env \<Rightarrow> string \<Rightarrow> cached_response \<Rightarrow> time \<Rightarrow> stores \<Rightarrow> unit result \<times> stores" where
  "upsert_stmt E I key resp expiresAt st =
     (let done_row = (\<lambda>created. \<lparr>ik_key = key, ik_request_path = cd_RequestPath resp, ik_request_method = cd_RequestMethod resp,
            ik_request_hash = cd_RequestHash resp, ik_status = ''completed'', ik_lock_token = None, ik_lock_expires_at = None,
            ik_response_status_code = Some (cd_ResponseStatus resp),
            ik_response_headers = Some (headers_json E (cd_ResponseHeaders resp)),
            ik_response_body = Some (cd_ResponseBody resp), ik_created_at = created, ik_expires_at = pg_ts expiresAt\<rparr>)
      in (Inr (),
          if (\<exists>row \<in> set (st_rows st). ik_key row = key)
          then st\<lparr>st_rows := sql_update (\<lambda>row. ik_key row = key) (\<lambda>row. done_row (ik_created_at row)) (st_rows st)\<rparr>
          else st\<lparr>st_rows := st_rows st @ [done_row (pg_now I st)]\<rparr>))"

definition upsertPGCompleted :: "env \<Rightarrow> idem_env \<Rightarrow> idempotency \<Rightarrow> string \<Rightarrow> cached_response \<Rightarrow> stores \<Rightarrow> unit result \<times> stores" where
  "upsertPGCompleted E I m key resp st =
     (case expires_at I m resp st of (expiresAt, st1) \<Rightarrow> pg_call I (upsert_stmt E I key resp expiresAt) st1)"

text \<open>The first error, the handle with its flag \<open>completed\<close>, and the stores.\<close>

definition storeCachedResponse :: "env \<Rightarrow> idem_env \<Rightarrow> idempotency \<Rightarrow> string \<Rightarrow> cached_response option \<Rightarrow> lock_handle option
    \<Rightarrow> stores \<Rightarrow> go_error option \<times> lock_handle option \<times> stores" where
  "storeCachedResponse E I m key respo handle st =
     (case respo of
        None \<Rightarrow> (None, handle, st)
      | Some resp \<Rightarrow>
          (let (firstErr, st1) =
                 (if id_redis m then
                    (case writeRedisCache E I m key resp st of (Inl err, st1) \<Rightarrow> (Some err, st1) | (Inr _, st1) \<Rightarrow> (None, st1))
                  else (None, st));
               (res, handle', st2) =
                 (if \<not> id_db m then (Inr (), handle, st1)
                  else (case handle of
                    Some h \<Rightarrow>
                      if lk_kind h = ''pg'' then
                        (case writePGCache E I m key resp handle st1 of
                           (Inl err, st2) \<Rightarrow> (Inl err, handle, st2)
                         | (Inr _, st2) \<Rightarrow> (Inr (), Some (h\<lparr>lk_completed := True\<rparr>), st2))
                      else (case upsertPGCompleted E I m key resp st1 of (res, st2) \<Rightarrow> (res, handle, st2))
                  | None \<Rightarrow> (case upsertPGCompleted E I m key resp st1 of (res, st2) \<Rightarrow> (res, handle, st2))))
           in (case res of Inl err \<Rightarrow> if firstErr = None then Some err else firstErr | Inr _ \<Rightarrow> firstErr, handle', st2)))"

section \<open>The lock\<close>

definition acquire_stmt :: "idem_env \<Rightarrow> string \<Rightarrow> string \<Rightarrow> string \<Rightarrow> string \<Rightarrow> time \<Rightarrow> time \<Rightarrow> stores \<Rightarrow> string result \<times> stores" where
  "acquire_stmt I idemKey requestPath requestMethod token lockExpiresAt rowExpiresAt st =
     (case find (\<lambda>row. ik_key row = idemKey) (st_rows st) of
        None \<Rightarrow>
          (Inr token,
           st\<lparr>st_rows := st_rows st @ [\<lparr>ik_key = idemKey, ik_request_path = requestPath, ik_request_method = requestMethod,
                ik_request_hash = token, ik_status = ''in_progress'', ik_lock_token = Some token,
                ik_lock_expires_at = Some (pg_ts lockExpiresAt), ik_response_status_code = None,
                ik_response_headers = None, ik_response_body = None, ik_created_at = pg_now I st,
                ik_expires_at = pg_ts rowExpiresAt\<rparr>]\<rparr>)
      | Some row \<Rightarrow>
          if ik_status row = ''in_progress'' \<and> (case ik_lock_expires_at row of None \<Rightarrow> False | Some le \<Rightarrow> le < pg_now I st) then
            (Inr token,
             st\<lparr>st_rows := sql_update (\<lambda>row. ik_key row = idemKey)
                  (\<lambda>row. row\<lparr>ik_request_path := requestPath, ik_request_method := requestMethod, ik_request_hash := token,
                     ik_status := ''in_progress'', ik_lock_token := Some token,
                     ik_lock_expires_at := Some (pg_ts lockExpiresAt), ik_expires_at := pg_ts rowExpiresAt\<rparr>) (st_rows st)\<rparr>)
          else (Inl (Sentinel ErrNoRows), st))"

definition acquire_pg :: "idem_env \<Rightarrow> idempotency \<Rightarrow> string \<Rightarrow> string \<Rightarrow> string \<Rightarrow> string \<Rightarrow> stores
    \<Rightarrow> lock_handle option result \<times> stores" where
  "acquire_pg I m idemKey requestPath requestMethod token st =
     (if \<not> id_db m then (Inl (OtherError ''no lock backend configured''), st)
      else
        (let leaseDur = (if id_requestTimeout m \<le> 0 then defaultRequestTimeout else id_requestTimeout m);
             (now1, st1) = inow I st;
             respTTL = (if id_responseTTL m \<le> 0 then defaultResponseTTL else id_responseTTL m);
             (now2, st2) = inow I st1
         in case pg_call I (acquire_stmt I idemKey requestPath requestMethod token (now1 + leaseDur) (now2 + respTTL)) st2 of
              (Inl err, st3) \<Rightarrow> if errors_Is err ErrNoRows then (Inr None, st3) else (Inl err, st3)
            | (Inr returnedToken, st3) \<Rightarrow>
                if returnedToken = [] then (Inr None, st3)
                else (Inr (Some \<lparr>lk_kind = ''pg'', lk_key = idemKey, lk_token = returnedToken, lk_completed = False\<rparr>), st3)))"

definition tryAcquireLock :: "idem_env \<Rightarrow> idempotency \<Rightarrow> string \<Rightarrow> string \<Rightarrow> string \<Rightarrow> string \<Rightarrow> string \<Rightarrow> stores
    \<Rightarrow> lock_handle option result \<times> stores" where
  "tryAcquireLock I m scope idemKey requestPath requestMethod token st =
     (let lockTTL = (if id_lockTTL m \<le> 0 then defaultLockTTL else id_lockTTL m) in
      if id_redis m then
        (case redis_call I (redis_SetNX I (redisLockKey scope) (RText token) lockTTL) st of
           (Inr (Some _), st1) \<Rightarrow>
             (Inr (Some \<lparr>lk_kind = ''redis'', lk_key = scope, lk_token = token, lk_completed = False\<rparr>), st1)
         | (Inr None, st1) \<Rightarrow> (Inr None, st1)
         | (Inl _, st1) \<Rightarrow> acquire_pg I m idemKey requestPath requestMethod token st1)
      else acquire_pg I m idemKey requestPath requestMethod token st)"

definition release_stmt :: "string \<Rightarrow> string \<Rightarrow> stores \<Rightarrow> unit result \<times> stores" where
  "release_stmt key tok st =
     (Inr (), st\<lparr>st_rows := filter (\<lambda>row. \<not> (ik_key row = key \<and> ik_lock_token row = Some tok \<and> ik_status row = ''in_progress''))
        (st_rows st)\<rparr>)"

definition releaseLock :: "idem_env \<Rightarrow> idempotency \<Rightarrow> lock_handle option \<Rightarrow> stores \<Rightarrow> stores" where
  "releaseLock I m ho st =
     (case ho of
        None \<Rightarrow> st
      | Some h \<Rightarrow>
          if lk_kind h = ''redis'' then
            (if \<not> id_redis m then st else snd (redis_call I (releaseLua I (redisLockKey (lk_key h)) (lk_token h)) st))
          else if lk_kind h = ''pg'' then
            (if \<not> id_db m \<or> lk_completed h then st else snd (pg_call I (release_stmt (lk_key h) (lk_token h)) st))
          else st)"

section \<open>Time in the stores\<close>

text \<open>At most \<open>n\<close> steps lead from one state to the other, and they take as long as the steps take.\<close>

definition passes :: "idem_env \<Rightarrow> nat \<Rightarrow> stores \<Rightarrow> stores \<Rightarrow> bool" where
  "passes I n st st' \<longleftrightarrow> st_tick st \<le> st_tick st' \<and> st_tick st' \<le> st_tick st + n \<and>
     st_clock st' = st_clock st + (\<Sum>t = st_tick st..<st_tick st'. int (ie_lat I t))"

lemma passes_refl [simp]: "passes I n st st"
  by (simp add: passes_def)

lemma passes_trans: "passes I a st st1 \<Longrightarrow> passes I b st1 st2 \<Longrightarrow> a + b \<le> n \<Longrightarrow> passes I n st st2"
  using sum.atLeastLessThan_concat [of "st_tick st" "st_tick st1" "st_tick st2" "\<lambda>t. int (ie_lat I t)"]
  by (simp add: passes_def)

lemma passes_mono: "passes I a st st' \<Longrightarrow> a \<le> n \<Longrightarrow> passes I n st st'"
  by (simp add: passes_def)

lemma passes_clock: "passes I n st st' \<Longrightarrow> st_clock st \<le> st_clock st'"
  by (simp add: passes_def sum_nonneg)

lemma passes_slow:
  assumes "passes I n st st'" and "\<forall>t. ie_lat I t \<le> d"
  shows "st_clock st' \<le> st_clock st + int (n * d)"
proof -
  have "(\<Sum>t = st_tick st..<st_tick st'. int (ie_lat I t)) \<le> int (st_tick st' - st_tick st) * int d"
    using sum_bounded_above [of "{st_tick st..<st_tick st'}" "\<lambda>t. int (ie_lat I t)" "int d"] assms(2) by simp
  also have "\<dots> \<le> int n * int d" using assms(1) by (intro mult_right_mono) (simp_all add: passes_def)
  finally show ?thesis using assms(1) by (simp add: passes_def)
qed

lemma istep_fields [simp]:
  "st_tick (istep I st) = Suc (st_tick st)" "st_clock (istep I st) = st_clock st + int (ie_lat I (st_tick st))"
  "st_rows (istep I st) = fst (ie_others I (st_tick st) (st_rows st, st_redis st))"
  "st_redis (istep I st) = snd (ie_others I (st_tick st) (st_rows st, st_redis st))"
  by (simp_all add: istep_def Let_def split: prod.splits)

lemma passes_step [simp]: "passes I (Suc 0) st (istep I st)" "passes I (Suc 0) st (snd (inow I st))"
  by (simp_all add: passes_def inow_def Let_def)

text \<open>A command or statement acts at one instant.\<close>

definition instant :: "(stores \<Rightarrow> 'a \<times> stores) \<Rightarrow> bool" where
  "instant f \<longleftrightarrow> (\<forall>st. st_clock (snd (f st)) = st_clock st \<and> st_tick (snd (f st)) = st_tick st)"

lemma instant_commands [simp]:
  "instant (redis_Get I k)" "instant (redis_Set I k v ttl)" "instant (redis_SetNX I k v ttl)" "instant (releaseLua I k tok)"
  "instant (select_completed I k)" "instant (complete_stmt E k resp ex tok)" "instant (upsert_stmt E I k resp ex)"
  "instant (acquire_stmt I k path mth tok le re)" "instant (release_stmt k tok)"
  by (simp_all add: instant_def redis_Get_def redis_Set_def redis_SetNX_def releaseLua_def redis_put_def select_completed_def
      complete_stmt_def upsert_stmt_def acquire_stmt_def release_stmt_def Let_def split: option.splits)

lemma passes_call:
  "instant cmd \<Longrightarrow> passes I (Suc 0) st (snd (redis_call I cmd st))" "instant stmt \<Longrightarrow> passes I (Suc 0) st (snd (pg_call I stmt st))"
  by (simp_all add: passes_def redis_call_def pg_call_def instant_def Let_def case_prod_unfold split: option.splits)

lemma passes_writeRedisCache: "passes I (Suc 0) st (snd (writeRedisCache E I m key resp st))"
  by (simp add: writeRedisCache_def Let_def passes_call)

lemma passes_lookup_redis: "passes I 2 st (snd (lookup_redis E I key st))"
proof -
  obtain res st1 where c: "redis_call I (redis_Get I (redisResponseKey key)) st = (res, st1)" by fastforce
  have 1: "passes I (Suc 0) st st1" using passes_call(1) [of "redis_Get I (redisResponseKey key)" I st] c by simp
  then have "passes I 2 st st1" and "passes I 2 st (snd (inow I st1))"
    using passes_trans [OF 1 passes_step(2) [of I st1], of 2] passes_mono [OF 1, of 2] by auto
  then show ?thesis
    by (auto simp: lookup_redis_def c split: sum.splits option.splits redis_val.splits prod.splits)
qed

lemma passes_lookup: "passes I 4 st (snd (lookupCachedResponse E I m key st))"
proof -
  obtain ro st1 where r: "(if id_redis m then lookup_redis E I key st else (None, st)) = (ro, st1)" by fastforce
  have p1: "passes I 2 st st1" using r passes_lookup_redis [of I st E key] by (auto split: if_splits)
  obtain res st2 where q: "pg_call I (select_completed I key) st1 = (res, st2)" by fastforce
  have p2: "passes I 3 st st2"
    using passes_trans [OF p1, of "Suc 0" st2 3] passes_call(2) [of "select_completed I key" I st1] q by simp
  have p3: "passes I 4 st (snd (writeRedisCache E I m key resp st2))" for resp
    using passes_trans [OF p2 passes_writeRedisCache, of 4] by simp
  have "passes I 4 st st1" "passes I 4 st st2" using p1 p2 by (auto intro: passes_mono)
  with p3 show ?thesis
    by (auto simp: lookupCachedResponse_def r q split: option.splits sum.splits)
qed

section \<open>Waiting\<close>

definition wait_poll :: "idempotency \<Rightarrow> duration" where
  "wait_poll m = (if id_pollEvery m \<le> 0 then defaultPollEvery else id_pollEvery m)"

definition wait_timeout :: "idempotency \<Rightarrow> duration" where
  "wait_timeout m = (if id_waitTimeout m \<le> 0 then defaultWaitTimeout else id_waitTimeout m)"

lemma wait_poll_pos [simp]: "0 < wait_poll m"
  by (simp add: wait_poll_def default_defs)

text \<open>
  The loop ends because every round sleeps: the distance of the clock from the deadline is the
  measure. The context is looked at before the lookup and during the sleep.
\<close>

function wait_loop :: "env \<Rightarrow> idem_env \<Rightarrow> idempotency \<Rightarrow> string \<Rightarrow> time \<Rightarrow> stores \<Rightarrow> cached_response result \<times> stores" where
  "wait_loop E I m key deadline st =
     (let st1 = snd (inow I st) in
      if \<not> fst (inow I st) < deadline then (Inl (Sentinel DeadlineExceeded), st1)
      else (case ie_ctx I (st_tick st1) of
        Some err \<Rightarrow> (Inl err, st1)
      | None \<Rightarrow>
          (let st2 = snd (lookupCachedResponse E I m key st1) in
           case fst (lookupCachedResponse E I m key st1) of
             Inr (Some resp) \<Rightarrow> (Inr resp, st2)
           | _ \<Rightarrow>
               (case ie_timer I (st_tick st2) of
                  Some err \<Rightarrow> (Inl err, istep I st2)
                | None \<Rightarrow> wait_loop E I m key deadline (isleep I (wait_poll m) st2)))))"
  by pat_completeness auto

lemma wait_round:
  assumes "fst (inow I st) < deadline"
  shows "st_clock st < deadline \<and>
    st_clock st < st_clock (isleep I (wait_poll m) (snd (lookupCachedResponse E I m key (snd (inow I st)))))"
proof -
  let ?st1 = "snd (inow I st)"
  have "st_clock ?st1 \<le> st_clock (snd (lookupCachedResponse E I m key ?st1))"
    using passes_clock [OF passes_lookup [of I ?st1 E m key]] .
  then have "st_clock ?st1 + wait_poll m \<le> st_clock (isleep I (wait_poll m) (snd (lookupCachedResponse E I m key ?st1)))"
    by (simp add: isleep_def Let_def)
  moreover have "st_clock st \<le> st_clock ?st1" "st_clock ?st1 < deadline"
    using assms by (simp_all add: inow_def Let_def)
  ultimately show ?thesis using wait_poll_pos [of m] by linarith
qed

termination wait_loop
  by (relation "measure (\<lambda>(E, I, m, key, deadline, st). nat (deadline - st_clock st))") (simp_all add: wait_round)

declare wait_loop.simps [simp del]

definition waitForCachedResponse :: "env \<Rightarrow> idem_env \<Rightarrow> idempotency \<Rightarrow> string \<Rightarrow> stores \<Rightarrow> cached_response result \<times> stores" where
  "waitForCachedResponse E I m key st =
     (case inow I st of (now, st1) \<Rightarrow> wait_loop E I m key (now + wait_timeout m) st1)"

section \<open>The middleware\<close>

definition matchesRequest :: "cached_response option \<Rightarrow> http_request option \<Rightarrow> string \<Rightarrow> bool" where
  "matchesRequest respo ro requestHash \<longleftrightarrow>
     (case (respo, ro) of
        (Some resp, Some r) \<Rightarrow>
          (if cd_RequestMethod resp \<noteq> rq_Method r then False
           else if cd_RequestPath resp \<noteq> rq_Path r then False
           else cd_RequestHash resp = requestHash)
      | _ \<Rightarrow> False)"

definition writeCachedResponse :: "cached_response option \<Rightarrow> wop list" where
  "writeCachedResponse respo =
     (case respo of
        None \<Rightarrow> http_Error ''idempotency response missing'' 500
      | Some resp \<Rightarrow>
          concat (map (\<lambda>(k, vv). map (HAdd k) vv) (cd_ResponseHeaders resp))
          @ [HStatus (if cd_ResponseStatus resp = 0 then 200 else cd_ResponseStatus resp)]
          @ (if cd_ResponseBody resp = [] then [] else [HWrite (cd_ResponseBody resp)]))"

definition writeIdempotencyError :: "env \<Rightarrow> int \<Rightarrow> string \<Rightarrow> wop list" where
  "writeIdempotencyError E status msg =
     [HSet ''Content-Type'' ''application/json; charset=utf-8'', HStatus status,
      HWrite (''{\"error\":{\"code\":\"IDEMPOTENCY_ERROR\",\"message\":'' @ Quote (e_quote E) msg @ ''}}'')]"

definition cloneHeaders :: "header \<Rightarrow> header" where
  "cloneHeaders h = map (\<lambda>(k, vv). (k, vv)) h"

text \<open>The answer from a cached response: the response, or a conflict for another request.\<close>

definition replay :: "env \<Rightarrow> cached_response \<Rightarrow> http_request \<Rightarrow> string \<Rightarrow> wop list" where
  "replay E cached r reqHash =
     (if \<not> matchesRequest (Some cached) (Some r) reqHash
      then writeIdempotencyError E 409 ''idempotency key reused with different request''
      else writeCachedResponse (Some cached))"

text \<open>The panic that a handler ends with, if it does.\<close>

fun panic_of :: "wop list \<Rightarrow> string option" where
  "panic_of [] = None"
| "panic_of (HPanic m # ops) = Some m"
| "panic_of (_ # ops) = panic_of ops"

text \<open>
  Between taking and releasing the lock. A panic of the handler unwinds to the deferred
  release; what it wrote is in the recorder and is lost.
\<close>

definition run_locked :: "env \<Rightarrow> idem_env \<Rightarrow> idempotency \<Rightarrow> 's handler \<Rightarrow> http_request \<Rightarrow> string \<Rightarrow> string \<Rightarrow> lock_handle
    \<Rightarrow> 's \<Rightarrow> stores \<Rightarrow> wop list \<times> lock_handle option \<times> 's \<times> stores" where
  "run_locked E I m next r key reqHash handle s st =
     (case lookupCachedResponse E I m key st of
        (Inr (Some cached), st1) \<Rightarrow> (replay E cached r reqHash, Some handle, s, st1)
      | (_, st1) \<Rightarrow>
          (case next r s of (ops, s') \<Rightarrow>
            (let st2 = istep I st1 in
             case panic_of ops of
               Some msg \<Rightarrow> ([HPanic msg], Some handle, s', st2)
             | None \<Rightarrow>
                 (let rec = run_recorder ops; (created, st3) = inow I st2; (now, st4) = inow I st3;
                      resp = \<lparr>cd_RequestPath = rq_Path r, cd_RequestMethod = rq_Method r, cd_RequestHash = reqHash,
                        cd_ResponseStatus = recorder_statusCode rec, cd_ResponseHeaders = cloneHeaders (rr_header rec),
                        cd_ResponseBody = rr_body rec, cd_CreatedAtUnixNano = created,
                        cd_ExpiresAtUnixNano = now + id_responseTTL m\<rparr>;
                      (_, handle', st5) = storeCachedResponse E I m key (Some resp) (Some handle) st4
                  in (writeCachedResponse (Some resp), handle', s', st5)))))"

definition Middleware :: "env \<Rightarrow> idem_env \<Rightarrow> idempotency option \<Rightarrow> 's handler option \<Rightarrow> ('s \<times> stores) handler" where
  "Middleware E I mo nexto r st0 =
     (case st0 of (s, st) \<Rightarrow>
      (case (mo, nexto) of
         (Some m, Some next) \<Rightarrow>
           (let key = request_key r in
            if \<not> isIdempotentCandidateMethod (rq_Method r) \<or> key = [] then
              (case next r s of (ops, s') \<Rightarrow> (ops, s', st))
            else if 255 < length key then (writeIdempotencyError E 400 ''idempotency key too long'', s, st)
            else
              (case readAndHashBody I r of
                 Inl _ \<Rightarrow> (writeIdempotencyError E 400 ''unable to read request body'', s, st)
               | Inr (reqBody, reqHash) \<Rightarrow>
                   (let r = r\<lparr>rq_Body := Some (Inr reqBody)\<rparr> in
                    case lookupCachedResponse E I m key st of
                      (Inr (Some cached), st1) \<Rightarrow> (replay E cached r reqHash, s, st1)
                    | (_, st1) \<Rightarrow>
                        (case tryAcquireLock I m (buildLockScope (rq_Method r) (rq_Path r) key) key (rq_Path r) (rq_Method r)
                                reqHash st1 of
                           (Inl _, st2) \<Rightarrow>
                             (writeIdempotencyError E 503 ''unable to acquire idempotency lock'', s, st2)
                         | (Inr None, st2) \<Rightarrow>
                             (case waitForCachedResponse E I m key st2 of
                                (Inr cached, st3) \<Rightarrow> (replay E cached r reqHash, s, st3)
                              | (Inl _, st3) \<Rightarrow>
                                  (writeIdempotencyError E 409 ''request with this idempotency key is already in progress'', s, st3))
                         | (Inr (Some handle), st2) \<Rightarrow>
                             (case run_locked E I m next r key reqHash handle s st2 of
                                (ops, handle', s', st3) \<Rightarrow> (ops, s', releaseLock I m handle' st3))))))
       | _ \<Rightarrow> (http_Error ''server misconfiguration'' 500, s, st)))"

end
