(* ===== verification/Idempotency_Outcome.thy ===== *)
theory Idempotency_Outcome
  imports Idempotency
begin

text \<open>
  What the idempotency middleware promises against any behaviour of stores, clocks and other
  processes: how a request ends, what a client gets when the handler ran, that waiting ends, and
  how long a request can take.
\<close>

section \<open>Outcomes under any circumstances\<close>

lemma panic_of_iff: "panics ops \<longleftrightarrow> panic_of ops \<noteq> None"
  by (induction ops rule: panic_of.induct) auto

lemma header_values_update: "header_values (AList.update k vs h) j = (if j = k then vs else header_values h j)"
  by (simp add: header_values_def update_conv)

lemma fold_adds:
  "wr_sent (fold write_op (map (HAdd k) vs) w) = wr_sent w \<and> wr_body (fold write_op (map (HAdd k) vs) w) = wr_body w \<and>
   header_values (wr_header (fold write_op (map (HAdd k) vs) w)) j =
     (if j = k then header_values (wr_header w) j @ vs else header_values (wr_header w) j)"
  by (induction vs arbitrary: w) (simp_all add: header_Add_def header_values_update)

lemma fold_headers_add:
  "wr_sent (fold write_op (concat (map (\<lambda>(k, vv). map (HAdd k) vv) h)) w) = wr_sent w \<and>
   wr_body (fold write_op (concat (map (\<lambda>(k, vv). map (HAdd k) vv) h)) w) = wr_body w \<and>
   (distinct (map fst h) \<longrightarrow>
     header_values (wr_header (fold write_op (concat (map (\<lambda>(k, vv). map (HAdd k) vv) h)) w)) j =
       header_values (wr_header w) j @ header_values h j)"
proof (induction h arbitrary: w)
  case Nil
  then show ?case by (simp add: header_values_def)
next
  case (Cons kv h)
  obtain k vs where kv: "kv = (k, vs)" by fastforce
  let ?w = "fold write_op (map (HAdd k) vs) w"
  have f: "wr_sent ?w = wr_sent w" "wr_body ?w = wr_body w"
    "header_values (wr_header ?w) j = (if j = k then header_values (wr_header w) j @ vs else header_values (wr_header w) j)"
    using fold_adds [of k vs w j] by simp_all
  have "header_values h j = []" if "j = k" "distinct (map fst (kv # h))"
    using that by (force simp: header_values_def kv split: option.splits dest: map_of_SomeD)
  moreover have "header_values (kv # h) j = (if j = k then vs else header_values h j)"
    by (simp add: header_values_def kv)
  ultimately show ?case using Cons.IH [of ?w] f by (simp add: kv)
qed

text \<open>What a client sees of a cached response.\<close>

lemma response_of_cached:
  assumes "distinct (map fst (cd_ResponseHeaders r))"
  shows "rp_status (response_of (writeCachedResponse (Some r))) = (if cd_ResponseStatus r = 0 then 200 else cd_ResponseStatus r)"
    and "rp_body (response_of (writeCachedResponse (Some r))) = cd_ResponseBody r"
    and "header_values (rp_header (response_of (writeCachedResponse (Some r)))) = header_values (cd_ResponseHeaders r)"
proof -
  note h = fold_headers_add [of "cd_ResponseHeaders r" new_writer]
  have new: "wr_sent new_writer = None" "wr_body new_writer = []" "header_values (wr_header new_writer) j = []" for j
    by (simp_all add: new_writer_def header_values_def)
  show "rp_status (response_of (writeCachedResponse (Some r))) = (if cd_ResponseStatus r = 0 then 200 else cd_ResponseStatus r)"
    and "rp_body (response_of (writeCachedResponse (Some r))) = cd_ResponseBody r"
    and "header_values (rp_header (response_of (writeCachedResponse (Some r)))) = header_values (cd_ResponseHeaders r)"
    using h new assms by (auto simp: writeCachedResponse_def response_of_def run_writer_def Let_def fun_eq_iff)
qed

lemma recorded_distinct: "distinct (map fst (rr_header rr)) \<Longrightarrow> distinct (map fst (rr_header (fold record_op ops rr)))"
proof (induction ops arbitrary: rr)
  case (Cons x ops)
  have "distinct (map fst (rr_header (record_op x rr)))"
    using Cons.prems by (cases x) (simp_all add: header_Set_def header_Add_def distinct_update recorder_WriteHeader_def recorder_Write_def Let_def)
  then show ?case using Cons.IH [of "record_op x rr"] Cons.prems by simp
qed simp

lemma recorder_distinct: "distinct (map fst (rr_header (run_recorder ops)))"
  using recorded_distinct [of newResponseRecorder ops] by (simp add: run_recorder_def newResponseRecorder_def)

lemma cloneHeaders_id [simp]: "cloneHeaders h = h"
  by (simp add: cloneHeaders_def map_idI)

text \<open>The record that a run of the handler leaves.\<close>

definition recorded :: "http_request \<Rightarrow> string \<Rightarrow> wop list \<Rightarrow> int \<Rightarrow> int \<Rightarrow> cached_response" where
  "recorded r reqHash ops created expires =
     \<lparr>cd_RequestPath = rq_Path r, cd_RequestMethod = rq_Method r, cd_RequestHash = reqHash,
      cd_ResponseStatus = recorder_statusCode (run_recorder ops), cd_ResponseHeaders = rr_header (run_recorder ops),
      cd_ResponseBody = rr_body (run_recorder ops), cd_CreatedAtUnixNano = created, cd_ExpiresAtUnixNano = expires\<rparr>"

lemma run_locked_cases:
  assumes "run_locked E I m next r key reqHash handle s st = (ops, handle', s', st')"
  obtains (cached) cd where "lookupCachedResponse E I m key st = (Inr (Some cd), st')" "ops = replay E cd r reqHash"
      "handle' = Some handle" "s' = s"
  | (panicked) res st1 nops msg where "lookupCachedResponse E I m key st = (res, st1)" "\<forall>cd. res \<noteq> Inr (Some cd)"
      "next r s = (nops, s')" "panic_of nops = Some msg" "ops = [HPanic msg]" "handle' = Some handle" "st' = istep I st1"
  | (ran) res st1 nops c e err where "lookupCachedResponse E I m key st = (res, st1)" "\<forall>cd. res \<noteq> Inr (Some cd)"
      "next r s = (nops, s')" "panic_of nops = None"
      "c = st_clock (istep I (istep I st1))" "e = st_clock (istep I (istep I (istep I st1))) + id_responseTTL m"
      "ops = writeCachedResponse (Some (recorded r reqHash nops c e))"
      "storeCachedResponse E I m key (Some (recorded r reqHash nops c e)) (Some handle) (istep I (istep I (istep I st1)))
        = (err, handle', st')"
proof (cases "lookupCachedResponse E I m key st")
  case (Pair res st1)
  show thesis
  proof (cases "\<exists>cd. res = Inr (Some cd)")
    case True
    with assms Pair cached show thesis by (auto simp: run_locked_def)
  next
    case False
    obtain nops s1 where n: "next r s = (nops, s1)" by fastforce
    let ?c = "st_clock (istep I (istep I st1))" and ?e = "st_clock (istep I (istep I (istep I st1))) + id_responseTTL m"
    let ?st = "istep I (istep I (istep I st1))"
    obtain err h2 st2 where st: "storeCachedResponse E I m key (Some (recorded r reqHash nops ?c ?e)) (Some handle) ?st = (err, h2, st2)"
      by (metis prod.exhaust)
    have go: "run_locked E I m next r key reqHash handle s st =
      (case panic_of nops of Some msg \<Rightarrow> ([HPanic msg], Some handle, s1, istep I st1)
       | None \<Rightarrow> (writeCachedResponse (Some (recorded r reqHash nops ?c ?e)), h2, s1, st2))"
      using False Pair n st
      by (cases res) (simp_all add: run_locked_def Let_def inow_def recorded_def split: option.splits)
    show thesis
    proof (cases "panic_of nops")
      case None
      with go assms have e: "ops = writeCachedResponse (Some (recorded r reqHash nops ?c ?e))" "handle' = h2" "s' = s1" "st' = st2"
        by simp_all
      show thesis by (rule ran [OF Pair _ _ None refl refl]) (use False n st e in auto)
    next
      case (Some msg)
      with go assms False panicked [OF Pair _ _ Some] n show thesis by auto
    qed
  qed
qed

text \<open>Requests that the middleware takes care of, and the request that the handler gets.\<close>

definition guarded :: "http_request \<Rightarrow> bool" where
  "guarded r \<longleftrightarrow> isIdempotentCandidateMethod (rq_Method r) \<and> request_key r \<noteq> [] \<and> length (request_key r) \<le> 255"

definition with_body :: "http_request \<Rightarrow> string \<Rightarrow> http_request" where
  "with_body r b = r\<lparr>rq_Body := Some (Inr b)\<rparr>"

lemma with_body_fields [simp]: "rq_Method (with_body r b) = rq_Method r" "rq_Path (with_body r b) = rq_Path r"
  by (simp_all add: with_body_def)

definition request_lock :: "idem_env \<Rightarrow> idempotency \<Rightarrow> http_request \<Rightarrow> string \<Rightarrow> stores \<Rightarrow> lock_handle option result \<times> stores" where
  "request_lock I m r reqHash st = tryAcquireLock I m (buildLockScope (rq_Method r) (rq_Path r) (request_key r)) (request_key r)
     (rq_Path r) (rq_Method r) reqHash st"

lemma Middleware_lookup:
  assumes "guarded r" and "readAndHashBody I r = Inr (b, reqHash)" and "lookupCachedResponse E I m (request_key r) st = (res, st1)"
  shows "Middleware E I (Some m) (Some next) r (s, st) =
    (case res of
       Inr (Some cached) \<Rightarrow> (replay E cached (with_body r b) reqHash, s, st1)
     | _ \<Rightarrow>
         (case request_lock I m r reqHash st1 of
            (Inl _, st2) \<Rightarrow> (writeIdempotencyError E 503 ''unable to acquire idempotency lock'', s, st2)
          | (Inr None, st2) \<Rightarrow>
              (case waitForCachedResponse E I m (request_key r) st2 of
                 (Inr cached, st3) \<Rightarrow> (replay E cached (with_body r b) reqHash, s, st3)
               | (Inl _, st3) \<Rightarrow>
                   (writeIdempotencyError E 409 ''request with this idempotency key is already in progress'', s, st3))
          | (Inr (Some handle), st2) \<Rightarrow>
              (case run_locked E I m next (with_body r b) (request_key r) reqHash handle s st2 of
                 (ops, handle', s', st3) \<Rightarrow> (ops, s', releaseLock I m handle' st3))))"
  using assms
  by (simp add: Middleware_def guarded_def with_body_def request_lock_def Let_def split: sum.splits option.splits prod.splits)

lemma Middleware_cases:
  assumes "Middleware E I (Some m) (Some next) r (s, st) = (ops, s', st')" and "guarded r"
    and "readAndHashBody I r = Inr (b, reqHash)"
  obtains (hit) cd where "lookupCachedResponse E I m (request_key r) st = (Inr (Some cd), st')"
      "ops = replay E cd (with_body r b) reqHash" "s' = s"
  | (no_lock) res st1 e where "lookupCachedResponse E I m (request_key r) st = (res, st1)" "\<forall>cd. res \<noteq> Inr (Some cd)"
      "request_lock I m r reqHash st1 = (Inl e, st')"
      "ops = writeIdempotencyError E 503 ''unable to acquire idempotency lock''" "s' = s"
  | (busy) res st1 st2 w where "lookupCachedResponse E I m (request_key r) st = (res, st1)" "\<forall>cd. res \<noteq> Inr (Some cd)"
      "request_lock I m r reqHash st1 = (Inr None, st2)" "waitForCachedResponse E I m (request_key r) st2 = (w, st')"
      "ops = (case w of Inr cd \<Rightarrow> replay E cd (with_body r b) reqHash
        | Inl _ \<Rightarrow> writeIdempotencyError E 409 ''request with this idempotency key is already in progress'')" "s' = s"
  | (locked) res st1 h st2 h' st3 where "lookupCachedResponse E I m (request_key r) st = (res, st1)" "\<forall>cd. res \<noteq> Inr (Some cd)"
      "request_lock I m r reqHash st1 = (Inr (Some h), st2)"
      "run_locked E I m next (with_body r b) (request_key r) reqHash h s st2 = (ops, h', s', st3)"
      "st' = releaseLock I m h' st3"
proof (cases "lookupCachedResponse E I m (request_key r) st")
  case (Pair res st1)
  note go = Middleware_lookup [OF assms(2,3) Pair, of "next" s]
  show thesis
  proof (cases "\<exists>cd. res = Inr (Some cd)")
    case True
    with go assms(1) hit Pair show thesis by auto
  next
    case False
    then have nores: "\<forall>cd. res \<noteq> Inr (Some cd)" by simp
    obtain lr st2 where l: "request_lock I m r reqHash st1 = (lr, st2)" by fastforce
    have go2: "(ops, s', st') =
      (case lr of
         Inl _ \<Rightarrow> (writeIdempotencyError E 503 ''unable to acquire idempotency lock'', s, st2)
       | Inr None \<Rightarrow>
           (case waitForCachedResponse E I m (request_key r) st2 of
              (Inr cached, st3) \<Rightarrow> (replay E cached (with_body r b) reqHash, s, st3)
            | (Inl _, st3) \<Rightarrow>
                (writeIdempotencyError E 409 ''request with this idempotency key is already in progress'', s, st3))
       | Inr (Some handle) \<Rightarrow>
           (case run_locked E I m next (with_body r b) (request_key r) reqHash handle s st2 of
              (ops, handle', s', st3) \<Rightarrow> (ops, s', releaseLock I m handle' st3)))"
      using go assms(1) nores l by (cases res) (auto split: option.splits)
    consider e where "lr = Inl e" | "lr = Inr None" | h where "lr = Inr (Some h)" by (metis option.exhaust sum.exhaust)
    then show thesis
    proof cases
      case 1
      with go2 no_lock [OF Pair nores] l show thesis by auto
    next
      case 2
      obtain w st3 where "waitForCachedResponse E I m (request_key r) st2 = (w, st3)" by fastforce
      with 2 go2 busy [OF Pair nores] l show thesis by (cases w) auto
    next
      case 3
      with go2 locked [OF Pair nores] l show thesis by (auto split: prod.splits)
    qed
  qed
qed

lemma error_response [simp]: "rp_status (response_of (writeIdempotencyError E n msg)) = n"
  by (simp add: writeIdempotencyError_def response_of_def run_writer_def new_writer_def Let_def)

text \<open>The statuses a recorder can hold are those that the handler wrote, or 200.\<close>

lemma recorder_status_nonzero: "recorder_statusCode rec \<noteq> 0"
  by (simp add: recorder_statusCode_def)

lemma recorded_response:
  "rp_status (response_of (writeCachedResponse (Some (recorded r h ops c e)))) = recorder_statusCode (run_recorder ops)"
  "rp_body (response_of (writeCachedResponse (Some (recorded r h ops c e)))) = rr_body (run_recorder ops)"
  "header_values (rp_header (response_of (writeCachedResponse (Some (recorded r h ops c e))))) =
     header_values (rr_header (run_recorder ops))"
  using response_of_cached [of "recorded r h ops c e"] recorder_distinct [of ops] recorder_status_nonzero [of "run_recorder ops"]
  by (simp_all add: recorded_def)

text \<open>
  C8: whatever the stores, the clocks and other processes do, a request with an idempotency key
  ends in one of two ways. Either the handler did not run, and the client gets a response from
  the cache or an error 409 or 503. Or the handler ran exactly once, after this request had
  been granted the lock; then the client gets the status, headers and body that the handler
  wrote, also when storing them failed, or the panic of the handler.
\<close>

theorem middleware_outcome:
  assumes "guarded r" and "readAndHashBody I r = Inr (b, reqHash)"
    and "Middleware E I (Some m) (Some next) r (s, st) = (ops, s', st')"
  shows "(s' = s \<and> ((\<exists>cd. ops = replay E cd (with_body r b) reqHash) \<or> rp_status (response_of ops) \<in> {409, 503})) \<or>
    (\<exists>nops st1 st2 h. request_lock I m r reqHash st1 = (Inr (Some h), st2) \<and> next (with_body r b) s = (nops, s') \<and>
       (if panics nops then \<exists>msg. ops = [HPanic msg]
        else rp_status (response_of ops) = recorder_statusCode (run_recorder nops) \<and>
          rp_body (response_of ops) = rr_body (run_recorder nops) \<and>
          header_values (rp_header (response_of ops)) = header_values (rr_header (run_recorder nops))))"
  using assms(3,1,2)
proof (cases rule: Middleware_cases)
  case (busy res st1 st2 w)
  then show ?thesis by (cases w) auto
next
  case (locked res st1 h st2 h' st3)
  from locked(4) show ?thesis
  proof (cases rule: run_locked_cases)
    case (panicked res' st1' nops msg)
    then show ?thesis
      using locked(3) by (intro disjI2 exI [of _ nops] exI [of _ st1] exI [of _ st2] exI [of _ h])
        (auto simp: panic_of_iff)
  next
    case (ran res' st1' nops c e err)
    then show ?thesis
      using locked(3) by (intro disjI2 exI [of _ nops] exI [of _ st1] exI [of _ st2] exI [of _ h])
        (auto simp: panic_of_iff recorded_response)
  qed auto
qed auto

section \<open>Waiting ends\<close>

text \<open>The number of polls until the deadline.\<close>

definition polls :: "idempotency \<Rightarrow> time \<Rightarrow> stores \<Rightarrow> nat" where
  "polls m deadline st = nat ((deadline - st_clock st + wait_poll m - 1) div wait_poll m)"

lemma polls_round:
  assumes "st_clock st < deadline" and "st_clock st + wait_poll m \<le> st_clock st'"
  shows "Suc (polls m deadline st') \<le> polls m deadline st"
proof -
  let ?p = "wait_poll m" and ?d = "deadline - st_clock st - 1"
  have p: "0 < ?p" by simp
  have x: "(deadline - st_clock st + ?p - 1) div ?p = ?d div ?p + 1"
    using div_add_self2 [of ?p ?d] p by (simp add: algebra_simps del: wait_poll_pos)
  have "(deadline - st_clock st' + ?p - 1) div ?p \<le> ?d div ?p"
    using assms(2) p by (intro zdiv_mono1) simp_all
  moreover have "0 \<le> ?d div ?p" using assms(1) p by (simp add: pos_imp_zdiv_nonneg_iff)
  ultimately show ?thesis unfolding polls_def x by linarith
qed

lemma lookup_passes: "lookupCachedResponse E I m key st = (x, st') \<Longrightarrow> passes I 4 st st'"
  using passes_lookup [of I st E m key] by simp

lemma wait_loop_cases:
  assumes "wait_loop E I m key deadline st = (res, st')"
  obtains (expired) "deadline \<le> st_clock (istep I st)" "res = Inl (Sentinel DeadlineExceeded)" "st' = istep I st"
  | (cancelled) e where "st_clock (istep I st) < deadline" "ie_ctx I (Suc (st_tick st)) = Some e" "res = Inl e" "st' = istep I st"
  | (found) resp where "st_clock (istep I st) < deadline" "lookupCachedResponse E I m key (istep I st) = (Inr (Some resp), st')"
      "res = Inr resp"
  | (stopped) l st1 e where "st_clock (istep I st) < deadline" "lookupCachedResponse E I m key (istep I st) = (l, st1)"
      "ie_timer I (st_tick st1) = Some e" "res = Inl e" "st' = istep I st1"
  | (again) l st1 where "st_clock (istep I st) < deadline" "lookupCachedResponse E I m key (istep I st) = (l, st1)"
      "wait_loop E I m key deadline (isleep I (wait_poll m) st1) = (res, st')"
proof -
  obtain l st1 where l: "lookupCachedResponse E I m key (istep I st) = (l, st1)" by fastforce
  have go: "(res, st') = (if \<not> st_clock (istep I st) < deadline then (Inl (Sentinel DeadlineExceeded), istep I st)
      else (case ie_ctx I (st_tick (istep I st)) of
        Some err \<Rightarrow> (Inl err, istep I st)
      | None \<Rightarrow> (case l of
             Inr (Some resp) \<Rightarrow> (Inr resp, st1)
           | _ \<Rightarrow> (case ie_timer I (st_tick st1) of
                  Some err \<Rightarrow> (Inl err, istep I st1)
                | None \<Rightarrow> wait_loop E I m key deadline (isleep I (wait_poll m) st1)))))"
    unfolding assms [symmetric] by (subst wait_loop.simps) (simp add: inow_def Let_def l split: option.split)
  consider "deadline \<le> st_clock (istep I st)" | e where "st_clock (istep I st) < deadline" "ie_ctx I (st_tick (istep I st)) = Some e"
    | "st_clock (istep I st) < deadline" "ie_ctx I (st_tick (istep I st)) = None" by fastforce
  then show thesis
  proof cases
    case 3
    consider resp where "l = Inr (Some resp)" | e where "\<forall>resp. l \<noteq> Inr (Some resp)" "ie_timer I (st_tick st1) = Some e"
      | "\<forall>resp. l \<noteq> Inr (Some resp)" "ie_timer I (st_tick st1) = None" by fastforce
    then show thesis
      by cases (use 3 go l found stopped again in \<open>auto split: sum.splits option.splits\<close>)
  qed (use go expired cancelled in auto)
qed

lemma wait_loop_ends:
  "wait_loop E I m key deadline st = (res, st') \<Longrightarrow>
   st_tick st' \<le> st_tick st + 6 * Suc (polls m deadline st) \<and> st_clock st \<le> st_clock st' \<and>
   (case res of
      Inr resp \<Rightarrow> \<exists>st1. st_clock st \<le> st_clock st1 \<and> st_clock st1 < deadline \<and>
        fst (lookupCachedResponse E I m key st1) = Inr (Some resp)
    | Inl e \<Rightarrow> (e = Sentinel DeadlineExceeded \<and> deadline \<le> st_clock st') \<or> (\<exists>t. ie_ctx I t = Some e \<or> ie_timer I t = Some e))"
proof (induction "nat (deadline - st_clock st)" arbitrary: st rule: less_induct)
  case less
  note step = passes_step(1) [of I st]
  from less.prems show ?case
  proof (cases rule: wait_loop_cases)
    case (found resp)
    then show ?thesis
      using passes_trans [OF step lookup_passes [OF found(2)], of 5]
      by (auto simp: passes_clock intro!: exI [of _ "istep I st"]) (simp add: passes_def)
  next
    case (stopped l st1 e)
    have "passes I 6 st st'"
      using passes_trans [OF passes_trans [OF step lookup_passes [OF stopped(2)] order_refl] passes_step(1) [of I st1], of 6] stopped(5) by simp
    then show ?thesis using passes_clock [of I 6 st st'] stopped(3,4) by (auto simp: passes_def)
  next
    case (again l st1)
    let ?next = "isleep I (wait_poll m) st1"
    have p: "passes I 5 st st1" using passes_trans [OF step lookup_passes [OF again(2)]] by simp
    have nx: "st_tick ?next \<le> st_tick st + 6" "st_clock st + wait_poll m \<le> st_clock ?next"
      using p passes_clock [OF p] by (simp_all add: isleep_def Let_def passes_def)
    have live: "st_clock st < deadline" using again(1) by simp
    have pr: "Suc (polls m deadline ?next) \<le> polls m deadline st" using polls_round [OF live nx(2)] .
    have le: "st_clock st < st_clock ?next" using nx(2) wait_poll_pos [of m] by linarith
    have "nat (deadline - st_clock ?next) < nat (deadline - st_clock st)" using le live by simp
    note ih = less.hyps [OF this again(3)]
    then have "st_tick st' \<le> st_tick st + 6 * Suc (polls m deadline st)" "st_clock st \<le> st_clock st'"
      using nx(1) pr le by simp_all
    moreover have "st_clock ?next \<le> st_clock v \<Longrightarrow> st_clock st \<le> st_clock v" for v using le by simp
    ultimately show ?thesis using ih by (cases res) auto
  qed auto
qed

text \<open>When no step takes longer than \<open>d\<close>, waiting ends soon after the deadline.\<close>

lemma wait_loop_slow:
  assumes "\<forall>t. ie_lat I t \<le> d"
  shows "wait_loop E I m key deadline st = (res, st') \<Longrightarrow>
    st_clock st' \<le> max (st_clock st) (deadline + wait_poll m + int (5 * d)) + int d"
proof (induction "nat (deadline - st_clock st)" arbitrary: st rule: less_induct)
  case less
  have d: "st_clock (istep I v) \<le> st_clock v + int d" for v using assms by simp
  have l: "st_clock st1 \<le> st_clock v + int (4 * d)" if "lookupCachedResponse E I m key v = (l, st1)" for v l st1
    using passes_slow [OF lookup_passes [OF that] assms] .
  have p: "0 < wait_poll m" by simp
  from less.prems show ?case
  proof (cases rule: wait_loop_cases)
    case (found resp)
    then show ?thesis using l [OF found(2)] p by (simp only: max_def split: if_split) linarith
  next
    case (stopped lr st1 e)
    then show ?thesis using l [OF stopped(2)] d [of st1] p by (simp only: max_def split: if_split) linarith
  next
    case (again lr st1)
    let ?next = "isleep I (wait_poll m) st1"
    have c: "st_clock ?next \<le> deadline + wait_poll m + int (5 * d)"
      using l [OF again(2)] again(1) d [of st1] by (simp add: isleep_def Let_def)
    have "st_clock st < deadline" "st_clock st < st_clock ?next"
      using again(1) passes_clock [OF lookup_passes [OF again(2)]] p by (simp_all add: isleep_def Let_def del: wait_poll_pos)
    then have "nat (deadline - st_clock ?next) < nat (deadline - st_clock st)" by simp
    from less.hyps [OF this again(3)] show ?thesis using c by simp
  qed (use d [of st] in auto)
qed

lemma wait_ends:
  assumes "waitForCachedResponse E I m key st = (res, st')"
  shows "st_tick st' \<le> st_tick st + 6 * (nat ((wait_timeout m + wait_poll m - 1) div wait_poll m) + 1) + 1 \<and>
    (case res of
       Inr resp \<Rightarrow> \<exists>st1. fst (lookupCachedResponse E I m key st1) = Inr (Some resp)
     | Inl e \<Rightarrow> (e = Sentinel DeadlineExceeded \<and> st_clock st + wait_timeout m \<le> st_clock st') \<or>
         (\<exists>t. ie_ctx I t = Some e \<or> ie_timer I t = Some e))"
proof -
  let ?st1 = "istep I st"
  have "wait_loop E I m key (st_clock ?st1 + wait_timeout m) ?st1 = (res, st')"
    using assms by (simp add: waitForCachedResponse_def inow_def Let_def)
  from wait_loop_ends [OF this] show ?thesis
    by (cases res) (auto simp: polls_def algebra_simps)
qed

text \<open>
  C18: a request that waits for another one's response always stops waiting, after at most as
  many steps as fit into the timeout at the polling interval (the sleeps alone fill the
  timeout). It ends with a response that a lookup of the key returned, with the error of a
  context that is done, or with \<open>DeadlineExceeded\<close>, and with the last only when the timeout has
  passed in full.
\<close>

theorem wait_terminates:
  assumes "waitForCachedResponse E I m key st = (res, st')"
  shows "st_tick st' \<le> st_tick st + 6 * (nat ((wait_timeout m + wait_poll m - 1) div wait_poll m) + 1) + 1 \<and>
    (case res of
       Inr resp \<Rightarrow> \<exists>st1. fst (lookupCachedResponse E I m key st1) = Inr (Some resp)
     | Inl e \<Rightarrow> (e = Sentinel DeadlineExceeded \<and> st_clock st + wait_timeout m \<le> st_clock st') \<or>
         (\<exists>t. ie_ctx I t = Some e \<or> ie_timer I t = Some e))"
  using assms by (rule wait_ends)

lemma wait_clock: "waitForCachedResponse E I m key st = (res, st') \<Longrightarrow> st_clock st \<le> st_clock st'"
proof -
  assume "waitForCachedResponse E I m key st = (res, st')"
  then have "wait_loop E I m key (st_clock (istep I st) + wait_timeout m) (istep I st) = (res, st')"
    by (simp add: waitForCachedResponse_def inow_def Let_def)
  from wait_loop_ends [OF this] show ?thesis by simp
qed

section \<open>How long a request takes\<close>

lemma passes_calls:
  "instant cmd \<Longrightarrow> redis_call I cmd st = (x, st1) \<Longrightarrow> passes I (Suc 0) st st1"
  "instant stmt \<Longrightarrow> pg_call I stmt st = (y, st1) \<Longrightarrow> passes I (Suc 0) st st1"
  using passes_call(1) [of cmd I st] passes_call(2) [of stmt I st] by simp_all

lemma passes_writes:
  "writeRedisCache E I m key resp st = (x, st1) \<Longrightarrow> passes I (Suc 0) st st1"
  "writePGCache E I m key resp h st = (x, st1) \<Longrightarrow> passes I 2 st st1"
  "upsertPGCompleted E I m key resp st = (x, st1) \<Longrightarrow> passes I 2 st st1"
proof -
  have e: "passes I (Suc 0) v v1" if "expires_at I m resp v = (t, v1)" for v v1 t
    using that passes_step(1) [of I v] by (auto simp: expires_at_def inow_def Let_def split: if_splits)
  show "writeRedisCache E I m key resp st = (x, st1) \<Longrightarrow> passes I (Suc 0) st st1"
    unfolding writeRedisCache_def Let_def by (rule passes_calls(1)) simp_all
  show "writePGCache E I m key resp h st = (x, st1) \<Longrightarrow> passes I 2 st st1"
    by (auto simp: writePGCache_def split: option.splits prod.splits sum.splits if_splits
        dest!: e passes_calls(2) [OF instant_commands(6)] intro: passes_trans)
  show "upsertPGCompleted E I m key resp st = (x, st1) \<Longrightarrow> passes I 2 st st1"
    by (auto simp: upsertPGCompleted_def split: prod.splits
        dest!: e passes_calls(2) [OF instant_commands(7)] intro: passes_trans)
qed

lemma passes_store: "storeCachedResponse E I m key respo h st = (err, h', st') \<Longrightarrow> passes I 3 st st'"
proof (cases respo)
  case (Some resp)
  assume a: "storeCachedResponse E I m key respo h st = (err, h', st')"
  obtain x st1 where r: "(if id_redis m then
      (case writeRedisCache E I m key resp st of (Inl err, st1) \<Rightarrow> (Some err, st1) | (Inr _, st1) \<Rightarrow> (None, st1)) else (None, st)) = (x, st1)"
    by fastforce
  then have 1: "passes I (Suc 0) st st1"
    by (auto split: if_splits prod.splits sum.splits dest: passes_writes)
  have "passes I 2 st1 st'"
    using a [unfolded Some storeCachedResponse_def, simplified, unfolded r]
    by (auto simp: Let_def split: option.splits prod.splits sum.splits if_splits dest: passes_writes)
  with passes_trans [OF 1 this, of 3] show ?thesis by simp
qed (simp add: storeCachedResponse_def)

lemma passes_release: "passes I (Suc 0) st (releaseLock I m ho st)"
  by (auto simp: releaseLock_def passes_call split: option.splits)

lemma passes_acquire: "tryAcquireLock I m scope k path mth tok st = (x, st') \<Longrightarrow> passes I 4 st st'"
proof -
  have pg: "passes I 3 v v'" if a: "acquire_pg I m k path mth tok v = (x, v')" for v v'
  proof (cases "id_db m")
    case True
    have 2: "passes I 2 v (istep I (istep I v))" by (rule passes_trans [OF passes_step(1) passes_step(1)]) simp
    have "passes I (Suc 0) (istep I (istep I v)) v'"
      using a True by (auto simp: acquire_pg_def inow_def Let_def split: if_splits prod.splits sum.splits
        dest!: passes_calls(2) [OF instant_commands(8)])
    from passes_trans [OF 2 this, of 3] show ?thesis by simp
  qed (use a in \<open>simp add: acquire_pg_def\<close>)
  assume a: "tryAcquireLock I m scope k path mth tok st = (x, st')"
  obtain y st1 where c: "redis_call I (redis_SetNX I (redisLockKey scope) (RText tok)
      (if id_lockTTL m \<le> 0 then defaultLockTTL else id_lockTTL m)) st = (y, st1)" by fastforce
  note 1 = passes_calls(1) [OF instant_commands(3) c]
  show ?thesis
    using a 1 by (auto simp: tryAcquireLock_def Let_def c split: if_splits sum.splits option.splits
        dest!: pg intro: passes_mono passes_trans)
qed

lemma passes_run_locked:
  assumes "run_locked E I m next r key h lk s st = (ops, lk', s', st')"
  shows "passes I 10 st st'"
  using assms
proof (cases rule: run_locked_cases)
  case (cached cd)
  then show ?thesis using passes_mono [OF lookup_passes] by simp
next
  case (panicked res st1 nops msg)
  then show ?thesis using passes_trans [OF lookup_passes [OF panicked(1)] passes_step(1)] by simp
next
  case (ran res st1 nops c e err)
  have "passes I 3 st1 (istep I (istep I (istep I st1)))"
    by (rule passes_trans [OF passes_trans [OF passes_step(1) passes_step(1) order_refl] passes_step(1)]) simp
  from passes_trans [OF passes_trans [OF lookup_passes [OF ran(1)] this order_refl] passes_store [OF ran(8)], of 10]
  show ?thesis by simp
qed

lemmas clock_store = passes_clock [OF passes_store]
lemmas clock_release = passes_clock [OF passes_release]
lemmas clock_acquire = passes_clock [OF passes_acquire]
lemmas clock_lookup = passes_clock [OF lookup_passes]
lemmas clock_run_locked = passes_clock [OF passes_run_locked]

lemma lock_passes: "request_lock I m r h st = (x, st') \<Longrightarrow> passes I 4 st st'"
  unfolding request_lock_def by (rule passes_acquire)

text \<open>A request either waits, after at most eight steps, or takes nineteen steps at most.\<close>

lemma Middleware_time:
  assumes "Middleware E I (Some m) (Some next) r (s, st) = (ops, s', st')"
  obtains (direct) "passes I 19 st st'"
  | (waited) st2 w where "passes I 8 st st2" "waitForCachedResponse E I m (request_key r) st2 = (w, st')"
proof (cases "guarded r \<and> (\<exists>b h. readAndHashBody I r = Inr (b, h))")
  case False
  then have "st' = st" using assms by (auto simp: Middleware_def guarded_def Let_def split: sum.splits prod.splits if_splits)
  then show thesis using direct by simp
next
  case True
  then obtain b h where g: "guarded r" and bh: "readAndHashBody I r = Inr (b, h)" by blast
  from assms g bh show thesis
  proof (cases rule: Middleware_cases)
    case (hit cd)
    show thesis by (rule direct, rule passes_mono [OF lookup_passes [OF hit(1)]]) simp
  next
    case (no_lock res st1 e)
    show thesis by (rule direct, rule passes_trans [OF lookup_passes [OF no_lock(1)] lock_passes [OF no_lock(3)]]) simp
  next
    case (busy res st1 st2 w)
    show thesis
      by (rule waited [OF _ busy(4)], rule passes_trans [OF lookup_passes [OF busy(1)] lock_passes [OF busy(3)]]) simp
  next
    case (locked res st1 lk st2 lk' st3)
    have "passes I 8 st st2" by (rule passes_trans [OF lookup_passes [OF locked(1)] lock_passes [OF locked(3)]]) simp
    moreover have "passes I 11 st2 st'"
      unfolding locked(5) by (rule passes_trans [OF passes_run_locked [OF locked(4)] passes_release]) simp
    ultimately show thesis by (rule direct [OF passes_trans]) simp
  qed
qed

lemma clock_Middleware:
  assumes "Middleware E I (Some m) (Some next) r (s, st) = (ops, s', st')"
  shows "st_clock st \<le> st_clock st'"
  using assms
proof (cases rule: Middleware_time)
  case (waited st2 w)
  then show ?thesis using passes_clock [OF waited(1)] wait_clock [OF waited(2)] by simp
qed (rule passes_clock)

lemma Middleware_bounded:
  assumes "Middleware E I (Some m) (Some next) r (s, st) = (ops, s', st')" and "\<forall>t. ie_lat I t \<le> d"
  shows "st_tick st' \<le> st_tick st + 19 + 6 * nat ((wait_timeout m + wait_poll m - 1) div wait_poll m) \<and>
    st_clock st' \<le> st_clock st + wait_timeout m + wait_poll m + int (19 * d)"
proof -
  have pos: "0 < wait_timeout m" "0 < wait_poll m" by (simp_all add: wait_timeout_def default_defs)
  from assms(1) show ?thesis
  proof (cases rule: Middleware_time)
    case direct
    then show ?thesis using direct passes_slow [OF direct assms(2)] pos by (simp add: passes_def del: wait_poll_pos)
  next
    case (waited st2 w)
    have "wait_loop E I m (request_key r) (st_clock (istep I st2) + wait_timeout m) (istep I st2) = (w, st')"
      using waited(2) by (simp add: waitForCachedResponse_def inow_def Let_def)
    from wait_loop_slow [OF assms(2) this]
    have "st_clock st' \<le> st_clock (istep I st2) + wait_timeout m + wait_poll m + int (6 * d)" using pos by simp
    moreover have "st_clock (istep I st2) \<le> st_clock st + int (9 * d)"
      using passes_slow [OF passes_trans [OF waited(1) passes_step(1) order_refl] assms(2)] by simp
    moreover have "st_tick st2 \<le> st_tick st + 8" using waited(1) by (simp add: passes_def)
    ultimately show ?thesis using wait_ends [OF waited(2)] by simp
  qed
qed

text \<open>
  C20: the middleware answers every request in bounded time, whatever the stores answer and
  other processes do to them. When no call of a store and no run of the handler takes longer
  than \<open>d\<close>, the answer is there after the waiting timeout, one polling interval and
  19 such calls at most, and the number of calls is bounded by the number of polls.
\<close>

theorem request_deadline:
  assumes "Middleware E I (Some m) (Some next) r (s, st) = (ops, s', st')" and "\<forall>t. ie_lat I t \<le> d"
  shows "st_tick st' \<le> st_tick st + 19 + 6 * nat ((wait_timeout m + wait_poll m - 1) div wait_poll m) \<and>
    st_clock st' \<le> st_clock st + wait_timeout m + wait_poll m + int (19 * d)"
  using assms by (rule Middleware_bounded)

section \<open>Concrete requests\<close>

text \<open>Every step takes a microsecond, nothing fails; the handler counts its runs.\<close>

definition quiet :: idem_env where
  "quiet = \<lparr>ie_lat = (\<lambda>_. 1000), ie_rskew = (\<lambda>_. 0), ie_pskew = (\<lambda>_. 0), ie_rfault = (\<lambda>_. None), ie_pfault = (\<lambda>_. None),
     ie_ctx = (\<lambda>_. None), ie_timer = (\<lambda>_. None), ie_others = (\<lambda>_ x. x), ie_sha256 = (\<lambda>b. ''h'' @ filter (\<lambda>c. \<not> digit7 c) b)\<rparr>"

definition fresh_stores :: stores where
  "fresh_stores = \<lparr>st_rows = [], st_redis = (\<lambda>_. None), st_clock = 0, st_tick = 0\<rparr>"

definition counting :: "nat handler" where
  "counting r n = ([HSet ''Content-Type'' ''text/plain'', HStatus 201, HWrite ''ok''], Suc n)"

definition keyed_post :: "string \<Rightarrow> http_request" where
  "keyed_post b = \<lparr>rq_Method = ''POST'', rq_Path = ''/v1/payments'', rq_Header = [(''Idempotency-Key'', [''k1''])],
     rq_Body = Some (Inr b), rq_id = [], rq_route = Some ''/v1/payments'', rq_reqid = ''r''\<rparr>"

definition sample_idempotency :: idempotency where
  "sample_idempotency = the (NewIdempotency True True)"

lemma keyed_ok:
  "utf8 steady (rq_Path (keyed_post b)) = rq_Path (keyed_post b) \<and> utf8 steady (rq_Method (keyed_post b)) = rq_Method (keyed_post b)"
  "guarded (keyed_post b)" "readAndHashBody quiet (keyed_post b) = Inr (b, ie_sha256 quiet b)"
  "request_key (keyed_post b) = ''k1''"
proof -
  have k: "request_key (keyed_post b) = TrimSpace ''k1''"
    by (simp add: request_key_def keyed_post_def header_Get_def header_values_def Let_def TrimSpace_fixed asciiSpace_def)
  have t: "TrimSpace ''k1'' = ''k1''" by (simp add: TrimSpace_fixed asciiSpace_def)
  show "request_key (keyed_post b) = ''k1''" using k t by simp
  then show "guarded (keyed_post b)" by (simp add: guarded_def isIdempotentCandidateMethod_def) (simp add: keyed_post_def)
  show "utf8 steady (rq_Path (keyed_post b)) = rq_Path (keyed_post b) \<and> utf8 steady (rq_Method (keyed_post b)) = rq_Method (keyed_post b)"
    "readAndHashBody quiet (keyed_post b) = Inr (b, ie_sha256 quiet b)"
    by (simp_all add: keyed_post_def utf8_def readAndHashBody_def)
qed

theorem middleware_outcome_witness:
  "\<exists>ops s' st'. Middleware steady quiet (Some sample_idempotency) (Some counting) (keyed_post ''x'') (0, fresh_stores) = (ops, s', st') \<and>
    ((s' = 0 \<and> ((\<exists>cd. ops = replay steady cd (with_body (keyed_post ''x'') ''x'') (ie_sha256 quiet ''x'')) \<or> rp_status (response_of ops) \<in> {409, 503})) \<or>
     (s' = 1 \<and> rp_status (response_of ops) = 201 \<and> rp_body (response_of ops) = ''ok''))"
proof -
  obtain ops1 s1 st1 where c: "Middleware steady quiet (Some sample_idempotency) (Some counting) (keyed_post ''x'') (0, fresh_stores) = (ops1, s1, st1)"
    by (metis prod.exhaust)
  have w: "recorder_statusCode (run_recorder (fst (counting r n))) = 201" "rr_body (run_recorder (fst (counting r n))) = ''ok''"
    "\<not> panics (fst (counting r n))" "snd (counting r n) = Suc n" for r n
    by (simp_all add: counting_def run_recorder_def newResponseRecorder_def recorder_WriteHeader_def recorder_Write_def
        recorder_statusCode_def Let_def)
  from middleware_outcome [OF keyed_ok(2,3) c] w [of "with_body (keyed_post ''x'') ''x''" 0] c show ?thesis
    by (intro exI [of _ ops1] exI [of _ s1] exI [of _ st1]) auto
qed

theorem wait_terminates_witness:
  "st_tick (snd (waitForCachedResponse steady quiet sample_idempotency ''k1'' fresh_stores)) \<le> 331"
proof -
  obtain res st' where c: "waitForCachedResponse steady quiet sample_idempotency ''k1'' fresh_stores = (res, st')" by fastforce
  from wait_terminates [OF c] have "st_tick st' \<le> 331"
    by (simp add: fresh_stores_def wait_timeout_def wait_poll_def sample_idempotency_def NewIdempotency_def default_defs)
  then show ?thesis by (simp add: c)
qed

lemma sample_wait: "wait_timeout sample_idempotency = 8 * Second" "wait_poll sample_idempotency = 150 * Millisecond"
  by (simp_all add: wait_timeout_def wait_poll_def sample_idempotency_def NewIdempotency_def default_defs)

lemma quiet_lat: "\<forall>t. ie_lat quiet t \<le> 1000"
  by (simp add: quiet_def)

theorem request_deadline_witness:
  "\<exists>ops s' st'. Middleware steady quiet (Some sample_idempotency) (Some counting) (keyed_post ''x'') (0, fresh_stores) = (ops, s', st') \<and>
     st_tick st' \<le> 343 \<and> st_clock st' \<le> 8 * Second + 150 * Millisecond + 19000"
proof -
  obtain ops s' st' where c: "Middleware steady quiet (Some sample_idempotency) (Some counting) (keyed_post ''x'') (0, fresh_stores) = (ops, s', st')"
    by (metis prod.exhaust)
  from request_deadline [OF c quiet_lat] c show ?thesis
    by (auto simp: fresh_stores_def sample_wait duration_defs)
qed

end
