(* ===== verification/Idempotency_Spec.thy ===== *)
theory Idempotency_Spec
  imports Idempotency_Outcome
begin

text \<open>
  The idempotency middleware as a cache: the abstract cache \<open>serve_once\<close>, which runs a handler
  once per key, and the proof that the middleware refines it as long as the stores answer and
  no recorded response has expired.
\<close>

section \<open>The abstract cache\<close>

text \<open>
  One entry per key: the request it belongs to and its response. The handler runs for a
  key without an entry, and what it wrote becomes the entry unless it panicked.
\<close>

record entry =
  en_method :: string
  en_path :: string
  en_hash :: string
  en_status :: int
  en_headers :: header
  en_body :: string

type_synonym cache = "string \<Rightarrow> entry option"

definition entry_of :: "cached_response \<Rightarrow> entry" where
  "entry_of r = \<lparr>en_method = cd_RequestMethod r, en_path = cd_RequestPath r, en_hash = cd_RequestHash r,
     en_status = cd_ResponseStatus r, en_headers = cd_ResponseHeaders r, en_body = cd_ResponseBody r\<rparr>"

definition answer :: "env \<Rightarrow> entry \<Rightarrow> http_request \<Rightarrow> string \<Rightarrow> wop list" where
  "answer E e r reqHash =
     (if en_method e = rq_Method r \<and> en_path e = rq_Path r \<and> en_hash e = reqHash then
        concat (map (\<lambda>(k, vv). map (HAdd k) vv) (en_headers e)) @ [HStatus (if en_status e = 0 then 200 else en_status e)]
        @ (if en_body e = [] then [] else [HWrite (en_body e)])
      else writeIdempotencyError E 409 ''idempotency key reused with different request'')"

definition serve_once :: "env \<Rightarrow> idem_env \<Rightarrow> 's handler \<Rightarrow> ('s \<times> cache) handler" where
  "serve_once E I next r st0 =
     (case st0 of (s, A) \<Rightarrow>
       (let key = request_key r in
        if \<not> isIdempotentCandidateMethod (rq_Method r) \<or> key = [] then (case next r s of (ops, s') \<Rightarrow> (ops, s', A))
        else if 255 < length key then (writeIdempotencyError E 400 ''idempotency key too long'', s, A)
        else (case readAndHashBody I r of
          Inl _ \<Rightarrow> (writeIdempotencyError E 400 ''unable to read request body'', s, A)
        | Inr (b, reqHash) \<Rightarrow>
            (case A key of
               Some e \<Rightarrow> (answer E e r reqHash, s, A)
             | None \<Rightarrow>
                 (case next (with_body r b) s of (ops, s') \<Rightarrow>
                   (case panic_of ops of
                      Some msg \<Rightarrow> ([HPanic msg], s', A)
                    | None \<Rightarrow>
                        (let e = \<lparr>en_method = rq_Method r, en_path = rq_Path r, en_hash = reqHash,
                               en_status = recorder_statusCode (run_recorder ops), en_headers = rr_header (run_recorder ops),
                               en_body = rr_body (run_recorder ops)\<rparr>
                         in (answer E e r reqHash, s', A(key \<mapsto> e)))))))))"

lemma replay_answer: "replay E cd (with_body r b) h = answer E (entry_of cd) r h"
  by (simp add: replay_def answer_def entry_of_def matchesRequest_def writeCachedResponse_def)

section \<open>Undisturbed stores\<close>

text \<open>Every call succeeds, the clocks agree, and nobody else uses the stores.\<close>

definition undisturbed :: "idem_env \<Rightarrow> bool" where
  "undisturbed I \<longleftrightarrow> (\<forall>t. ie_rfault I t = None \<and> ie_pfault I t = None \<and> ie_rskew I t = 0 \<and> ie_pskew I t = 0 \<and>
     ie_others I t = (\<lambda>x. x))"

lemma undisturbed_call:
  assumes "undisturbed I"
  shows "redis_call I cmd st = (case cmd (istep I st) of (x, st') \<Rightarrow> (Inr x, st'))" "pg_call I stmt st = stmt (istep I st)"
    "st_rows (istep I st) = st_rows st" "st_redis (istep I st) = st_redis st"
    "redis_clock I st = st_clock st" "pg_now I st = pg_ts (st_clock st)" "ie_others I t x = x"
  using assms by (simp_all add: undisturbed_def redis_call_def pg_call_def redis_clock_def pg_now_def Let_def)

lemma redis_keys [simp]:
  "redisResponseKey a = redisResponseKey b \<longleftrightarrow> a = b" "redisLockKey a = redisLockKey b \<longleftrightarrow> a = b"
  "redisResponseKey a \<noteq> redisLockKey b" "redisLockKey b \<noteq> redisResponseKey a"
  by (simp_all add: redisResponseKey_def redisLockKey_def)

text \<open>
  How an entry is stored. \<open>L\<close> is a time before which no record may expire; \<open>row_entry\<close> is the
  row of a completed request.
\<close>

definition row_entry :: "env \<Rightarrow> time \<Rightarrow> entry \<Rightarrow> idem_row \<Rightarrow> bool" where
  "row_entry E L e row \<longleftrightarrow> ik_status row = ''completed'' \<and> ik_request_method row = en_method e \<and>
     ik_request_path row = en_path e \<and> ik_request_hash row = en_hash e \<and> ik_response_status_code row = Some (en_status e) \<and>
     ik_response_headers row = Some (headers_json E (en_headers e)) \<and> plain_header E (en_headers e) \<and>
     ik_response_body row = Some (en_body e) \<and> pg_ts L \<le> ik_expires_at row"

definition key_rows :: "stores \<Rightarrow> string \<Rightarrow> idem_row set" where
  "key_rows st k = {row \<in> set (st_rows st). ik_key row = k}"

definition stored :: "env \<Rightarrow> idempotency \<Rightarrow> time \<Rightarrow> stores \<Rightarrow> string \<Rightarrow> entry option \<Rightarrow> bool" where
  "stored E m L st k eo \<longleftrightarrow>
     (case eo of
        None \<Rightarrow> (id_redis m \<longrightarrow> st_redis st (redisResponseKey k) = None) \<and>
          (id_db m \<longrightarrow> (\<forall>row \<in> key_rows st k. ik_status row \<noteq> ''completed''))
      | Some e \<Rightarrow>
          (id_redis m \<longrightarrow> (\<exists>cd ex. st_redis st (redisResponseKey k) = Some (RJson (Marshal E cd), ex) \<and> plain_response E cd \<and>
             entry_of cd = e \<and> L \<le> cd_ExpiresAtUnixNano cd \<and> L \<le> ex)) \<and>
          (\<not> id_redis m \<longrightarrow> id_db m \<and> key_rows st k \<noteq> {} \<and> (\<forall>row \<in> key_rows st k. row_entry E L e row)))"

definition cached_as :: "env \<Rightarrow> idempotency \<Rightarrow> time \<Rightarrow> stores \<Rightarrow> cache \<Rightarrow> bool" where
  "cached_as E m L st A \<longleftrightarrow> (\<forall>k. stored E m L st k (A k))"

text \<open>No request is in progress.\<close>

definition unlocked :: "idempotency \<Rightarrow> stores \<Rightarrow> bool" where
  "unlocked m st \<longleftrightarrow>
     (if id_redis m then \<forall>scope v ex. st_redis st (redisLockKey scope) = Some (v, ex) \<longrightarrow> ex \<le> st_clock st
      else \<forall>row \<in> set (st_rows st). ik_status row = ''completed'')"

definition same_data :: "stores \<Rightarrow> stores \<Rightarrow> bool" where
  "same_data st st' \<longleftrightarrow> st_rows st' = st_rows st \<and> st_redis st' = st_redis st \<and> st_clock st \<le> st_clock st'"

lemma same_data_trans: "same_data a b \<Longrightarrow> same_data b c \<Longrightarrow> same_data a c"
  by (simp add: same_data_def)

lemma same_data_step: "undisturbed I \<Longrightarrow> same_data st (istep I st)"
  by (simp add: same_data_def undisturbed_call)

lemma stored_same: "same_data st st' \<Longrightarrow> stored E m L st' k eo = stored E m L st k eo"
  by (simp add: same_data_def stored_def key_rows_def split: option.splits)

lemma cached_as_same: "same_data st st' \<Longrightarrow> cached_as E m L st' A = cached_as E m L st A"
  by (simp add: cached_as_def stored_same)

lemma unlocked_same: "same_data st st' \<Longrightarrow> unlocked m st \<Longrightarrow> unlocked m st'"
  by (force simp: same_data_def unlocked_def split: if_splits)

section \<open>The operations on undisturbed stores\<close>

lemma pg_ts_later: "t + 1000 \<le> L \<Longrightarrow> pg_ts t < pg_ts L"
proof -
  assume "t + 1000 \<le> L"
  then have "pg_ts (t + 1000) \<le> pg_ts L" by (rule pg_ts_mono)
  moreover have "pg_ts (t + 1000) = pg_ts t + 1000" by (simp add: pg_ts_def div_add_self2)
  ultimately show ?thesis by simp
qed

lemma lookup_redis_hit:
  assumes "undisturbed I" and "st_redis st (redisResponseKey k) = Some (RJson (Marshal E cd), ex)" and "plain_response E cd"
    and "L \<le> cd_ExpiresAtUnixNano cd" and "L \<le> ex" and "lookup_redis E I k st = (ro, st1)" and "st_clock st1 < L"
  shows "same_data st st1 \<and> ro = Some cd"
proof -
  let ?s1 = "istep I st" and ?s2 = "istep I (istep I st)"
  have c: "st_clock st \<le> st_clock ?s1" "st_clock ?s1 \<le> st_clock ?s2" by simp_all
  have s1: "st1 = ?s1 \<or> st1 = ?s2"
    using assms(6)
    by (auto simp: lookup_redis_def undisturbed_call(1) [OF assms(1)] redis_Get_def inow_def Let_def
        split: option.splits redis_val.splits if_splits)
  then have "st_clock ?s1 < ex" using assms(5,7) c by auto
  then have "redis_live I ?s1 (redisResponseKey k) = Some (RJson (Marshal E cd))"
    using assms(1,2) by (simp add: redis_live_def undisturbed_call)
  then have "lookup_redis E I k st = (if cd_ExpiresAtUnixNano cd = 0 then (Some cd, ?s1)
      else (if st_clock ?s2 < cd_ExpiresAtUnixNano cd then Some cd else None, ?s2))"
    using response_roundtrip [OF assms(3)]
    by (simp add: lookup_redis_def undisturbed_call(1) [OF assms(1)] redis_Get_def inow_def Let_def del: istep_fields)
  with assms(4,6,7) have "ro = Some cd" "st1 = ?s1 \<or> st1 = ?s2" by (auto split: if_splits)
  moreover have "same_data st ?s1" "same_data ?s1 ?s2" using assms(1) by (simp_all add: same_data_step del: istep_fields)
  ultimately show ?thesis using same_data_trans by blast
qed

lemma lookup_redis_miss:
  assumes "undisturbed I" and "st_redis st (redisResponseKey k) = None"
  shows "lookup_redis E I k st = (None, istep I st)"
  using assms by (simp add: lookup_redis_def undisturbed_call redis_Get_def redis_live_def)

lemma select_completed_miss:
  assumes "\<forall>row \<in> key_rows st k. ik_status row \<noteq> ''completed''"
  shows "select_completed I k st = (Inl (Sentinel ErrNoRows), st)"
proof -
  have "find (\<lambda>row. ik_key row = k \<and> ik_status row = ''completed'' \<and> pg_now I st < ik_expires_at row) (st_rows st) = None"
    using assms by (auto simp: find_None_iff key_rows_def)
  then show ?thesis by (simp add: select_completed_def)
qed

lemma select_completed_hit:
  assumes "key_rows st k \<noteq> {}" and "\<forall>row \<in> key_rows st k. row_entry E L e row" and "pg_now I st < pg_ts L"
  shows "\<exists>cd. select_completed I k st = (Inr cd, st) \<and> entry_of cd = e"
proof -
  let ?P = "\<lambda>row. ik_key row = k \<and> ik_status row = ''completed'' \<and> pg_now I st < ik_expires_at row"
  obtain row where "row \<in> key_rows st k" using assms(1) by blast
  moreover from this have "?P row" using assms(2,3) by (auto simp: key_rows_def row_entry_def)
  ultimately have "find ?P (st_rows st) \<noteq> None" by (auto simp: find_None_iff key_rows_def)
  then obtain row' where f: "find ?P (st_rows st) = Some row'" by blast
  then have "row' \<in> key_rows st k" by (auto simp: find_Some_iff key_rows_def)
  then have "row_entry E L e row'" using assms(2) by blast
  then show ?thesis
    by (simp add: select_completed_def f row_entry_def entry_of_def)
qed

lemma lookup_cached_none:
  assumes "undisturbed I" and "stored E m L st k None" and "lookupCachedResponse E I m k st = (res, st1)"
  shows "same_data st st1 \<and> res = Inr None"
proof -
  have d: "same_data st (istep I st)" "same_data (istep I st) (istep I (istep I st))" "same_data st (istep I (istep I st))"
    using same_data_step [OF assms(1)] same_data_trans by blast+
  have miss: "id_redis m \<Longrightarrow> lookup_redis E I k st = (None, istep I st)"
    using assms(2) lookup_redis_miss [OF assms(1)] by (simp add: stored_def)
  have sel: "id_db m \<Longrightarrow> pg_call I (select_completed I k) st2 = (Inl (Sentinel ErrNoRows), istep I st2)" if "same_data st st2" for st2
    using assms(2) that select_completed_miss [of "istep I st2" k I]
    by (simp add: stored_def undisturbed_call [OF assms(1)] key_rows_def same_data_def)
  show ?thesis
    using assms(3) miss sel [OF d(1)] sel [of st] d
    by (auto simp: lookupCachedResponse_def same_data_def split: if_splits)
qed

lemma lookup_cached_redis:
  assumes "undisturbed I" and "stored E m L st k (Some e)" and "lookupCachedResponse E I m k st = (res, st1)"
    and "st_clock st1 + 1000 \<le> L" and "id_redis m"
  shows "same_data st st1 \<and> (\<exists>cd. res = Inr (Some cd) \<and> entry_of cd = e)"
proof -
  from assms(2,5) obtain cd ex where cd: "st_redis st (redisResponseKey k) = Some (RJson (Marshal E cd), ex)" "plain_response E cd"
    "entry_of cd = e" "L \<le> cd_ExpiresAtUnixNano cd" "L \<le> ex" by (auto simp: stored_def)
  obtain ro st2 where r: "lookup_redis E I k st = (ro, st2)" by fastforce
  have mono: "st_clock st2 \<le> st_clock st1"
  proof (cases ro)
    case None
    obtain q st3 where q: "pg_call I (select_completed I k) st2 = (q, st3)" by fastforce
    have "st_clock st2 \<le> st_clock st3" using passes_clock [OF passes_call(2) [of "select_completed I k" I st2]] q by simp
    moreover have "st_clock st3 \<le> st_clock (snd (writeRedisCache E I m k resp st3))" for resp
      using passes_clock [OF passes_writeRedisCache] .
    ultimately show ?thesis
      using assms(3,5) r None q by (auto simp: lookupCachedResponse_def split: if_splits sum.splits intro: order_trans)
  qed (use assms(3,5) r in \<open>simp add: lookupCachedResponse_def\<close>)
  with lookup_redis_hit [OF assms(1) cd(1,2,4,5) r] assms(4) have "same_data st st2" "ro = Some cd" by auto
  with assms(3,5) r cd(3) show ?thesis by (auto simp: lookupCachedResponse_def)
qed

lemma lookup_cached_row:
  assumes "undisturbed I" and "stored E m L st k (Some e)" and "lookupCachedResponse E I m k st = (res, st1)"
    and "st_clock st1 + 1000 \<le> L" and "\<not> id_redis m"
  shows "same_data st st1 \<and> (\<exists>cd. res = Inr (Some cd) \<and> entry_of cd = e)"
proof -
  from assms(2,5) have db: "id_db m" "key_rows st k \<noteq> {}" "\<forall>row \<in> key_rows st k. row_entry E L e row"
    by (simp_all add: stored_def)
  have st1: "st1 = istep I st"
    using assms(3,5) db(1)
    by (auto simp: lookupCachedResponse_def undisturbed_call [OF assms(1)] select_completed_def split: option.splits if_splits)
  have "pg_now I (istep I st) < pg_ts L" using assms(1,4) st1 pg_ts_later by (simp add: undisturbed_call(6))
  then obtain cd where "select_completed I k (istep I st) = (Inr cd, istep I st)" "entry_of cd = e"
    using select_completed_hit [of "istep I st" k E L e I] db(2,3) assms(1) by (auto simp: key_rows_def undisturbed_call)
  with assms(3,5) db(1) st1 same_data_step [OF assms(1)] show ?thesis
    by (auto simp: lookupCachedResponse_def undisturbed_call(2) [OF assms(1)])
qed

lemma lookup_cached:
  assumes "undisturbed I" and "stored E m L st k eo" and "lookupCachedResponse E I m k st = (res, st1)"
    and "st_clock st1 + 1000 \<le> L"
  shows "same_data st st1 \<and> (case eo of None \<Rightarrow> res = Inr None | Some e \<Rightarrow> \<exists>cd. res = Inr (Some cd) \<and> entry_of cd = e)"
proof (cases eo)
  case None
  with lookup_cached_none [OF assms(1) _ assms(3)] assms(2) show ?thesis by simp
next
  case (Some e)
  with lookup_cached_redis [OF assms(1) _ assms(3,4)] lookup_cached_row [OF assms(1) _ assms(3,4)] assms(2) show ?thesis
    by (cases "id_redis m") simp_all
qed

text \<open>Taking a free lock, with Redis or with a lease in the table.\<close>

lemma acquire_redis:
  assumes "undisturbed I" and "id_redis m" and "unlocked m st"
  obtains ex where "tryAcquireLock I m scope k path mth tok st =
    (Inr (Some \<lparr>lk_kind = ''redis'', lk_key = scope, lk_token = tok, lk_completed = False\<rparr>),
     (istep I st)\<lparr>st_redis := (st_redis st)(redisLockKey scope \<mapsto> (RText tok, ex))\<rparr>)"
proof -
  have "redis_live I (istep I st) (redisLockKey scope) = None"
    using assms unlocked_same [OF same_data_step [OF assms(1)] assms(3)]
    by (auto simp: redis_live_def unlocked_def undisturbed_call split: option.splits) force
  then show thesis
    using assms(1,2)
    by (intro that) (simp add: tryAcquireLock_def undisturbed_call redis_SetNX_def redis_put_def Let_def del: istep_fields(2))
qed

lemma acquire_lease:
  assumes "undisturbed I" and "\<not> id_redis m" "id_db m" and "key_rows st k = {}" and "tok \<noteq> []"
  obtains row st0 where "tryAcquireLock I m scope k path mth tok st =
    (Inr (Some \<lparr>lk_kind = ''pg'', lk_key = k, lk_token = tok, lk_completed = False\<rparr>), st0\<lparr>st_rows := st_rows st @ [row]\<rparr>)"
    "same_data st st0" "ik_key row = k" "ik_status row = ''in_progress''" "ik_lock_token row = Some tok"
    "ik_request_path row = path" "ik_request_method row = mth" "ik_request_hash row = tok"
proof -
  let ?st0 = "istep I (istep I (istep I st))"
  have d: "same_data st ?st0" using same_data_step [OF assms(1)] same_data_trans by blast
  have rows: "st_rows ?st0 = st_rows st" using d by (simp add: same_data_def del: istep_fields)
  have f: "find (\<lambda>row. ik_key row = k) (st_rows st) = None" using assms(4) by (auto simp: find_None_iff key_rows_def)
  show thesis
    using assms(2,3,5) d
    by (intro that [OF _ d])
      (simp add: tryAcquireLock_def acquire_pg_def inow_def Let_def undisturbed_call(2) [OF assms(1)] acquire_stmt_def rows f
         del: istep_fields, simp_all)
qed

text \<open>Storing a response.\<close>

lemma same_data_expires_at: "undisturbed I \<Longrightarrow> expires_at I m resp st = (t, st1) \<Longrightarrow> same_data st st1"
  by (auto simp: expires_at_def inow_def Let_def same_data_step simp del: istep_fields split: if_splits)
    (simp add: same_data_def)

lemma upsert_effect:
  assumes "undisturbed I" and "upsertPGCompleted E I m k resp st = (res, st')"
  shows "st_redis st' = st_redis st" and "k' \<noteq> k \<Longrightarrow> key_rows st' k' = key_rows st k'"
proof -
  obtain t st1 where e: "expires_at I m resp st = (t, st1)" by fastforce
  note d = same_data_expires_at [OF assms(1) e]
  have st': "(res, st') = upsert_stmt E I k resp t (istep I st1)"
    using assms e by (simp add: upsertPGCompleted_def undisturbed_call)
  have rows: "st_rows (istep I st1) = st_rows st" "st_redis (istep I st1) = st_redis st"
    using d undisturbed_call(3,4) [OF assms(1), of st1] by (simp_all add: same_data_def del: istep_fields)
  show "st_redis st' = st_redis st" using st' rows by (auto simp: upsert_stmt_def Let_def)
  show "key_rows st' k' = key_rows st k'" if "k' \<noteq> k"
    using st' rows that by (auto simp: upsert_stmt_def key_rows_def set_sql_update Let_def split: if_splits)
qed

lemma store_redis:
  assumes "undisturbed I" and "id_redis m" and "0 < id_responseTTL m" and "plain_response E cd"
    and "L \<le> cd_ExpiresAtUnixNano cd" and "L \<le> st_clock st + id_responseTTL m" and "lk_kind h \<noteq> ''pg''"
    and "storeCachedResponse E I m k (Some cd) (Some h) st = (err, h', st')" and "cached_as E m L st A"
  shows "h' = Some h" and "cached_as E m L st' (A(k \<mapsto> entry_of cd))"
    and "st_redis st' (redisLockKey scope) = st_redis st (redisLockKey scope)"
proof -
  let ?st1 = "redis_put I (redisResponseKey k) (RJson (Marshal E cd)) (id_responseTTL m) (istep I st)"
  have w: "writeRedisCache E I m k cd st = (Inr (), ?st1)"
    using assms(3) by (simp add: writeRedisCache_def undisturbed_call(1) [OF assms(1)] redis_Set_def)
  have st1: "st_redis ?st1 = (st_redis st)(redisResponseKey k \<mapsto> (RJson (Marshal E cd), st_clock (istep I st) + id_responseTTL m))"
    "key_rows ?st1 k' = key_rows st k'" for k'
    using assms(1) by (simp_all add: redis_put_def undisturbed_call key_rows_def)
  obtain r u where up: "upsertPGCompleted E I m k cd ?st1 = (r, u)" by fastforce
  have st': "h' = Some h" "st' = (if id_db m then u else ?st1)"
    using assms(2,7,8) w up by (cases "id_db m"; simp add: storeCachedResponse_def Let_def)+
  have red: "st_redis st' = st_redis ?st1" and rows: "k' \<noteq> k \<Longrightarrow> key_rows st' k' = key_rows st k'" for k'
    using upsert_effect [OF assms(1) up] st'(2) st1(2) by auto
  show "h' = Some h" by (rule st'(1))
  show "st_redis st' (redisLockKey scope) = st_redis st (redisLockKey scope)" by (simp add: red st1(1))
  have "stored E m L st' k (Some (entry_of cd))"
    using assms(2,4,5,6) by (simp add: stored_def red st1(1)) (intro exI [of _ cd] conjI; simp)
  moreover have "stored E m L st' k' (A k')" if "k' \<noteq> k" for k'
  proof -
    have "stored E m L st k' (A k')" using assms(9) by (simp add: cached_as_def)
    then show ?thesis using assms(2) that rows [OF that] by (simp add: stored_def red st1(1) split: option.splits)
  qed
  ultimately show "cached_as E m L st' (A(k \<mapsto> entry_of cd))" by (simp add: cached_as_def)
qed

lemma store_lease:
  assumes "undisturbed I" and "\<not> id_redis m" "id_db m" and "plain_header E (cd_ResponseHeaders cd)"
    and "L \<le> cd_ExpiresAtUnixNano cd" and "0 \<le> cd_ExpiresAtUnixNano cd" and "lk_kind h = ''pg''"
    and "storeCachedResponse E I m k (Some cd) (Some h) st = (err, h', st')"
    and "st_rows st = rows @ [row]" and "\<forall>x \<in> set rows. ik_key x \<noteq> k \<and> ik_status x = ''completed''"
    and "ik_key row = k" "ik_status row = ''in_progress''" "ik_lock_token row = Some (lk_token h)"
    "ik_request_path row = cd_RequestPath cd" "ik_request_method row = cd_RequestMethod cd" "ik_request_hash row = cd_RequestHash cd"
  shows "h' = Some (h\<lparr>lk_completed := True\<rparr>)" and "\<exists>row'. st_rows st' = rows @ [row'] \<and> ik_key row' = k \<and> row_entry E L (entry_of cd) row'"
    and "st_redis st' = st_redis st"
proof -
  have nz: "\<not> IsZero (cd_ExpiresAtUnixNano cd)" using assms(6) by (simp add: IsZero_def zero_time_def)
  let ?P = "\<lambda>row. ik_key row = k \<and> ik_status row = ''in_progress'' \<and> ik_lock_token row = Some (lk_token h)"
  let ?f = "\<lambda>row. row\<lparr>ik_status := ''completed'', ik_response_status_code := Some (cd_ResponseStatus cd),
            ik_response_headers := Some (headers_json E (cd_ResponseHeaders cd)),
            ik_response_body := Some (cd_ResponseBody cd), ik_expires_at := pg_ts (cd_ExpiresAtUnixNano cd),
            ik_lock_token := None, ik_lock_expires_at := None\<rparr>"
  have rows: "st_rows (istep I st) = rows @ [row]" using assms(1,9) by (simp add: undisturbed_call)
  have upd: "sql_update ?P ?f (rows @ [row]) = rows @ [?f row]" "sql_count ?P (rows @ [row]) \<noteq> 0"
    using assms(10,11,12,13) by (auto simp: sql_update_def sql_count_def intro!: map_idI)
  have w: "writePGCache E I m k cd (Some h) st = (Inr (), (istep I st)\<lparr>st_rows := rows @ [?f row]\<rparr>)"
    using upd nz
    by (simp add: writePGCache_def expires_at_def Let_def undisturbed_call(2) [OF assms(1)] complete_stmt_def rows del: istep_fields)
  have st': "h' = Some (h\<lparr>lk_completed := True\<rparr>)" "st' = (istep I st)\<lparr>st_rows := rows @ [?f row]\<rparr>"
    using assms(2,3,7,8) w by (simp_all add: storeCachedResponse_def Let_def del: istep_fields)
  show "h' = Some (h\<lparr>lk_completed := True\<rparr>)" by (rule st'(1))
  show "\<exists>row'. st_rows st' = rows @ [row'] \<and> ik_key row' = k \<and> row_entry E L (entry_of cd) row'"
    using assms(4,5,11,14,15,16) st'(2) pg_ts_mono [OF assms(5)]
    by (intro exI [of _ "?f row"]) (simp add: row_entry_def entry_of_def)
  show "st_redis st' = st_redis st" using st'(2) assms(1) by (simp add: undisturbed_call)
qed

text \<open>Releasing the lock.\<close>

lemma release_redis:
  assumes "undisturbed I" and "id_redis m" and "lk_kind h = ''redis''"
    and "st_redis st (redisLockKey (lk_key h)) = Some (RText (lk_token h), ex)"
    and "\<forall>scope v ex. scope \<noteq> lk_key h \<longrightarrow> st_redis st (redisLockKey scope) = Some (v, ex) \<longrightarrow> ex \<le> st_clock st"
  shows "unlocked m (releaseLock I m (Some h) st)" and "cached_as E m L (releaseLock I m (Some h) st) A = cached_as E m L st A"
proof -
  let ?k = "redisLockKey (lk_key h)" and ?s = "istep I st"
  have rel: "releaseLock I m (Some h) st = (if st_clock ?s < ex then ?s\<lparr>st_redis := (st_redis st)(?k := None)\<rparr> else ?s)"
    using assms(1,2,3,4)
    by (simp add: releaseLock_def undisturbed_call releaseLua_def redis_live_def del: istep_fields)
  have s: "st_redis ?s = st_redis st" "st_rows ?s = st_rows st" "st_clock st \<le> st_clock ?s"
    using assms(1) by (simp_all add: undisturbed_call)
  show "unlocked m (releaseLock I m (Some h) st)"
    using assms(2,4,5) s unfolding rel unlocked_def
    by (auto simp del: istep_fields) (metis (no_types, lifting) fst_conv linorder_not_less option.inject order_trans snd_conv)+
  show "cached_as E m L (releaseLock I m (Some h) st) A = cached_as E m L st A"
    unfolding rel cached_as_def stored_def key_rows_def
    by (simp add: s del: istep_fields split: option.splits)
qed

lemma release_lease:
  assumes "undisturbed I" and "id_db m" and "lk_kind h = ''pg''" "\<not> lk_completed h" "lk_key h = k"
    and "st_rows st = rows @ [row]" and "\<forall>x \<in> set rows. ik_key x \<noteq> k"
    and "ik_key row = k" "ik_status row = ''in_progress''" "ik_lock_token row = Some (lk_token h)"
  shows "st_rows (releaseLock I m (Some h) st) = rows" "st_redis (releaseLock I m (Some h) st) = st_redis st"
proof -
  have "releaseLock I m (Some h) st = (istep I st)\<lparr>st_rows := filter (\<lambda>row. \<not> (ik_key row = k \<and>
      ik_lock_token row = Some (lk_token h) \<and> ik_status row = ''in_progress'')) (st_rows st)\<rparr>"
    using assms(1-5) by (simp add: releaseLock_def undisturbed_call release_stmt_def del: istep_fields)
  moreover have "filter (\<lambda>row. \<not> (ik_key row = k \<and> ik_lock_token row = Some (lk_token h) \<and> ik_status row = ''in_progress'')) (st_rows st) = rows"
    using assms(6-10) by (auto simp: filter_id_conv)
  ultimately show "st_rows (releaseLock I m (Some h) st) = rows" "st_redis (releaseLock I m (Some h) st) = st_redis st"
    using assms(1) by (simp_all add: undisturbed_call)
qed

section \<open>Refinement\<close>

definition well_behaved :: "env \<Rightarrow> 's handler \<Rightarrow> bool" where
  "well_behaved E next \<longleftrightarrow> (\<forall>r s. plain_header E (rr_header (run_recorder (fst (next r s)))) \<and>
     IsInt64 (recorder_statusCode (run_recorder (fst (next r s)))))"

definition digest_ok :: "idem_env \<Rightarrow> bool" where
  "digest_ok I \<longleftrightarrow> (\<forall>b. ie_sha256 I b \<noteq> [] \<and> ascii (ie_sha256 I b))"

text \<open>What one request may assume: \<open>L\<close> is the end of the period in which nothing expires.\<close>

definition within :: "idempotency \<Rightarrow> time \<Rightarrow> stores \<Rightarrow> stores \<Rightarrow> bool" where
  "within m L st st' \<longleftrightarrow> 0 \<le> st_clock st \<and> L \<le> st_clock st + id_responseTTL m \<and> st_clock st' + 1000 \<le> L \<and>
     st_clock st' + id_responseTTL m < 2 ^ 63"

lemma cached_as_cong:
  "st_rows st' = st_rows st \<Longrightarrow> (\<And>k. st_redis st' (redisResponseKey k) = st_redis st (redisResponseKey k)) \<Longrightarrow>
   cached_as E m L st' A = cached_as E m L st A"
  by (simp add: cached_as_def stored_def key_rows_def split: option.splits)

lemma hash_of_body: "readAndHashBody I r = Inr (b, h) \<Longrightarrow> digest_ok I \<Longrightarrow> h \<noteq> [] \<and> utf8 E h = h"
  by (auto simp: readAndHashBody_def digest_ok_def utf8_def split: option.splits sum.splits)

lemma recorded_plain:
  assumes "well_behaved E next" and "next r s = (ops, s')" and "utf8 E (rq_Path r) = rq_Path r" "utf8 E (rq_Method r) = rq_Method r"
    "utf8 E h = h" and "IsInt64 c" "IsInt64 e"
  shows "plain_response E (recorded r h ops c e)" and "plain_header E (rr_header (run_recorder ops))"
proof -
  have "plain_header E (rr_header (run_recorder ops)) \<and> IsInt64 (recorder_statusCode (run_recorder ops))"
    using assms(1) unfolding well_behaved_def by (metis assms(2) fst_conv)
  then show "plain_response E (recorded r h ops c e)" "plain_header E (rr_header (run_recorder ops))"
    using assms(3-7) by (simp_all add: plain_response_def recorded_def)
qed

text \<open>The abstract step that a run of the handler stands for.\<close>

definition ran_entry :: "http_request \<Rightarrow> string \<Rightarrow> wop list \<Rightarrow> entry" where
  "ran_entry r h ops = \<lparr>en_method = rq_Method r, en_path = rq_Path r, en_hash = h,
     en_status = recorder_statusCode (run_recorder ops), en_headers = rr_header (run_recorder ops),
     en_body = rr_body (run_recorder ops)\<rparr>"

lemma entry_of_recorded [simp]: "entry_of (recorded (with_body r b) h ops c e) = ran_entry r h ops"
  by (simp add: entry_of_def recorded_def ran_entry_def)

lemma write_recorded: "writeCachedResponse (Some (recorded (with_body r b) h ops c e)) = answer E (ran_entry r h ops) r h"
  by (simp add: writeCachedResponse_def recorded_def ran_entry_def answer_def)

definition run_abs :: "env \<Rightarrow> 's handler \<Rightarrow> http_request \<Rightarrow> string \<Rightarrow> string \<Rightarrow> 's \<times> cache \<Rightarrow> wop list \<times> 's \<times> cache" where
  "run_abs E next r b h st0 =
     (case st0 of (s, A) \<Rightarrow> (case next (with_body r b) s of (ops, s') \<Rightarrow>
       (case panic_of ops of Some msg \<Rightarrow> ([HPanic msg], s', A)
        | None \<Rightarrow> (answer E (ran_entry r h ops) r h, s', A(request_key r \<mapsto> ran_entry r h ops)))))"

lemma serve_once_guarded:
  assumes "guarded r" and "readAndHashBody I r = Inr (b, h)"
  shows "serve_once E I next r (s, A) =
    (case A (request_key r) of Some e \<Rightarrow> (answer E e r h, s, A) | None \<Rightarrow> run_abs E next r b h (s, A))"
  using assms
  by (simp add: serve_once_def guarded_def run_abs_def ran_entry_def Let_def split: option.splits prod.splits)

text \<open>The common part of both kinds of lock: the second lookup misses.\<close>

lemma locked_lookup:
  assumes "undisturbed I" and "cached_as E m L st2 A" and "A k = None"
    and "lookupCachedResponse E I m k st2 = (res, st1)" and "st_clock st1 + 1000 \<le> L"
  shows "res = Inr None" and "same_data st2 st1"
proof -
  have "stored E m L st2 k None" using assms(2,3) unfolding cached_as_def by metis
  from lookup_cached [OF assms(1) this assms(4,5)] show "res = Inr None" "same_data st2 st1" by simp_all
qed

lemma locked_times:
  assumes "lookupCachedResponse E I m k st2 = (res, st1)" and "storeCachedResponse E I m k respo ho (istep I (istep I (istep I st1))) = (err, ho', st3)"
    and "0 \<le> st_clock st2" and "st_clock st3 + id_responseTTL m < 2 ^ 63" and "0 < id_responseTTL m"
  shows "IsInt64 (st_clock (istep I (istep I st1)))" "IsInt64 (st_clock (istep I (istep I (istep I st1))) + id_responseTTL m)"
    "st_clock st1 \<le> st_clock st3" "0 \<le> st_clock (istep I (istep I (istep I st1))) + id_responseTTL m"
  using clock_lookup [OF assms(1)] clock_store [OF assms(2)] assms(3-5) by (auto simp: IsInt64_def)

text \<open>What a run of the handler finds and leaves, up to the call that stores its response.\<close>

lemma panicked_same:
  assumes "undisturbed I" and "cached_as E m L st2 A" "A k = None" and "lookupCachedResponse E I m k st2 = (res, st4)"
    and "st_clock (istep I st4) + 1000 \<le> L"
  shows "same_data st2 (istep I st4)"
proof -
  have "same_data st4 (istep I st4)" by (rule same_data_step [OF assms(1)])
  then have "st_clock st4 + 1000 \<le> L" using assms(5) by (simp add: same_data_def)
  from locked_lookup(2) [OF assms(1-4) this] show ?thesis using same_data_trans same_data_step [OF assms(1)] by blast
qed

lemma ran_facts:
  assumes "undisturbed I" and "cached_as E m L st2 A" "A k = None" and "lookupCachedResponse E I m k st2 = (res, st4)"
    and "storeCachedResponse E I m k respo ho (istep I (istep I (istep I st4))) = (err, ho', st3)"
    and "0 < id_responseTTL m" and "within m L st1 st3" and "st_clock st1 \<le> st_clock st2"
  shows "same_data st2 (istep I (istep I (istep I st4)))"
    and "IsInt64 (st_clock (istep I (istep I st4)))" "IsInt64 (st_clock (istep I (istep I (istep I st4))) + id_responseTTL m)"
    and "0 \<le> st_clock (istep I (istep I (istep I st4))) + id_responseTTL m" "L \<le> st_clock (istep I (istep I (istep I st4))) + id_responseTTL m"
    and "st_clock st2 \<le> st_clock st3"
proof -
  have b: "0 \<le> st_clock st2" "st_clock st3 + id_responseTTL m < 2 ^ 63" "st_clock st3 + 1000 \<le> L" "L \<le> st_clock st1 + id_responseTTL m"
    using assms(7,8) by (auto simp: within_def)
  note t = locked_times [OF assms(4,5) b(1,2) assms(6)]
  have d: "same_data st2 st4" using locked_lookup(2) [OF assms(1-4)] t(3) b(3) by simp
  then show d5: "same_data st2 (istep I (istep I (istep I st4)))" using same_data_step [OF assms(1)] same_data_trans by blast
  show "L \<le> st_clock (istep I (istep I (istep I st4))) + id_responseTTL m"
    using b(4) assms(8) d5 by (simp add: same_data_def del: istep_fields)
  show "st_clock st2 \<le> st_clock st3" using d t(3) by (simp add: same_data_def)
qed (rule locked_times [OF assms(4,5) _ _ assms(6)]; use assms(7,8) in \<open>simp add: within_def\<close>)+

text \<open>The Redis lock while it is held, and its release.\<close>

lemma redis_lock_held:
  assumes "undisturbed I" and "id_redis m" and "unlocked m st1" and "request_lock I m r h st1 = (Inr (Some lk), st2)"
  obtains ex where "lk = \<lparr>lk_kind = ''redis'', lk_key = buildLockScope (rq_Method r) (rq_Path r) (request_key r), lk_token = h, lk_completed = False\<rparr>"
    "st_rows st2 = st_rows st1" "st_clock st1 \<le> st_clock st2" "\<And>k. st_redis st2 (redisResponseKey k) = st_redis st1 (redisResponseKey k)"
    "st_redis st2 (redisLockKey (lk_key lk)) = Some (RText (lk_token lk), ex)"
    "\<And>scope v ex. scope \<noteq> lk_key lk \<Longrightarrow> st_redis st2 (redisLockKey scope) = Some (v, ex) \<Longrightarrow> ex \<le> st_clock st2"
proof -
  let ?scope = "buildLockScope (rq_Method r) (rq_Path r) (request_key r)"
  obtain ex where lk: "lk = \<lparr>lk_kind = ''redis'', lk_key = ?scope, lk_token = h, lk_completed = False\<rparr>"
    and st2: "st2 = (istep I st1)\<lparr>st_redis := (st_redis st1)(redisLockKey ?scope \<mapsto> (RText h, ex))\<rparr>"
    using acquire_redis [OF assms(1,2,3), of ?scope "request_key r" "rq_Path r" "rq_Method r" h] assms(4) unfolding request_lock_def by auto
  have clock: "st_clock st1 \<le> st_clock st2" by (simp add: st2)
  moreover have "t \<le> st_clock st2" if "scope \<noteq> lk_key lk" "st_redis st2 (redisLockKey scope) = Some (v, t)" for scope v t
  proof -
    have "t \<le> st_clock st1" using that assms(2,3) by (auto simp: lk st2 unlocked_def)
    with clock show ?thesis by (rule order_trans [rotated])
  qed
  ultimately show thesis by (intro that [OF lk]) (simp_all add: lk st2 undisturbed_call [OF assms(1)])
qed

lemma redis_lock_released:
  assumes "undisturbed I" and "id_redis m" and "lk_kind lk = ''redis''" and "st_redis st2 (redisLockKey (lk_key lk)) = Some (RText (lk_token lk), ex)"
    and "\<And>scope v ex. scope \<noteq> lk_key lk \<Longrightarrow> st_redis st2 (redisLockKey scope) = Some (v, ex) \<Longrightarrow> ex \<le> st_clock st2"
    and "st_clock st2 \<le> st_clock v" "\<And>scope. st_redis v (redisLockKey scope) = st_redis st2 (redisLockKey scope)" and "cached_as E m L v B"
  shows "unlocked m (releaseLock I m (Some lk) v)" "cached_as E m L (releaseLock I m (Some lk) v) B"
proof -
  have 1: "st_redis v (redisLockKey (lk_key lk)) = Some (RText (lk_token lk), ex)" using assms(4,7) by simp
  have 2: "\<forall>scope w ex. scope \<noteq> lk_key lk \<longrightarrow> st_redis v (redisLockKey scope) = Some (w, ex) \<longrightarrow> ex \<le> st_clock v"
    using assms(5,6,7) by (metis order_trans)
  show "unlocked m (releaseLock I m (Some lk) v)" "cached_as E m L (releaseLock I m (Some lk) v) B"
    using release_redis(1) [OF assms(1-3) 1 2] release_redis(2) [OF assms(1-3) 1 2] assms(8) by blast+
qed

lemma locked_redis:
  assumes u: "undisturbed I" and m: "id_redis m" "0 < id_responseTTL m" and beh: "well_behaved E next"
    and A: "cached_as E m L st1 A" "unlocked m st1" "A (request_key r) = None"
    and lock: "request_lock I m r h st1 = (Inr (Some lk), st2)"
    and run: "run_locked E I m next (with_body r b) (request_key r) h lk s st2 = (ops, lk', s', st3)"
    and plain: "utf8 E (rq_Path r) = rq_Path r" "utf8 E (rq_Method r) = rq_Method r" "utf8 E h = h"
    and times: "within m L st1 st3"
  shows "\<exists>A'. run_abs E next r b h (s, A) = (ops, s', A') \<and> cached_as E m L (releaseLock I m lk' st3) A' \<and>
    unlocked m (releaseLock I m lk' st3)"
proof -
  let ?k = "request_key r"
  obtain ex where lk: "lk_kind lk = ''redis''" and st2: "st_rows st2 = st_rows st1" "st_clock st1 \<le> st_clock st2"
      "\<And>k. st_redis st2 (redisResponseKey k) = st_redis st1 (redisResponseKey k)"
    and held: "st_redis st2 (redisLockKey (lk_key lk)) = Some (RText (lk_token lk), ex)"
      "\<And>scope v ex. scope \<noteq> lk_key lk \<Longrightarrow> st_redis st2 (redisLockKey scope) = Some (v, ex) \<Longrightarrow> ex \<le> st_clock st2"
    by (rule redis_lock_held [OF u m(1) A(2) lock]) simp
  have A2: "cached_as E m L st2 A" using A(1) by (subst cached_as_cong [OF st2(1,3)])
  note rel = redis_lock_released [OF u m(1) lk held]
  have late: "st_clock st3 + 1000 \<le> L" using times by (simp add: within_def)
  from run show ?thesis
  proof (cases rule: run_locked_cases)
    case (cached cd)
    from locked_lookup(1) [OF u A2 A(3) cached(1) late] show ?thesis by simp
  next
    case (panicked res st4 nops msg)
    have d3: "same_data st2 st3" using panicked_same [OF u A2 A(3) panicked(1)] late unfolding panicked(7) .
    then have "cached_as E m L st3 A" using A2 cached_as_same by blast
    then show ?thesis using rel [where v = st3 and B = A] d3 panicked by (simp add: run_abs_def same_data_def)
  next
    case (ran res st4 nops c e err)
    note f = ran_facts [OF u A2 A(3) ran(1,8) m(2) times st2(2)]
    have pl: "plain_response E (recorded (with_body r b) h nops c e)"
      using recorded_plain(1) [OF beh ran(3)] plain f(2,3) unfolding ran(5,6) by simp
    have L: "L \<le> cd_ExpiresAtUnixNano (recorded (with_body r b) h nops c e)" using f(5) unfolding ran(6) by (simp add: recorded_def)
    have A5: "cached_as E m L (istep I (istep I (istep I st4))) A" using A2 cached_as_same [OF f(1)] by simp
    have kind: "lk_kind lk \<noteq> ''pg''" using lk by simp
    note store = store_redis [OF u m(1,2) pl L f(5) _ ran(8) A5]
    have "cached_as E m L st3 (A(?k \<mapsto> ran_entry r h nops))" using store(2) [OF kind] by simp
    moreover have "st_redis st3 (redisLockKey scope) = st_redis st2 (redisLockKey scope)" for scope
      using store(3) [OF kind] f(1) by (simp add: same_data_def del: istep_fields)
    ultimately show ?thesis
      using rel [where v = st3 and B = "A(?k \<mapsto> ran_entry r h nops)"] f(6) store(1) [OF kind] ran(3,4,7) write_recorded [of r b h nops c e E]
      by (auto simp: run_abs_def)
  qed
qed

lemma cached_as_rows: "\<not> id_redis m \<Longrightarrow> st_rows v = st_rows st \<Longrightarrow> cached_as E m L v A = cached_as E m L st A"
  by (simp add: cached_as_def stored_def key_rows_def cong: option.case_cong)

lemma cached_as_append:
  assumes "\<not> id_redis m" "id_db m" and "st_rows v = rows @ [row]" and "st_rows st = rows" and "ik_key row = k"
    and "cached_as E m L st A" and "A k = None"
  shows "ik_status row \<noteq> ''completed'' \<Longrightarrow> cached_as E m L v A"
    and "row_entry E L e row \<Longrightarrow> key_rows st k = {} \<Longrightarrow> cached_as E m L v (A(k \<mapsto> e))"
proof -
  have rows: "key_rows v j = key_rows st j \<union> (if j = k then {row} else {})" for j
    using assms(3,4,5) by (auto simp: key_rows_def)
  have st: "stored E m L st j (A j)" for j using assms(6) by (simp add: cached_as_def)
  show "cached_as E m L v A" if "ik_status row \<noteq> ''completed''"
    unfolding cached_as_def
  proof
    fix j
    show "stored E m L v j (A j)"
      using st [of j] assms(1,2,7) that by (auto simp: stored_def rows split: option.splits if_splits)
  qed
  show "cached_as E m L v (A(k \<mapsto> e))" if "row_entry E L e row" "key_rows st k = {}"
    unfolding cached_as_def
  proof
    fix j
    show "stored E m L v j ((A(k \<mapsto> e)) j)"
      using st [of j] assms(1,2) that by (auto simp: stored_def rows split: option.splits if_splits)
  qed
qed

text \<open>The lease while it is held: the table gains one row in progress, the first one of its key.\<close>

lemma lease_held:
  assumes "undisturbed I" and "\<not> id_redis m" "id_db m" and "cached_as E m L st1 A" "unlocked m st1" "A (request_key r) = None"
    and "request_lock I m r h st1 = (Inr (Some lk), st2)" and "h \<noteq> []"
  obtains row where "lk = \<lparr>lk_kind = ''pg'', lk_key = request_key r, lk_token = h, lk_completed = False\<rparr>"
    "st_rows st2 = st_rows st1 @ [row]" "st_clock st1 \<le> st_clock st2"
    "ik_key row = request_key r" "ik_status row = ''in_progress''" "ik_lock_token row = Some h"
    "ik_request_path row = rq_Path r" "ik_request_method row = rq_Method r" "ik_request_hash row = h"
    "\<forall>x \<in> set (st_rows st1). ik_key x \<noteq> request_key r \<and> ik_status x = ''completed''" "cached_as E m L st2 A"
proof -
  let ?k = "request_key r"
  have fin: "\<forall>x \<in> set (st_rows st1). ik_status x = ''completed''" using assms(2,5) by (simp add: unlocked_def)
  have "stored E m L st1 ?k None" using assms(4,6) unfolding cached_as_def by metis
  with assms(3) fin have none: "key_rows st1 ?k = {}" by (auto simp: stored_def key_rows_def)
  obtain row st0 where acq: "tryAcquireLock I m (buildLockScope (rq_Method r) (rq_Path r) ?k) ?k (rq_Path r) (rq_Method r) h st1 =
      (Inr (Some \<lparr>lk_kind = ''pg'', lk_key = ?k, lk_token = h, lk_completed = False\<rparr>), st0\<lparr>st_rows := st_rows st1 @ [row]\<rparr>)"
    "same_data st1 st0"
    and row: "ik_key row = ?k" "ik_status row = ''in_progress''" "ik_lock_token row = Some h"
      "ik_request_path row = rq_Path r" "ik_request_method row = rq_Method r" "ik_request_hash row = h"
    by (rule acquire_lease [OF assms(1-3) none assms(8), of "buildLockScope (rq_Method r) (rq_Path r) ?k" "rq_Path r" "rq_Method r"])
  have lk: "lk = \<lparr>lk_kind = ''pg'', lk_key = ?k, lk_token = h, lk_completed = False\<rparr>"
    and st2: "st_rows st2 = st_rows st1 @ [row]" "st_clock st1 \<le> st_clock st2"
    using acq assms(7) unfolding request_lock_def by (simp_all add: same_data_def)
  have "cached_as E m L st2 A" by (rule cached_as_append(1) [OF assms(2,3) st2(1) refl row(1) assms(4,6)]) (simp add: row)
  with none fin show thesis by (intro that [OF lk st2 row]) (auto simp: key_rows_def)
qed

lemma locked_lease:
  assumes u: "undisturbed I" and m: "\<not> id_redis m" "id_db m" "0 < id_responseTTL m" and beh: "well_behaved E next"
    and A: "cached_as E m L st1 A" "unlocked m st1" "A (request_key r) = None"
    and lock: "request_lock I m r h st1 = (Inr (Some lk), st2)"
    and run: "run_locked E I m next (with_body r b) (request_key r) h lk s st2 = (ops, lk', s', st3)"
    and plain: "utf8 E (rq_Path r) = rq_Path r" "utf8 E (rq_Method r) = rq_Method r" "utf8 E h = h" "h \<noteq> []"
    and times: "within m L st1 st3"
  shows "\<exists>A'. run_abs E next r b h (s, A) = (ops, s', A') \<and> cached_as E m L (releaseLock I m lk' st3) A' \<and>
    unlocked m (releaseLock I m lk' st3)"
proof -
  let ?k = "request_key r"
  obtain row where lk: "lk = \<lparr>lk_kind = ''pg'', lk_key = ?k, lk_token = h, lk_completed = False\<rparr>"
    and st2: "st_rows st2 = st_rows st1 @ [row]" "st_clock st1 \<le> st_clock st2"
    and row: "ik_key row = ?k" "ik_status row = ''in_progress''" "ik_lock_token row = Some h"
      "ik_request_path row = rq_Path r" "ik_request_method row = rq_Method r" "ik_request_hash row = h"
    and oth: "\<forall>x \<in> set (st_rows st1). ik_key x \<noteq> ?k \<and> ik_status x = ''completed''" and A2: "cached_as E m L st2 A"
    by (rule lease_held [OF u m(1,2) A lock plain(4)])
  have late: "st_clock st3 + 1000 \<le> L" using times by (simp add: within_def)
  from run show ?thesis
  proof (cases rule: run_locked_cases)
    case (cached cd)
    from locked_lookup(1) [OF u A2 A(3) cached(1) late] show ?thesis by simp
  next
    case (panicked res st4 nops msg)
    have "same_data st2 st3" using panicked_same [OF u A2 A(3) panicked(1)] late unfolding panicked(7) .
    then have rows3: "st_rows st3 = st_rows st1 @ [row]" using st2(1) by (simp add: same_data_def)
    have rel: "st_rows (releaseLock I m (Some lk) st3) = st_rows st1"
      by (rule release_lease(1) [OF u m(2) _ _ _ rows3 _ row(1,2)]) (use oth in \<open>simp_all add: lk row\<close>)
    then show ?thesis using A(1) cached_as_rows [OF m(1) rel] oth m(1) panicked by (simp add: run_abs_def unlocked_def)
  next
    case (ran res st4 nops c e err)
    let ?cd = "recorded (with_body r b) h nops c e"
    note f = ran_facts [OF u A2 A(3) ran(1,8) m(3) times st2(2)]
    have pl: "plain_header E (cd_ResponseHeaders ?cd)"
      using recorded_plain(2) [OF beh ran(3) _ _ plain(3) f(2,3)] plain(1,2) by (simp add: recorded_def)
    have ex: "L \<le> cd_ExpiresAtUnixNano ?cd" "0 \<le> cd_ExpiresAtUnixNano ?cd" using f(4,5) unfolding ran(6) by (simp_all add: recorded_def)
    have rows5: "st_rows (istep I (istep I (istep I st4))) = st_rows st1 @ [row]" using f(1) st2(1) by (simp add: same_data_def del: istep_fields)
    have pre: "lk_kind lk = ''pg''" "ik_lock_token row = Some (lk_token lk)" "ik_request_path row = cd_RequestPath ?cd"
      "ik_request_method row = cd_RequestMethod ?cd" "ik_request_hash row = cd_RequestHash ?cd"
      by (simp_all add: lk row recorded_def)
    note store = store_lease [OF u m(1,2) pl ex pre(1) ran(8) rows5 oth row(1,2) pre(2-5)]
    obtain row' where row': "st_rows st3 = st_rows st1 @ [row']" "ik_key row' = ?k" "row_entry E L (ran_entry r h nops) row'"
      using store(2) unfolding entry_of_recorded by blast
    have "cached_as E m L st3 (A(?k \<mapsto> ran_entry r h nops))"
      by (rule cached_as_append(2) [OF m(1,2) row'(1) refl row'(2) A(1,3) row'(3)]) (use oth in \<open>auto simp: key_rows_def\<close>)
    moreover have "unlocked m st3" using m(1) oth row' by (simp add: unlocked_def row_entry_def)
    moreover have "releaseLock I m lk' st3 = st3" by (simp add: releaseLock_def store(1) lk)
    ultimately show ?thesis using ran(3,4,7) write_recorded [of r b h nops c e E] by (auto simp: run_abs_def)
  qed
qed

text \<open>A run under the lock, whichever it is.\<close>

lemma locked_run:
  assumes u: "undisturbed I" and m: "id_redis m \<or> id_db m" "0 < id_responseTTL m" and beh: "well_behaved E next"
    and A: "cached_as E m L st1 A" "unlocked m st1" "A (request_key r) = None"
    and lock: "request_lock I m r h st1 = (Inr (Some lk), st2)"
    and run: "run_locked E I m next (with_body r b) (request_key r) h lk s st2 = (ops, lk', s', st3)"
    and plain: "utf8 E (rq_Path r) = rq_Path r" "utf8 E (rq_Method r) = rq_Method r" "utf8 E h = h" "h \<noteq> []"
    and times: "within m L st1 st3"
  shows "\<exists>A'. run_abs E next r b h (s, A) = (ops, s', A') \<and> cached_as E m L (releaseLock I m lk' st3) A' \<and>
    unlocked m (releaseLock I m lk' st3)"
proof (cases "id_redis m")
  case True
  show ?thesis by (rule locked_redis [OF u True m(2) beh A lock run plain(1-3) times])
next
  case False
  with m(1) have db: "id_db m" by simp
  show ?thesis by (rule locked_lease [OF u False db m(2) beh A lock run plain times])
qed

lemma free_lock_granted:
  assumes "undisturbed I" and "id_redis m \<or> id_db m" and "cached_as E m L st1 A" "unlocked m st1" "A (request_key r) = None"
    and "h \<noteq> []"
  shows "\<exists>lk st2. request_lock I m r h st1 = (Inr (Some lk), st2)"
proof (cases "id_redis m")
  case True
  show ?thesis
    by (rule acquire_redis [OF assms(1) True assms(4)]) (auto simp: request_lock_def)
next
  case False
  with assms(2) have db: "id_db m" by simp
  have "stored E m L st1 (request_key r) None" using assms(3,5) unfolding cached_as_def by metis
  with db assms(4) False have "key_rows st1 (request_key r) = {}" by (auto simp: stored_def key_rows_def unlocked_def)
  then show ?thesis
    by (rule acquire_lease [OF assms(1) False db _ assms(6)]) (auto simp: request_lock_def)
qed

text \<open>One request: the middleware does what the abstract cache does.\<close>

lemma middleware_step:
  assumes u: "undisturbed I" "digest_ok I" and m: "id_redis m \<or> id_db m" "0 < id_responseTTL m" and beh: "well_behaved E next"
    and A: "cached_as E m L st A" "unlocked m st"
    and plain: "utf8 E (rq_Path r) = rq_Path r" "utf8 E (rq_Method r) = rq_Method r"
    and call: "Middleware E I (Some m) (Some next) r (s, st) = (ops, s', st')"
    and times: "within m L st st'"
  shows "\<exists>A'. serve_once E I next r (s, A) = (ops, s', A') \<and> cached_as E m L st' A' \<and> unlocked m st'"
proof (cases "guarded r \<and> (\<exists>b h. readAndHashBody I r = Inr (b, h))")
  case False
  then have "\<exists>A'. serve_once E I next r (s, A) = (ops, s', A') \<and> st' = st \<and> A' = A"
    using call by (auto simp: Middleware_def serve_once_def guarded_def Let_def split: sum.splits prod.splits if_splits)
  then show ?thesis using A by auto
next
  case True
  then obtain b h where g: "guarded r" and bh: "readAndHashBody I r = Inr (b, h)" by blast
  have h: "h \<noteq> []" "utf8 E h = h" using hash_of_body [OF bh u(2)] by blast+
  have stored: "stored E m L st (request_key r) (A (request_key r))" using A(1) by (simp add: cached_as_def)
  have known: "A (request_key r) = None" "same_data st st1"
    if "lookupCachedResponse E I m (request_key r) st = (res, st1)" "\<forall>cd. res \<noteq> Inr (Some cd)" "st_clock st1 \<le> st_clock st'" for res st1
    using lookup_cached [OF u(1) stored that(1)] that(2,3) times by (auto simp: within_def split: option.splits)
  have after: "cached_as E m L st1 A" "unlocked m st1" "within m L st1 v" if "same_data st st1" "within m L st v" for st1 v
    using A cached_as_same [OF that(1)] unlocked_same [OF that(1)] that by (auto simp: within_def same_data_def)
  from call g bh show ?thesis
  proof (cases rule: Middleware_cases)
    case (hit cd)
    have "same_data st st' \<and> (\<exists>e. A (request_key r) = Some e \<and> entry_of cd = e)"
      using lookup_cached [OF u(1) stored hit(1)] times by (auto simp: within_def split: option.splits)
    then show ?thesis
      using A hit(2,3) cached_as_same unlocked_same by (auto simp: serve_once_guarded [OF g bh] replay_answer)
  next
    case (no_lock res st1 e)
    have k: "A (request_key r) = None" "same_data st st1"
      using known [OF no_lock(1,2)] clock_acquire no_lock(3) unfolding request_lock_def by blast+
    show ?thesis
      using free_lock_granted [OF u(1) m(1) after(1,2) [OF k(2) times] k(1) h(1)] no_lock(3) by auto
  next
    case (busy res st1 st2 w)
    have "st_clock st1 \<le> st_clock st2" using clock_acquire busy(3) unfolding request_lock_def by blast
    moreover have "st_clock st2 \<le> st_clock st'" using wait_clock [OF busy(4)] .
    ultimately have k: "A (request_key r) = None" "same_data st st1" using known [OF busy(1,2)] by simp_all
    show ?thesis
      using free_lock_granted [OF u(1) m(1) after(1,2) [OF k(2) times] k(1) h(1)] busy(3) by auto
  next
    case (locked res st1 lk st2 lk' st3)
    have c: "st_clock st1 \<le> st_clock st2" "st_clock st2 \<le> st_clock st3" "st_clock st3 \<le> st_clock st'"
      using clock_acquire locked(3) clock_run_locked [OF locked(4)] clock_release unfolding request_lock_def locked(5) by blast+
    then have k: "A (request_key r) = None" "same_data st st1" using known [OF locked(1,2)] by simp_all
    have w3: "within m L st st3" using times c(3) by (simp add: within_def)
    from locked_run [OF u(1) m beh after(1,2) [OF k(2) times] k(1) locked(3,4) plain h(2,1) after(3) [OF k(2) w3]]
    have "\<exists>A'. run_abs E next r b h (s, A) = (ops, s', A') \<and> cached_as E m L st' A' \<and> unlocked m st'" unfolding locked(5) .
    then show ?thesis by (simp add: serve_once_guarded [OF g bh] k(1))
  qed
qed

text \<open>A sequence of requests.\<close>

fun serve :: "'s handler \<Rightarrow> http_request list \<Rightarrow> 's \<Rightarrow> wop list list \<times> 's" where
  "serve h [] s = ([], s)"
| "serve h (r # rs) s = (case h r s of (ops, s1) \<Rightarrow> (case serve h rs s1 of (outs, s2) \<Rightarrow> (ops # outs, s2)))"

lemma clock_serve:
  "serve (Middleware E I (Some m) (Some next)) rs (s, st) = (outs, s', st') \<Longrightarrow> st_clock st \<le> st_clock st'"
proof (induction rs arbitrary: s st outs)
  case (Cons r rs)
  obtain ops s1 st1 where 1: "Middleware E I (Some m) (Some next) r (s, st) = (ops, s1, st1)" by (metis prod.exhaust)
  obtain outs' where 2: "serve (Middleware E I (Some m) (Some next)) rs (s1, st1) = (outs', s', st')"
    using Cons.prems 1 by (auto split: prod.splits)
  show ?case using clock_Middleware [OF 1] Cons.IH [OF 2] by simp
qed simp

lemma serve_refines:
  assumes "undisturbed I" "digest_ok I" and "id_redis m \<or> id_db m" "0 < id_responseTTL m" and "well_behaved E next"
  shows "\<forall>r \<in> set rs. utf8 E (rq_Path r) = rq_Path r \<and> utf8 E (rq_Method r) = rq_Method r \<Longrightarrow>
    cached_as E m L st A \<Longrightarrow> unlocked m st \<Longrightarrow> within m L st st' \<Longrightarrow>
    serve (Middleware E I (Some m) (Some next)) rs (s, st) = (outs, s', st') \<Longrightarrow>
    \<exists>A'. serve (serve_once E I next) rs (s, A) = (outs, s', A') \<and> cached_as E m L st' A' \<and> unlocked m st'"
proof (induction rs arbitrary: s st outs A)
  case (Cons r rs)
  obtain ops s1 st1 where 1: "Middleware E I (Some m) (Some next) r (s, st) = (ops, s1, st1)" by (metis prod.exhaust)
  obtain outs' where 2: "serve (Middleware E I (Some m) (Some next)) rs (s1, st1) = (outs', s', st')" "outs = ops # outs'"
    using Cons.prems(5) 1 by (auto split: prod.splits)
  have w: "within m L st st1" "within m L st1 st'"
    using Cons.prems(4) clock_Middleware [OF 1] clock_serve [OF 2(1)] by (auto simp: within_def)
  obtain A1 where A1: "serve_once E I next r (s, A) = (ops, s1, A1)" "cached_as E m L st1 A1" "unlocked m st1"
    using middleware_step [OF assms Cons.prems(2,3) _ _ 1 w(1)] Cons.prems(1) by auto
  obtain A2 where "serve (serve_once E I next) rs (s1, A1) = (outs', s', A2)" "cached_as E m L st' A2" "unlocked m st'"
    using Cons.IH [OF _ A1(2,3) w(2) 2(1)] Cons.prems(1) by auto
  with A1(1) 2(2) show ?case by auto
qed auto

lemma empty_stores: "st_rows st = [] \<Longrightarrow> st_redis st = (\<lambda>_. None) \<Longrightarrow> cached_as E m L st Map.empty \<and> unlocked m st"
  by (simp add: cached_as_def stored_def key_rows_def unlocked_def)

text \<open>
  C3: with stores that answer, the middleware refines the abstract cache. Started on empty
  stores, with Redis and the database or with either of them alone, any sequence of requests
  gets exactly the responses, and leaves the state behind the handler exactly as it is, when
  the handler runs once per idempotency key; locks and leases, panics of the handler and the
  time that passes make no difference before the first response expires.
\<close>

theorem idempotency_refines:
  assumes "undisturbed I" "digest_ok I" and "id_redis m \<or> id_db m" "0 < id_responseTTL m" and "well_behaved E next"
    and "\<forall>r \<in> set rs. utf8 E (rq_Path r) = rq_Path r \<and> utf8 E (rq_Method r) = rq_Method r"
    and "st_rows st = []" "st_redis st = (\<lambda>_. None)"
    and "0 \<le> st_clock st" "st_clock st' + 1000 \<le> st_clock st + id_responseTTL m" "st_clock st' + id_responseTTL m < 2 ^ 63"
    and "serve (Middleware E I (Some m) (Some next)) rs (s, st) = (outs, s', st')"
  shows "\<exists>A. serve (serve_once E I next) rs (s, Map.empty) = (outs, s', A)"
proof -
  let ?L = "st_clock st + id_responseTTL m"
  have e: "cached_as E m ?L st Map.empty" "unlocked m st" using empty_stores [OF assms(7,8)] by blast+
  have "within m ?L st st'" using assms(9-11) by (simp add: within_def)
  from serve_refines [OF assms(1-6) e this assms(12)] show ?thesis by blast
qed

section \<open>Repeated requests\<close>

text \<open>An entry stays what it is.\<close>

lemma serve_once_keeps:
  assumes "serve_once E I next r (s, A) = (ops, s', A')" and "A k = Some e"
  shows "A' k = Some e"
  using assms by (auto simp: serve_once_def Let_def split: if_splits sum.splits option.splits prod.splits)

lemma serve_keeps: "serve (serve_once E I next) rs (s, A) = (outs, s', A') \<Longrightarrow> A k = Some e \<Longrightarrow> A' k = Some e"
proof (induction rs arbitrary: s A outs)
  case (Cons r rs)
  obtain ops s1 A1 where 1: "serve_once E I next r (s, A) = (ops, s1, A1)" by (metis prod.exhaust)
  obtain outs' where 2: "serve (serve_once E I next) rs (s1, A1) = (outs', s', A')" using Cons.prems(1) 1 by (auto split: prod.splits)
  show ?case using Cons.IH [OF 2 serve_once_keeps [OF 1 Cons.prems(2)]] .
qed simp

text \<open>After a first request with a new key, the entry of the key is its response.\<close>

lemma first_request_entry:
  assumes "guarded r" and "readAndHashBody I r = Inr (b, h)" and "serve_once E I next r (s, Map.empty) = (ops, s1, A)"
    and "\<not> panics ops"
  shows "\<exists>e. A (request_key r) = Some e \<and> ops = answer E e r h \<and> en_method e = rq_Method r \<and> en_path e = rq_Path r \<and> en_hash e = h"
  using assms(3,4)
  by (auto simp: serve_once_guarded [OF assms(1,2)] run_abs_def ran_entry_def split: prod.splits option.splits)

lemma repeated_call:
  assumes "undisturbed I" "digest_ok I" and "id_redis m \<or> id_db m" "0 < id_responseTTL m" and "well_behaved E next"
    and "\<forall>r \<in> set (r1 # rs @ [r2]). utf8 E (rq_Path r) = rq_Path r \<and> utf8 E (rq_Method r) = rq_Method r"
    and "st_rows st = []" "st_redis st = (\<lambda>_. None)"
    and "0 \<le> st_clock st" "st_clock st' + 1000 \<le> st_clock st + id_responseTTL m" "st_clock st' + id_responseTTL m < 2 ^ 63"
    and "guarded r1" "guarded r2" "request_key r1 = request_key r2"
    and "readAndHashBody I r1 = Inr (b1, h1)" "readAndHashBody I r2 = Inr (b2, h2)"
    and "serve (Middleware E I (Some m) (Some next)) (r1 # rs) (s, st) = (ops1 # outs, s1, st1)" and "\<not> panics ops1"
    and "Middleware E I (Some m) (Some next) r2 (s1, st1) = (ops2, s2, st')"
  shows "s2 = s1 \<and> ops2 = (if rq_Method r1 = rq_Method r2 \<and> rq_Path r1 = rq_Path r2 \<and> h1 = h2 then ops1
    else writeIdempotencyError E 409 ''idempotency key reused with different request'')"
proof -
  let ?L = "st_clock st + id_responseTTL m"
  have e: "cached_as E m ?L st Map.empty" "unlocked m st" using empty_stores [OF assms(7,8)] by blast+
  have w: "within m ?L st st1" "within m ?L st1 st'"
    using assms(9-11) clock_serve [OF assms(17)] clock_Middleware [OF assms(19)] by (auto simp: within_def)
  have u: "\<forall>r \<in> set (r1 # rs). utf8 E (rq_Path r) = rq_Path r \<and> utf8 E (rq_Method r) = rq_Method r" using assms(6) by simp
  obtain A where A: "serve (serve_once E I next) (r1 # rs) (s, Map.empty) = (ops1 # outs, s1, A)" "cached_as E m ?L st1 A" "unlocked m st1"
    using serve_refines [OF assms(1-5) u e w(1) assms(17)] by blast
  obtain o1 v A1 where 1: "serve_once E I next r1 (s, Map.empty) = (o1, v, A1)" by (metis prod.exhaust)
  then have o1: "o1 = ops1" and rest: "serve (serve_once E I next) rs (v, A1) = (outs, s1, A)" using A(1) by (auto split: prod.splits)
  obtain en where en: "A1 (request_key r1) = Some en" "ops1 = answer E en r1 h1" "en_method en = rq_Method r1" "en_path en = rq_Path r1" "en_hash en = h1"
    using first_request_entry [OF assms(12,15) 1] assms(18) o1 by blast
  have "A (request_key r2) = Some en" using serve_keeps [OF rest en(1)] assms(14) by simp
  moreover obtain A' where "serve_once E I next r2 (s1, A) = (ops2, s2, A')"
    using middleware_step [OF assms(1-5) A(2,3) _ _ assms(19) w(2)] assms(6) by auto
  ultimately have "s2 = s1" "ops2 = answer E en r2 h2" by (simp_all add: serve_once_guarded [OF assms(13,16)])
  then show ?thesis using en(2-5) by (auto simp: answer_def)
qed

text \<open>
  A request that is repeated with the same idempotency key gets the response of the first
  one again, and the handler does not run again, whatever other requests came in between. When
  the same key comes with another method, path or body, the answer is a conflict and the
  handler does not run either.
\<close>

theorem repeated_request:
  assumes "undisturbed I" "digest_ok I" and "id_redis m \<or> id_db m" "0 < id_responseTTL m" and "well_behaved E next"
    and "\<forall>r \<in> set (r1 # rs @ [r2]). utf8 E (rq_Path r) = rq_Path r \<and> utf8 E (rq_Method r) = rq_Method r"
    and "st_rows st = []" "st_redis st = (\<lambda>_. None)"
    and "0 \<le> st_clock st" "st_clock st' + 1000 \<le> st_clock st + id_responseTTL m" "st_clock st' + id_responseTTL m < 2 ^ 63"
    and "guarded r1" "guarded r2" "request_key r1 = request_key r2"
    and "readAndHashBody I r1 = Inr (b1, h1)" "readAndHashBody I r2 = Inr (b2, h2)"
    and "serve (Middleware E I (Some m) (Some next)) (r1 # rs) (s, st) = (ops1 # outs, s1, st1)" and "\<not> panics ops1"
    and "Middleware E I (Some m) (Some next) r2 (s1, st1) = (ops2, s2, st')"
  shows "s2 = s1 \<and> ops2 = (if rq_Method r1 = rq_Method r2 \<and> rq_Path r1 = rq_Path r2 \<and> h1 = h2 then ops1
    else writeIdempotencyError E 409 ''idempotency key reused with different request'')"
  by (rule repeated_call [OF assms])

section \<open>Concrete requests\<close>

lemma quiet_ok: "undisturbed quiet" "digest_ok quiet" "well_behaved steady counting"
  "id_redis sample_idempotency \<or> id_db sample_idempotency" "0 < id_responseTTL sample_idempotency"
  by (simp_all add: undisturbed_def digest_ok_def quiet_def list_all_iff well_behaved_def counting_def run_recorder_def
      newResponseRecorder_def recorder_WriteHeader_def recorder_Write_def recorder_statusCode_def header_Set_def plain_header_def
      utf8_def IsInt64_def sample_idempotency_def NewIdempotency_def default_defs Let_def)

text \<open>The first of two equal requests runs the handler, the second does not.\<close>

lemma answer_returns: "\<not> panics (answer E e r h)"
  by (auto simp: answer_def writeIdempotencyError_def panics_def list_ex_iff)

lemma quiet_once:
  "case serve (serve_once steady quiet counting) [keyed_post ''x'', keyed_post ''x''] (0, Map.empty)
   of (outs, n, A) \<Rightarrow> n = 1 \<and> \<not> panics (outs ! 0)"
  by (simp add: serve_once_guarded [OF keyed_ok(2,3)] run_abs_def counting_def answer_returns)

lemma two_requests:
  assumes "undisturbed I" "digest_ok I" "well_behaved E next" "\<forall>t. ie_lat I t \<le> 1000"
    and "\<forall>r \<in> {r1, r2}. utf8 E (rq_Path r) = rq_Path r \<and> utf8 E (rq_Method r) = rq_Method r"
    and "Middleware E I (Some sample_idempotency) (Some next) r1 (s, fresh_stores) = (ops1, s1, st1)"
    and "Middleware E I (Some sample_idempotency) (Some next) r2 (s1, st1) = (ops2, s2, st2)"
  shows "st_clock st2 \<le> 20 * Second" "\<exists>A1 A. serve_once E I next r1 (s, Map.empty) = (ops1, s1, A1) \<and> serve_once E I next r2 (s1, A1) = (ops2, s2, A)"
proof -
  show c: "st_clock st2 \<le> 20 * Second"
    using Middleware_bounded [OF assms(6,4)] Middleware_bounded [OF assms(7,4)]
    by (simp add: sample_wait fresh_stores_def duration_defs)
  have e: "cached_as E sample_idempotency (24 * Hour) fresh_stores Map.empty" "unlocked sample_idempotency fresh_stores"
    using empty_stores [of fresh_stores] by (simp_all add: fresh_stores_def)
  have w: "within sample_idempotency (24 * Hour) fresh_stores st1" "within sample_idempotency (24 * Hour) st1 st2"
    using c clock_Middleware [OF assms(6)] clock_Middleware [OF assms(7)]
    by (simp_all add: within_def fresh_stores_def sample_idempotency_def NewIdempotency_def default_defs)
  obtain A1 where A1: "serve_once E I next r1 (s, Map.empty) = (ops1, s1, A1)"
      "cached_as E sample_idempotency (24 * Hour) st1 A1" "unlocked sample_idempotency st1"
    using middleware_step [OF assms(1,2) quiet_ok(4,5) assms(3) e _ _ assms(6) w(1)] assms(5) by auto
  then show "\<exists>A1 A. serve_once E I next r1 (s, Map.empty) = (ops1, s1, A1) \<and> serve_once E I next r2 (s1, A1) = (ops2, s2, A)"
    using middleware_step [OF assms(1,2) quiet_ok(4,5) assms(3) A1(2,3) _ _ assms(7) w(2)] assms(5) by auto
qed

lemma quiet_calls:
  obtains ops1 s1 st1 ops2 st2 where
    "Middleware steady quiet (Some sample_idempotency) (Some counting) (keyed_post ''x'') (0, fresh_stores) = (ops1, s1, st1)"
    "Middleware steady quiet (Some sample_idempotency) (Some counting) (keyed_post ''x'') (s1, st1) = (ops2, 1, st2)"
    "\<not> panics ops1" "st_clock st2 \<le> 20 * Second"
proof -
  let ?M = "Middleware steady quiet (Some sample_idempotency) (Some counting)"
  obtain ops1 s1 st1 where 1: "?M (keyed_post ''x'') (0, fresh_stores) = (ops1, s1, st1)" by (metis prod.exhaust)
  obtain ops2 s2 st2 where 2: "?M (keyed_post ''x'') (s1, st1) = (ops2, s2, st2)" by (metis prod.exhaust)
  have u: "\<forall>r \<in> {keyed_post ''x'', keyed_post ''x''}. utf8 steady (rq_Path r) = rq_Path r \<and> utf8 steady (rq_Method r) = rq_Method r"
    using keyed_ok(1) by simp
  note t = two_requests [OF quiet_ok(1-3) quiet_lat u 1 2]
  then have "s2 = 1 \<and> \<not> panics ops1" using quiet_once by auto
  with that [OF 1, of ops2 st2] 2 t(1) show thesis by simp
qed

theorem idempotency_refines_witness:
  "\<exists>outs A. serve (serve_once steady quiet counting) [keyed_post ''x'', keyed_post ''x''] (0, Map.empty) = (outs, 1, A)"
proof -
  obtain ops1 s1 st1 ops2 st2 where c: "Middleware steady quiet (Some sample_idempotency) (Some counting) (keyed_post ''x'') (0, fresh_stores) = (ops1, s1, st1)"
    "Middleware steady quiet (Some sample_idempotency) (Some counting) (keyed_post ''x'') (s1, st1) = (ops2, 1, st2)" "st_clock st2 \<le> 20 * Second"
    by (rule quiet_calls)
  have s: "serve (Middleware steady quiet (Some sample_idempotency) (Some counting)) [keyed_post ''x'', keyed_post ''x''] (0, fresh_stores) =
    ([ops1, ops2], 1, st2)" by (simp add: c(1,2))
  have "\<exists>A. serve (serve_once steady quiet counting) [keyed_post ''x'', keyed_post ''x''] (0, Map.empty) = ([ops1, ops2], 1, A)"
    by (rule idempotency_refines [OF quiet_ok(1,2,4,5,3) _ _ _ _ _ _ s])
      (use c(3) keyed_ok(1) in \<open>simp_all add: fresh_stores_def sample_idempotency_def NewIdempotency_def default_defs\<close>)
  then show ?thesis by blast
qed

theorem repeated_request_witness:
  "\<exists>ops s1 st1 st2. Middleware steady quiet (Some sample_idempotency) (Some counting) (keyed_post ''x'') (0, fresh_stores) = (ops, s1, st1) \<and>
     Middleware steady quiet (Some sample_idempotency) (Some counting) (keyed_post ''x'') (s1, st1) = (ops, s1, st2)"
proof -
  let ?M = "Middleware steady quiet (Some sample_idempotency) (Some counting)"
  obtain ops1 s1 st1 ops2 st2 where c: "?M (keyed_post ''x'') (0, fresh_stores) = (ops1, s1, st1)"
    "?M (keyed_post ''x'') (s1, st1) = (ops2, 1, st2)" "\<not> panics ops1" "st_clock st2 \<le> 20 * Second"
    by (rule quiet_calls)
  have s: "serve ?M [keyed_post ''x''] (0, fresh_stores) = ([ops1], s1, st1)" by (simp add: c(1))
  have "1 = s1 \<and> ops2 = (if rq_Method (keyed_post ''x'') = rq_Method (keyed_post ''x'') \<and>
      rq_Path (keyed_post ''x'') = rq_Path (keyed_post ''x'') \<and> ie_sha256 quiet ''x'' = ie_sha256 quiet ''x'' then ops1
    else writeIdempotencyError steady 409 ''idempotency key reused with different request'')"
    by (rule repeated_request [OF quiet_ok(1,2,4,5,3) _ _ _ _ _ _ keyed_ok(2) keyed_ok(2) refl keyed_ok(3) keyed_ok(3) s c(3,2)])
      (use c(4) keyed_ok(1) in \<open>simp_all add: fresh_stores_def sample_idempotency_def NewIdempotency_def default_defs\<close>)
  then show ?thesis using c(1,2) by auto
qed

end
