(* ===== verification/Idempotency_Lock.thy ===== *)
theory Idempotency_Lock
  imports Idempotency_Spec
begin

text \<open>
  The lock of the idempotency middleware as a state machine. Any number of requests try to
  take locks, get them or not, and release them, with time passing in between. The two kinds
  of lock, the value in Redis and the lease in the table, provide the same interface; mutual
  exclusion is proved once over the interface. It rests on every holder releasing before its
  lock expires, and fails without that.
\<close>

section \<open>Holders\<close>

text \<open>A holder: what is locked, the token, and when the lock expires.\<close>

type_synonym holder = "string \<times> string \<times> time"

text \<open>
  Commands act at one instant. Time passes only while no holder has outlived its lock;
  the locks are then left alone.
\<close>

inductive lock_step :: "('st \<Rightarrow> bool) \<Rightarrow> ('st \<Rightarrow> time) \<Rightarrow> ('st \<Rightarrow> string \<Rightarrow> (string \<times> time) option) \<Rightarrow>
    (string \<Rightarrow> string \<Rightarrow> 'st \<Rightarrow> bool \<times> 'st) \<Rightarrow> (string \<Rightarrow> string \<Rightarrow> 'st \<Rightarrow> 'st) \<Rightarrow>
    'st \<times> holder list \<Rightarrow> 'st \<times> holder list \<Rightarrow> bool"
  for valid clock held acq rel where
  granted: "acq k tok st = (True, st') \<Longrightarrow> held st' k = Some (tok, ex) \<Longrightarrow>
    lock_step valid clock held acq rel (st, hs) (st', (k, tok, ex) # hs)"
| refused: "acq k tok st = (False, st') \<Longrightarrow> lock_step valid clock held acq rel (st, hs) (st', hs)"
| released: "(k, tok, ex) \<in> set hs \<Longrightarrow>
    lock_step valid clock held acq rel (st, hs) (rel k tok st, remove1 (k, tok, ex) hs)"
| passed: "valid st' \<Longrightarrow> (\<And>k. held st' k = held st k) \<Longrightarrow> clock st \<le> clock st' \<Longrightarrow>
    (\<forall>(k, tok, ex) \<in> set hs. clock st' < ex) \<Longrightarrow> lock_step valid clock held acq rel (st, hs) (st', hs)"

inductive_cases lock_stepE: "lock_step valid clock held acq rel (st, hs) (st', hs')"

text \<open>The locks that the holders have are in the store, alive, and each held once.\<close>

definition lock_inv :: "('st \<Rightarrow> bool) \<Rightarrow> ('st \<Rightarrow> time) \<Rightarrow> ('st \<Rightarrow> string \<Rightarrow> (string \<times> time) option) \<Rightarrow> 'st \<times> holder list \<Rightarrow> bool" where
  "lock_inv valid clock held s \<longleftrightarrow> (case s of (st, hs) \<Rightarrow> valid st \<and> distinct (map fst hs) \<and>
     (\<forall>(k, tok, ex) \<in> set hs. held st k = Some (tok, ex) \<and> clock st < ex))"

section \<open>The interface\<close>

locale lock_backend =
  fixes valid :: "'st \<Rightarrow> bool" and clock :: "'st \<Rightarrow> time" and held :: "'st \<Rightarrow> string \<Rightarrow> (string \<times> time) option"
    and acq :: "string \<Rightarrow> string \<Rightarrow> 'st \<Rightarrow> bool \<times> 'st" and rel :: "string \<Rightarrow> string \<Rightarrow> 'st \<Rightarrow> 'st"
  assumes acq_inv: "valid st \<Longrightarrow> valid (snd (acq k tok st))" and rel_inv: "valid st \<Longrightarrow> valid (rel k tok st)"
    and acq_clock: "clock (snd (acq k tok st)) = clock st" and rel_clock: "clock (rel k tok st) = clock st"
    and granted_free: "valid st \<Longrightarrow> fst (acq k tok st) \<Longrightarrow> held st k = Some (t, ex) \<Longrightarrow> ex \<le> clock st"
    and granted_held: "valid st \<Longrightarrow> fst (acq k tok st) \<Longrightarrow> held (snd (acq k tok st)) k = Some (t, ex) \<Longrightarrow> clock st < ex"
    and acq_frame: "valid st \<Longrightarrow> k' \<noteq> k \<or> \<not> fst (acq k tok st) \<Longrightarrow> held (snd (acq k tok st)) k' = held st k'"
    and rel_frame: "valid st \<Longrightarrow> k' \<noteq> k \<Longrightarrow> held (rel k tok st) k' = held st k'"
begin

lemma lock_invD:
  assumes "lock_inv valid clock held (st, hs)"
  shows "valid st" "distinct (map fst hs)" "(j, t, x) \<in> set hs \<Longrightarrow> held st j = Some (t, x) \<and> clock st < x"
  using assms by (auto simp: lock_inv_def)

lemma lock_inv_granted:
  assumes "lock_inv valid clock held (st, hs)" and "acq k tok st = (True, st')" and "held st' k = Some (tok, ex)"
  shows "lock_inv valid clock held (st', (k, tok, ex) # hs)"
proof -
  note i = lock_invD [OF assms(1)]
  from assms(2) have st': "st' = snd (acq k tok st)" and g: "fst (acq k tok st)" by simp_all
  have new: "k \<notin> fst ` set hs"
  proof
    assume "k \<in> fst ` set hs"
    then obtain t x where "(k, t, x) \<in> set hs" by auto
    with i(3) granted_free [OF i(1) g] show False by force
  qed
  have "held st' j = Some (t, x) \<and> clock st' < x" if "(j, t, x) \<in> set hs" for j t x
  proof -
    have "j \<noteq> k" using new that by force
    then show ?thesis using i(3) [OF that] acq_frame [OF i(1), of j k tok] acq_clock by (simp add: st')
  qed
  moreover have "clock st' < ex" using granted_held [OF i(1) g] assms(3) acq_clock by (auto simp: st')
  ultimately show ?thesis using i(1,2) new acq_inv assms(3) by (auto simp: lock_inv_def st')
qed

text \<open>Keys are held once, so that the other holders hold other keys.\<close>

lemma remove1_other_key:
  assumes "distinct (map fst hs)" and "(k, tok, ex) \<in> set hs" and "(j, t, x) \<in> set (remove1 (k, tok, ex) hs)"
  shows "j \<noteq> k"
proof
  assume "j = k"
  have inj: "inj_on fst (set hs)" and d: "distinct hs" using assms(1) unfolding distinct_map by blast+
  from d assms(3) have h: "(j, t, x) \<in> set hs" "(j, t, x) \<noteq> (k, tok, ex)" by auto
  have "fst (j, t, x) = fst (k, tok, ex)" using \<open>j = k\<close> by simp
  from inj_onD [OF inj this h(1) assms(2)] h(2) show False by blast
qed

lemma lock_inv_released:
  assumes "lock_inv valid clock held (st, hs)" and "(k, tok, ex) \<in> set hs"
  shows "lock_inv valid clock held (rel k tok st, remove1 (k, tok, ex) hs)"
proof -
  note i = lock_invD [OF assms(1)]
  have "held (rel k tok st) j = Some (t, x) \<and> clock (rel k tok st) < x" if r: "(j, t, x) \<in> set (remove1 (k, tok, ex) hs)" for j t x
  proof -
    have "(j, t, x) \<in> set hs" using r set_remove1_subset by fastforce
    then show ?thesis using i(3) rel_frame [OF i(1) remove1_other_key [OF i(2) assms(2) r]] rel_clock by auto
  qed
  moreover have "distinct (map fst (remove1 (k, tok, ex) hs))"
    using i(2) by (meson distinct_map distinct_remove1 inj_on_subset set_remove1_subset)
  ultimately show ?thesis using i(1) rel_inv by (auto simp: lock_inv_def)
qed

lemma lock_inv_step:
  assumes "lock_step valid clock held acq rel s s'" and "lock_inv valid clock held s"
  shows "lock_inv valid clock held s'"
  using assms
proof (cases rule: lock_step.cases)
  case (refused k tok st st' hs)
  from refused(3) have "st' = snd (acq k tok st)" "\<not> fst (acq k tok st)" by simp_all
  with assms(2) show ?thesis using acq_inv acq_frame acq_clock by (auto simp: lock_inv_def refused(1,2))
next
  case (passed st' st hs)
  with assms(2) show ?thesis by (auto simp: lock_inv_def)
qed (use assms(2) lock_inv_granted lock_inv_released in blast)+

lemma mutual_exclusion:
  assumes "(lock_step valid clock held acq rel)\<^sup>*\<^sup>* (st0, []) (st, hs)" and "valid st0"
  shows "distinct (map fst hs) \<and> (\<forall>(k, tok, ex) \<in> set hs. held st k = Some (tok, ex) \<and> clock st < ex)"
proof -
  have "lock_inv valid clock held (st, hs)"
    using assms(1)
  proof (induction rule: rtranclp_induct)
    case base
    show ?case using assms(2) by (simp add: lock_inv_def)
  qed (rule lock_inv_step)
  then show ?thesis by (simp add: lock_inv_def)
qed

end

section \<open>The lock in Redis\<close>

definition redis_held :: "stores \<Rightarrow> string \<Rightarrow> (string \<times> time) option" where
  "redis_held st scope =
     (case st_redis st (redisLockKey scope) of Some (RText tok, ex) \<Rightarrow> Some (tok, ex) | _ \<Rightarrow> None)"

definition redis_valid :: "stores \<Rightarrow> bool" where
  "redis_valid st \<longleftrightarrow> (\<forall>scope j ex. st_redis st (redisLockKey scope) \<noteq> Some (RJson j, ex))"

definition redis_acq :: "idem_env \<Rightarrow> duration \<Rightarrow> string \<Rightarrow> string \<Rightarrow> stores \<Rightarrow> bool \<times> stores" where
  "redis_acq I ttl scope tok st =
     (case redis_SetNX I (redisLockKey scope) (RText tok) ttl st of (r, st') \<Rightarrow> (r \<noteq> None, st'))"

definition redis_rel :: "idem_env \<Rightarrow> string \<Rightarrow> string \<Rightarrow> stores \<Rightarrow> stores" where
  "redis_rel I scope tok st = snd (releaseLua I (redisLockKey scope) tok st)"

lemmas redis_lock_defs = redis_held_def redis_valid_def redis_acq_def redis_rel_def redis_SetNX_def redis_put_def
  releaseLua_def redis_live_def redis_clock_def

lemma redis_backend:
  assumes "0 < ttl"
  shows "lock_backend redis_valid (redis_clock I) redis_held (redis_acq I ttl) (redis_rel I)"
proof
  fix st k k' tok t ex
  show "redis_valid st \<Longrightarrow> redis_valid (snd (redis_acq I ttl k tok st))" "redis_valid st \<Longrightarrow> redis_valid (redis_rel I k tok st)"
    "redis_clock I (snd (redis_acq I ttl k tok st)) = redis_clock I st" "redis_clock I (redis_rel I k tok st) = redis_clock I st"
    by (auto simp: redis_lock_defs split: option.splits if_splits)
  show "redis_valid st \<Longrightarrow> fst (redis_acq I ttl k tok st) \<Longrightarrow> redis_held st k = Some (t, ex) \<Longrightarrow> ex \<le> redis_clock I st"
    by (auto simp: redis_lock_defs split: option.splits if_splits redis_val.splits)
  show "redis_valid st \<Longrightarrow> fst (redis_acq I ttl k tok st) \<Longrightarrow> redis_held (snd (redis_acq I ttl k tok st)) k = Some (t, ex) \<Longrightarrow>
      redis_clock I st < ex"
    using assms by (auto simp: redis_lock_defs split: option.splits if_splits redis_val.splits)
  show "redis_valid st \<Longrightarrow> k' \<noteq> k \<or> \<not> fst (redis_acq I ttl k tok st) \<Longrightarrow> redis_held (snd (redis_acq I ttl k tok st)) k' = redis_held st k'"
    "redis_valid st \<Longrightarrow> k' \<noteq> k \<Longrightarrow> redis_held (redis_rel I k tok st) k' = redis_held st k'"
    by (auto simp: redis_lock_defs split: option.splits if_splits)
qed

interpretation redis_lock: lock_backend redis_valid "redis_clock I" redis_held "redis_acq I defaultLockTTL" "redis_rel I" for I
  by (rule redis_backend) (simp add: default_defs)

section \<open>The lease in the table\<close>

definition lease_held :: "stores \<Rightarrow> string \<Rightarrow> (string \<times> time) option" where
  "lease_held st key =
     (case find (\<lambda>row. ik_key row = key) (st_rows st) of
        None \<Rightarrow> None
      | Some row \<Rightarrow>
          if ik_status row = ''in_progress'' then
            (case (ik_lock_token row, ik_lock_expires_at row) of (Some tok, Some ex) \<Rightarrow> Some (tok, ex) | _ \<Rightarrow> None)
          else None)"

definition lease_acq :: "idem_env \<Rightarrow> duration \<Rightarrow> duration \<Rightarrow> string \<Rightarrow> string \<Rightarrow> string \<Rightarrow> string \<Rightarrow> stores \<Rightarrow> bool \<times> stores" where
  "lease_acq I lease ttl path mth key tok st =
     (case acquire_stmt I key path mth tok (pg_now I st + lease) (pg_now I st + ttl) st of (r, st') \<Rightarrow> (\<not> isl r, st'))"

definition lease_rel :: "string \<Rightarrow> string \<Rightarrow> stores \<Rightarrow> stores" where
  "lease_rel key tok st = snd (release_stmt key tok st)"

lemma find_append: "find P (xs @ ys) = (case find P xs of None \<Rightarrow> find P ys | Some x \<Rightarrow> Some x)"
  by (induction xs) simp_all

lemma find_filter_other:
  "(\<And>x. K x \<Longrightarrow> Q x) \<Longrightarrow> find K (filter Q xs) = find K xs"
  by (induction xs) auto

lemma pg_ts_plus: "1000 \<le> d \<Longrightarrow> pg_ts t < pg_ts (pg_ts t + d)"
  using pg_ts_later [of "pg_ts t" "pg_ts t + d"] by simp

lemma find_update_key:
  assumes "\<And>row. ik_key (f row) = ik_key row"
  shows "find (\<lambda>row. ik_key row = j) (sql_update (\<lambda>row. ik_key row = k) f rows) =
    map_option (\<lambda>row. if j = k then f row else row) (find (\<lambda>row. ik_key row = j) rows)"
  using assms by (induction rows) auto

lemma lease_backend:
  assumes "1000 \<le> lease"
  shows "lock_backend (\<lambda>_. True) (pg_now I) lease_held (lease_acq I lease ttl path mth) lease_rel"
proof
  fix st k k' tok t ex
  show "pg_now I (snd (lease_acq I lease ttl path mth k tok st)) = pg_now I st" "pg_now I (lease_rel k tok st) = pg_now I st"
    by (auto simp: lease_acq_def lease_rel_def release_stmt_def acquire_stmt_def pg_now_def split: option.splits)
  show "fst (lease_acq I lease ttl path mth k tok st) \<Longrightarrow> lease_held st k = Some (t, ex) \<Longrightarrow> ex \<le> pg_now I st"
    by (auto simp: lease_acq_def lease_held_def acquire_stmt_def split: option.splits if_splits)
  show "fst (lease_acq I lease ttl path mth k tok st) \<Longrightarrow> lease_held (snd (lease_acq I lease ttl path mth k tok st)) k = Some (t, ex) \<Longrightarrow>
      pg_now I st < ex"
    using pg_ts_plus [OF assms]
    by (auto simp: lease_acq_def lease_held_def acquire_stmt_def find_append find_update_key pg_now_def
        split: option.splits if_splits)
  show "k' \<noteq> k \<or> \<not> fst (lease_acq I lease ttl path mth k tok st) \<Longrightarrow>
      lease_held (snd (lease_acq I lease ttl path mth k tok st)) k' = lease_held st k'"
    by (auto simp: lease_acq_def lease_held_def acquire_stmt_def find_append find_update_key split: option.splits if_splits)
  show "k' \<noteq> k \<Longrightarrow> lease_held (lease_rel k tok st) k' = lease_held st k'"
    by (simp add: lease_held_def lease_rel_def release_stmt_def) (subst find_filter_other; auto)
qed simp_all

interpretation lease_lock: lock_backend "\<lambda>_. True" "pg_now I" lease_held
    "lease_acq I defaultRequestTimeout defaultResponseTTL path mth" lease_rel for I path mth
  by (rule lease_backend) (simp add: default_defs)

section \<open>Mutual exclusion\<close>

text \<open>These commands are the ones that the middleware issues.\<close>

lemma tryAcquireLock_redis:
  assumes "id_redis m" and "ie_rfault I (st_tick st) = None" and "id_lockTTL m = defaultLockTTL"
  shows "tryAcquireLock I m scope key path mth tok st =
    (case redis_acq I defaultLockTTL scope tok (istep I st) of (g, st') \<Rightarrow>
       (Inr (if g then Some \<lparr>lk_kind = ''redis'', lk_key = scope, lk_token = tok, lk_completed = False\<rparr> else None), st'))"
  using assms
  by (simp add: tryAcquireLock_def redis_call_def redis_acq_def redis_SetNX_def Let_def default_defs)

lemma releaseLock_redis:
  assumes "id_redis m" and "ie_rfault I (st_tick st) = None" and "lk_kind h = ''redis''"
  shows "releaseLock I m (Some h) st = redis_rel I (lk_key h) (lk_token h) (istep I st)"
  using assms by (simp add: releaseLock_def redis_call_def redis_rel_def Let_def split: prod.splits)


text \<open>
  C17: the same for the lease on a row of the table, which does the work when Redis does not
  answer: of all requests with a key at most one holds the lease, while leases are released
  or completed before they expire.
\<close>

theorem lease_mutex:
  assumes "(lock_step (\<lambda>_. True) (pg_now I) lease_held (lease_acq I defaultRequestTimeout defaultResponseTTL path mth) lease_rel)\<^sup>*\<^sup>*
      (st0, []) (st, hs)"
  shows "distinct (map fst hs) \<and> (\<forall>(key, tok, ex) \<in> set hs. lease_held st key = Some (tok, ex) \<and> pg_now I st < ex)"
  using lease_lock.mutual_exclusion [OF assms] by simp

lemma two_grants:
  assumes "fst (acq k1 t1 st0)" "held (snd (acq k1 t1 st0)) k1 = Some (t1, e1)"
    "fst (acq k2 t2 (snd (acq k1 t1 st0)))" "held (snd (acq k2 t2 (snd (acq k1 t1 st0)))) k2 = Some (t2, e2)"
  shows "(lock_step valid clock held acq rel)\<^sup>*\<^sup>* (st0, []) (snd (acq k2 t2 (snd (acq k1 t1 st0))), [(k2, t2, e2), (k1, t1, e1)])"
proof -
  have g: "acq k t st = (True, snd (acq k t st))" if "fst (acq k t st)" for k t st using that by (simp add: prod_eq_iff)
  have "lock_step valid clock held acq rel (st0, []) (snd (acq k1 t1 st0), [(k1, t1, e1)])"
    by (rule lock_step.granted) (rule g, rule assms, rule assms)
  moreover have "lock_step valid clock held acq rel (snd (acq k1 t1 st0), [(k1, t1, e1)])
      (snd (acq k2 t2 (snd (acq k1 t1 st0))), [(k2, t2, e2), (k1, t1, e1)])"
    by (rule lock_step.granted) (rule g, rule assms, rule assms)
  ultimately show ?thesis by auto
qed


theorem lease_mutex_witness:
  "\<exists>st e. lease_held st ''a'' = Some (''t'', e) \<and> pg_now quiet st < e"
proof -
  let ?acq = "lease_acq quiet defaultRequestTimeout defaultResponseTTL ''/p'' ''POST''"
  let ?st1 = "snd (?acq ''a'' ''t'' fresh_stores)"
  let ?st2 = "snd (?acq ''b'' ''t'' ?st1)"
  let ?e = "pg_ts defaultRequestTimeout"
  have r: "(lock_step (\<lambda>_. True) (pg_now quiet) lease_held ?acq lease_rel)\<^sup>*\<^sup>* (fresh_stores, []) (?st2, [(''b'', ''t'', ?e), (''a'', ''t'', ?e)])"
    by (rule two_grants) (code_simp+)
  from lease_mutex [OF r] show ?thesis by auto
qed

text \<open>
  Without that condition the exclusion fails, and not only for the request that was too slow:
  the token is the hash of the request, so that a slow request and its retry have the same
  one, and the slow one's release takes the lock away from the retry that holds it.
\<close>

lemma stale_release:
  "let st1 = snd (redis_acq quiet defaultLockTTL ''s'' ''h'' fresh_stores);
       late = st1\<lparr>st_clock := defaultLockTTL\<rparr>;
       (granted, st2) = redis_acq quiet defaultLockTTL ''s'' ''h'' late;
       st3 = redis_rel quiet ''s'' ''h'' st2
   in granted \<and> redis_held st3 ''s'' = None \<and> fst (redis_acq quiet defaultLockTTL ''s'' ''h'' st3)"
  by code_simp

section \<open>Expired responses without Redis\<close>

definition all_expired :: "idem_env \<Rightarrow> string \<Rightarrow> stores \<Rightarrow> bool" where
  "all_expired I key st \<longleftrightarrow> key_rows st key \<noteq> {} \<and>
     (\<forall>row \<in> key_rows st key. ik_status row = ''completed'' \<and> ik_expires_at row \<le> pg_ts (st_clock st))"

lemma all_expired_later: "same_data st st' \<Longrightarrow> all_expired I key st \<Longrightarrow> all_expired I key st'"
  by (auto simp: all_expired_def same_data_def key_rows_def intro: order_trans pg_ts_mono)

lemma expired_lookup:
  assumes "undisturbed I" and "\<not> id_redis m" and "all_expired I key st"
  shows "lookupCachedResponse E I m key st = (Inr None, if id_db m then istep I st else st)"
proof -
  have e: "all_expired I key (istep I st)" using all_expired_later [OF same_data_step [OF assms(1)] assms(3)] .
  then have "find (\<lambda>row. ik_key row = key \<and> ik_status row = ''completed'' \<and> pg_now I (istep I st) < ik_expires_at row)
      (st_rows (istep I st)) = None"
    using assms(1) by (auto simp: find_None_iff all_expired_def key_rows_def undisturbed_call(6) simp del: istep_fields)
  then show ?thesis
    using assms(2) by (simp add: lookupCachedResponse_def undisturbed_call(2) [OF assms(1)] select_completed_def del: istep_fields)
qed

lemma expired_wait:
  "undisturbed I \<Longrightarrow> \<not> id_redis m \<Longrightarrow> all_expired I key st \<Longrightarrow> isl (fst (wait_loop E I m key deadline st))"
proof (induction E I m key deadline st rule: wait_loop.induct)
  case (1 E I m key deadline st)
  let ?st1 = "snd (inow I st)"
  let ?l = "lookupCachedResponse E I m key ?st1"
  have d1: "same_data st ?st1" using same_data_step [OF 1(3)] by (simp add: inow_def Let_def del: istep_fields)
  have e1: "all_expired I key ?st1" using all_expired_later [OF d1 1(5)] .
  note l = expired_lookup [OF 1(3,4) e1, of E]
  have d2: "same_data ?st1 (snd ?l)" using same_data_step [OF 1(3)] by (simp add: l same_data_def del: istep_fields)
  have d3: "same_data (snd ?l) (isleep I (wait_poll m) (snd ?l))"
    using same_data_step [OF 1(3), of "snd ?l"] wait_poll_pos [of m]
    by (simp add: isleep_def Let_def same_data_def del: istep_fields wait_poll_pos)
  have e3: "all_expired I key (isleep I (wait_poll m) (snd ?l))"
    by (rule all_expired_later [OF d3]) (rule all_expired_later [OF d2 e1])
  have f: "fst ?l = Inr None" by (simp add: l)
  show ?case
  proof (cases "fst (inow I st) < deadline \<and> ie_ctx I (st_tick ?st1) = None \<and> ie_timer I (st_tick (snd ?l)) = None")
    case True
    then have "isl (fst (wait_loop E I m key deadline (isleep I (wait_poll m) (snd ?l))))"
      using 1(2) [OF refl _ _ refl f refl] 1(3,4) e3 by simp
    then show ?thesis using True f by (subst wait_loop.simps) (simp add: Let_def)
  next
    case False
    then show ?thesis using f by (subst wait_loop.simps) (auto simp: Let_def split: option.splits)
  qed
qed

text \<open>
  C39: with the database alone, a key whose response has expired is not free again: the row
  stays, the lease statement does not take it over, and every request with the key waits for
  the whole timeout and is refused with 409; the handler never runs for it.
\<close>

theorem expired_key_refused:
  assumes "undisturbed I" and "\<not> id_redis m" "id_db m" and "all_expired I (request_key r) st"
    and "guarded r" and "readAndHashBody I r = Inr (b, h)"
    and "Middleware E I (Some m) (Some next) r (s, st) = (ops, s', st')"
  shows "s' = s \<and> rp_status (response_of ops) = 409"
proof -
  let ?k = "request_key r"
  have look: "lookupCachedResponse E I m ?k st = (Inr None, istep I st)" using expired_lookup [OF assms(1,2,4)] assms(3) by simp
  let ?st3 = "istep I (istep I (istep I (istep I st)))"
  have d: "same_data st ?st3" "same_data st (istep I st)" using same_data_step [OF assms(1)] same_data_trans by blast+
  have e: "all_expired I ?k ?st3" using all_expired_later [OF d(1) assms(4)] .
  then have "find (\<lambda>row. ik_key row = ?k) (st_rows ?st3) \<noteq> None"
    by (auto simp: all_expired_def key_rows_def find_None_iff simp del: istep_fields)
  then obtain row where row: "find (\<lambda>row. ik_key row = ?k) (st_rows ?st3) = Some row" by blast
  then have "row \<in> key_rows ?st3 ?k" by (auto simp: find_Some_iff key_rows_def)
  then have "ik_status row = ''completed''" using e by (auto simp: all_expired_def)
  then have lock: "request_lock I m r h (istep I st) = (Inr None, ?st3)"
    using assms(2,3) row
    by (simp add: request_lock_def tryAcquireLock_def acquire_pg_def inow_def Let_def undisturbed_call(2) [OF assms(1)]
        acquire_stmt_def del: istep_fields)
  have e4: "all_expired I ?k (istep I ?st3)" using all_expired_later [OF same_data_step [OF assms(1)] e] .
  from expired_wait [OF assms(1,2) e4] obtain err st4 where w: "waitForCachedResponse E I m ?k ?st3 = (Inl err, st4)"
    unfolding waitForCachedResponse_def inow_def Let_def by (metis case_prod_conv isl_def prod.collapse)
  from assms(7,5,6) show ?thesis
    by (cases rule: Middleware_cases) (use look lock w in auto)
qed

definition expired_row :: idem_row where
  "expired_row = \<lparr>ik_key = ''k1'', ik_request_path = ''/v1/payments'', ik_request_method = ''POST'', ik_request_hash = ''h'',
     ik_status = ''completed'', ik_lock_token = None, ik_lock_expires_at = None, ik_response_status_code = Some 201,
     ik_response_headers = Some (JObj []), ik_response_body = Some ''ok'', ik_created_at = 0, ik_expires_at = 0\<rparr>"

theorem expired_key_refused_witness:
  "\<exists>ops st'. Middleware steady quiet (NewIdempotency False True) (Some counting) (keyed_post ''x'')
     (7, fresh_stores\<lparr>st_rows := [expired_row]\<rparr>) = (ops, 7, st') \<and> rp_status (response_of ops) = 409"
proof -
  let ?st = "fresh_stores\<lparr>st_rows := [expired_row]\<rparr>"
  define m where "m = the (NewIdempotency False True)"
  have m: "NewIdempotency False True = Some m" "\<not> id_redis m" "id_db m" by (simp_all add: m_def NewIdempotency_def)
  obtain ops s' st' where c: "Middleware steady quiet (Some m) (Some counting) (keyed_post ''x'') (7, ?st) = (ops, s', st')"
    by (metis prod.exhaust)
  have "{row. row = expired_row \<and> ik_key row = ''k1''} = {expired_row}" by (auto simp: expired_row_def)
  then have "all_expired quiet (request_key (keyed_post ''x'')) ?st"
    by (simp add: all_expired_def key_rows_def keyed_ok(4)) (simp add: expired_row_def fresh_stores_def pg_ts_def)
  from expired_key_refused [OF quiet_ok(1) m(2,3) this keyed_ok(2,3) c] c show ?thesis by (auto simp: m(1))
qed

end
