(* ===== verification/Outbox_Repo.thy ===== *)
theory Outbox_Repo
  imports Database
begin

text \<open>
  The outbox repository (\<open>internal/repository/outbox_repo.go\<close>): events are inserted in the
  caller's transaction, claimed in batches by workers, and marked delivered, to be retried, or
  dead. Each SQL statement is one function on the world.
\<close>

section \<open>Insertion\<close>

definition outbox_insert :: "outbox_row \<Rightarrow> world \<Rightarrow> unit result \<times> world" where
  "outbox_insert row w =
     (if ob_id row \<in> ob_id ` set (outbox w) then (Inl (PgError ''23505'' ''duplicate key value''), w)
      else if ob_payment_id row \<notin> pr_id ` set (payments w) then
        (Inl (PgError ''23503'' ''violates foreign key constraint''), w)
      else (Inr (), w\<lparr>outbox := outbox w @ [row]\<rparr>))"

text \<open>The row that \<open>EnqueueTx\<close> sends, with the clock's time for unset times.\<close>

definition outbox_row_of :: "outbox_event \<Rightarrow> time \<Rightarrow> outbox_row" where
  "outbox_row_of e now =
     \<lparr>ob_id = oe_ID e, ob_payment_id = oe_PaymentID e, ob_merchant_id = oe_MerchantID e,
      ob_event_type = oe_EventType e, ob_webhook_url = oe_WebhookURL e, ob_payload = oe_Payload e,
      ob_status = (if oe_Status e = [] then OutboxStatusPending else oe_Status e),
      ob_attempt_count = oe_AttemptCount e,
      ob_next_retry_at = pg_ts (if IsZero (oe_NextRetryAt e) then now else oe_NextRetryAt e),
      ob_last_error = (if oe_LastError e \<noteq> [] then Some (oe_LastError e) else None),
      ob_delivered_at = (if \<not> IsZero (oe_DeliveredAt e) then Some (pg_ts (oe_DeliveredAt e)) else None),
      ob_created_at = pg_ts (if IsZero (oe_CreatedAt e) then now else oe_CreatedAt e),
      ob_updated_at = pg_ts (if IsZero (oe_UpdatedAt e) then now else oe_UpdatedAt e)\<rparr>"

definition EnqueueTx :: "env \<Rightarrow> outbox_event option \<Rightarrow> world \<Rightarrow> unit result \<times> world" where
  "EnqueueTx E ev w =
     (case ev of
        None \<Rightarrow> (Inl (OtherError ''outbox event is nil''), w)
      | Some e \<Rightarrow>
          if oe_ID e = uuid_Nil then (Inl (OtherError ''outbox event id is required''), w)
          else (case Now E w of (now, w1) \<Rightarrow> db_call E (outbox_insert (outbox_row_of e now)) w1))"

section \<open>Claiming and counting\<close>

definition scanOutboxEvent :: "outbox_row \<Rightarrow> outbox_event" where
  "scanOutboxEvent r =
     \<lparr>oe_ID = ob_id r, oe_PaymentID = ob_payment_id r, oe_MerchantID = ob_merchant_id r,
      oe_EventType = ob_event_type r, oe_WebhookURL = ob_webhook_url r, oe_Payload = ob_payload r,
      oe_Status = ob_status r,
      oe_LastError = (case ob_last_error r of Some s \<Rightarrow> s | None \<Rightarrow> []),
      oe_AttemptCount = ob_attempt_count r, oe_NextRetryAt = ob_next_retry_at r,
      oe_DeliveredAt = (case ob_delivered_at r of Some t \<Rightarrow> t | None \<Rightarrow> zero_time),
      oe_CreatedAt = ob_created_at r, oe_UpdatedAt = ob_updated_at r\<rparr>"

text \<open>
  The common table expression \<open>due\<close>: pending rows whose time has come and that no other
  transaction has locked (\<open>SKIP LOCKED\<close>), in the order of their next attempt, up to the limit.
\<close>

definition is_due :: "time \<Rightarrow> outbox_row \<Rightarrow> bool" where
  "is_due now r \<longleftrightarrow> ob_status r = ''PENDING'' \<and> ob_next_retry_at r \<le> now"

definition due_rows :: "env \<Rightarrow> nat \<Rightarrow> world \<Rightarrow> outbox_row list" where
  "due_rows E limit w =
     take limit (sort_key ob_next_retry_at
       (filter (\<lambda>r. is_due (db_now E w) r \<and> \<not> locked_at E (tick w) (ob_id r)) (outbox w)))"

definition mark_claimed :: "time \<Rightarrow> outbox_row \<Rightarrow> outbox_row" where
  "mark_claimed now r = r\<lparr>ob_status := ''PROCESSING'', ob_updated_at := now\<rparr>"

definition claim_stmt :: "env \<Rightarrow> nat \<Rightarrow> world \<Rightarrow> outbox_event list result \<times> world" where
  "claim_stmt E limit w =
     (let due = due_rows E limit w; now = db_now E w in
      (Inr (map (scanOutboxEvent \<circ> mark_claimed now) due),
       w\<lparr>outbox := sql_update (\<lambda>r. ob_id r \<in> ob_id ` set due) (mark_claimed now) (outbox w)\<rparr>))"

definition ClaimBatch :: "env \<Rightarrow> int \<Rightarrow> world \<Rightarrow> outbox_event list result \<times> world" where
  "ClaimBatch E limit0 w =
     (let limit = (if limit0 \<le> 0 then 1 else limit0) in db_call E (claim_stmt E (nat limit)) w)"

definition CountPending :: "env \<Rightarrow> world \<Rightarrow> int result \<times> world" where
  "CountPending E w =
     db_call E (\<lambda>w. (Inr (int (sql_count (\<lambda>r. ob_status r = ''PENDING'') (outbox w))), w)) w"

section \<open>Reclaiming\<close>

text \<open>\<open>Duration.Microseconds\<close> truncates; the threshold is a whole number of microseconds.\<close>

definition is_stale :: "time \<Rightarrow> int \<Rightarrow> outbox_row \<Rightarrow> bool" where
  "is_stale now micros r \<longleftrightarrow> ob_status r = ''PROCESSING'' \<and> ob_updated_at r < now - micros * 1000"

definition reclaim_stmt :: "env \<Rightarrow> int \<Rightarrow> world \<Rightarrow> int result \<times> world" where
  "reclaim_stmt E micros w =
     (let now = db_now E w in
      (Inr (int (sql_count (is_stale now micros) (outbox w))),
       w\<lparr>outbox := sql_update (is_stale now micros)
           (\<lambda>r. r\<lparr>ob_status := ''PENDING'', ob_next_retry_at := now, ob_updated_at := now\<rparr>) (outbox w)\<rparr>))"

definition ReclaimStaleProcessing :: "env \<Rightarrow> duration \<Rightarrow> world \<Rightarrow> int result \<times> world" where
  "ReclaimStaleProcessing E staleAfter w =
     (if staleAfter \<le> 0 then (Inl (OtherError ''staleAfter must be positive''), w)
      else let micros = staleAfter div 1000 in db_call E (reclaim_stmt E micros) w)"

section \<open>Marking\<close>

text \<open>An \<open>UPDATE ... WHERE id = $1 AND status = 'PROCESSING'\<close> and its row count.\<close>

definition mark_stmt :: "uuid \<Rightarrow> (outbox_row \<Rightarrow> outbox_row) \<Rightarrow> world \<Rightarrow> nat result \<times> world" where
  "mark_stmt i f w =
     (let P = (\<lambda>r. ob_id r = i \<and> ob_status r = OutboxStatusProcessing) in
      (Inr (sql_count P (outbox w)), w\<lparr>outbox := sql_update P f (outbox w)\<rparr>))"

definition rows_or_not_found :: "nat result \<times> world \<Rightarrow> unit result \<times> world" where
  "rows_or_not_found res =
     (case res of
        (Inl e, w) \<Rightarrow> (Inl e, w)
      | (Inr n, w) \<Rightarrow> if n = 0 then (Inl (Sentinel ErrOutboxEventNotFound), w) else (Inr (), w))"

definition set_delivered :: "time \<Rightarrow> outbox_row \<Rightarrow> outbox_row" where
  "set_delivered now r = r\<lparr>ob_status := OutboxStatusDelivered, ob_delivered_at := Some now,
     ob_last_error := None, ob_updated_at := now\<rparr>"

definition set_retry :: "time \<Rightarrow> time \<Rightarrow> string \<Rightarrow> outbox_row \<Rightarrow> outbox_row" where
  "set_retry now nextAt lastErr r = r\<lparr>ob_status := OutboxStatusPending,
     ob_attempt_count := ob_attempt_count r + 1, ob_next_retry_at := pg_ts nextAt,
     ob_last_error := Some lastErr, ob_updated_at := now\<rparr>"

definition set_dead :: "time \<Rightarrow> string \<Rightarrow> outbox_row \<Rightarrow> outbox_row" where
  "set_dead now lastErr r = r\<lparr>ob_status := OutboxStatusDead, ob_last_error := Some lastErr, ob_updated_at := now\<rparr>"

definition MarkDelivered :: "env \<Rightarrow> uuid \<Rightarrow> world \<Rightarrow> unit result \<times> world" where
  "MarkDelivered E i w = rows_or_not_found (db_call E (\<lambda>w. mark_stmt i (set_delivered (db_now E w)) w) w)"

definition MarkRetry :: "env \<Rightarrow> uuid \<Rightarrow> time \<Rightarrow> string \<Rightarrow> world \<Rightarrow> unit result \<times> world" where
  "MarkRetry E i nextAt lastErr w =
     rows_or_not_found (db_call E (\<lambda>w. mark_stmt i (set_retry (db_now E w) nextAt lastErr) w) w)"

definition MarkDead :: "env \<Rightarrow> uuid \<Rightarrow> string \<Rightarrow> world \<Rightarrow> unit result \<times> world" where
  "MarkDead E i lastErr w =
     rows_or_not_found (db_call E (\<lambda>w. mark_stmt i (set_dead (db_now E w) lastErr) w) w)"

lemmas outbox_set_defs = set_delivered_def set_retry_def set_dead_def mark_claimed_def

section \<open>The life of an event\<close>

text \<open>What a statement may do to one row.\<close>

inductive row_step :: "outbox_row \<Rightarrow> outbox_row \<Rightarrow> bool" where
  claim: "ob_status r = OutboxStatusPending \<Longrightarrow> row_step r (mark_claimed now r)"
| reclaim: "ob_status r = OutboxStatusProcessing \<Longrightarrow>
    row_step r (r\<lparr>ob_status := OutboxStatusPending, ob_next_retry_at := now, ob_updated_at := now\<rparr>)"
| delivered: "ob_status r = OutboxStatusProcessing \<Longrightarrow> row_step r (set_delivered now r)"
| retry: "ob_status r = OutboxStatusProcessing \<Longrightarrow> row_step r (set_retry now nextAt lastErr r)"
| dead: "ob_status r = OutboxStatusProcessing \<Longrightarrow> row_step r (set_dead now lastErr r)"

inductive_cases row_stepE: "row_step r r'"

text \<open>The columns that say what the event is.\<close>

definition event_of :: "outbox_row \<Rightarrow> uuid \<times> uuid \<times> uuid \<times> string \<times> string \<times> json" where
  "event_of r = (ob_id r, ob_payment_id r, ob_merchant_id r, ob_event_type r, ob_webhook_url r, ob_payload r)"

lemma row_step_event: "row_step r r' \<Longrightarrow> event_of r' = event_of r \<and> ob_attempt_count r \<le> ob_attempt_count r'"
  by (auto elim!: row_stepE simp: outbox_set_defs event_of_def)

lemma row_steps_event: "row_step\<^sup>*\<^sup>* r r' \<Longrightarrow> event_of r' = event_of r \<and> ob_attempt_count r \<le> ob_attempt_count r'"
  by (induction rule: rtranclp_induct) (auto dest: row_step_event)

lemma row_steps_final:
  assumes "row_step\<^sup>*\<^sup>* r r'" and "ob_status r = OutboxStatusDelivered \<or> ob_status r = OutboxStatusDead"
  shows "r' = r"
proof -
  have "\<not> row_step r s" for s using assms(2) by (auto elim: row_stepE)
  then show ?thesis using assms(1) by (metis converse_rtranclpE)
qed

text \<open>Rows are appended or moved along their life, never removed.\<close>

definition rows_evolve :: "outbox_row list \<Rightarrow> outbox_row list \<Rightarrow> bool" where
  "rows_evolve t t' \<longleftrightarrow> length t \<le> length t' \<and> (\<forall>k < length t. row_step\<^sup>*\<^sup>* (t ! k) (t' ! k))"

lemma rows_evolve_refl [simp]: "rows_evolve t t"
  by (simp add: rows_evolve_def)

lemma rows_evolve_trans: "rows_evolve t u \<Longrightarrow> rows_evolve u v \<Longrightarrow> rows_evolve t v"
  unfolding rows_evolve_def by (meson le_trans order_less_le_trans rtranclp_trans)

lemma rows_evolve_append: "rows_evolve t (t @ u)"
  by (simp add: rows_evolve_def nth_append)

lemma rows_evolve_update: "(\<And>r. r \<in> set t \<Longrightarrow> P r \<Longrightarrow> row_step r (f r)) \<Longrightarrow> rows_evolve t (sql_update P f t)"
  by (auto simp: rows_evolve_def sql_update_def)

lemma rows_evolve_row:
  assumes "rows_evolve t t'" and "r \<in> set t"
  obtains r' where "r' \<in> set t'" "row_step\<^sup>*\<^sup>* r r'"
proof -
  obtain k where "k < length t" "r = t ! k" using assms(2) by (metis in_set_conv_nth)
  with assms(1) that [of "t' ! k"] show thesis by (auto simp: rows_evolve_def)
qed

lemma rows_evolve_ids: "rows_evolve t t' \<Longrightarrow> map ob_id t = map ob_id (take (length t) t')"
  by (rule nth_equalityI) (auto simp: rows_evolve_def event_of_def dest!: row_steps_event)

text \<open>The statements of all processes, in the order in which the database runs them.\<close>

datatype outbox_op =
    OpEnqueue outbox_event
  | OpClaim int
  | OpReclaim duration
  | OpDelivered uuid
  | OpRetry uuid time string
  | OpDead uuid string

fun run_op :: "env \<Rightarrow> outbox_op \<Rightarrow> world \<Rightarrow> world" where
  "run_op E (OpEnqueue e) w = snd (EnqueueTx E (Some e) w)"
| "run_op E (OpClaim n) w = snd (ClaimBatch E n w)"
| "run_op E (OpReclaim d) w = snd (ReclaimStaleProcessing E d w)"
| "run_op E (OpDelivered i) w = snd (MarkDelivered E i w)"
| "run_op E (OpRetry i t msg) w = snd (MarkRetry E i t msg w)"
| "run_op E (OpDead i msg) w = snd (MarkDead E i msg w)"

definition run_ops :: "env \<Rightarrow> outbox_op list \<Rightarrow> world \<Rightarrow> world" where
  "run_ops E ops w = fold (run_op E) ops w"

lemma run_ops_simps [simp]: "run_ops E [] w = w" "run_ops E (x # xs) w = run_ops E xs (run_op E x w)"
  by (simp_all add: run_ops_def)

text \<open>A call leaves the outbox as it was or does what its statement does.\<close>

lemma db_call_outbox:
  obtains "outbox (snd (db_call E stmt w)) = outbox w"
  | "outbox (snd (db_call E stmt w)) = outbox (snd (stmt (tickw w)))"
  by (cases rule: db_call_cases [of E stmt w]) auto

lemma snd_rows_or_not_found [simp]: "snd (rows_or_not_found res) = snd res"
  by (auto simp: rows_or_not_found_def split: prod.splits sum.splits)

lemma due_rows_subset: "r \<in> set (due_rows E n w) \<Longrightarrow>
    r \<in> set (outbox w) \<and> is_due (db_now E w) r \<and> \<not> locked_at E (tick w) (ob_id r)"
  by (auto simp: due_rows_def dest!: in_set_takeD)

lemma id_unique: "distinct (map ob_id t) \<Longrightarrow> r \<in> set t \<Longrightarrow> s \<in> set t \<Longrightarrow> ob_id r = ob_id s \<Longrightarrow> r = s"
  by (metis distinct_map inj_onD)

lemma due_ids:
  assumes "distinct (map ob_id (outbox w))" and "r \<in> set (outbox w)"
  shows "ob_id r \<in> ob_id ` set (due_rows E n w) \<longleftrightarrow> r \<in> set (due_rows E n w)"
proof
  assume "ob_id r \<in> ob_id ` set (due_rows E n w)"
  then obtain s where "s \<in> set (due_rows E n w)" "ob_id r = ob_id s" by blast
  with assms due_rows_subset [of s E n w] id_unique [of "outbox w" r s] show "r \<in> set (due_rows E n w)"
    by simp
qed simp

lemma mark_evolve:
  assumes "\<And>r. ob_status r = OutboxStatusProcessing \<Longrightarrow> row_step r (f r)"
  shows "rows_evolve (outbox w) (outbox (snd (mark_stmt i f w)))"
  using assms by (auto simp: mark_stmt_def Let_def intro!: rows_evolve_update)

lemma claim_evolve:
  assumes "distinct (map ob_id (outbox w))"
  shows "rows_evolve (outbox w) (outbox (snd (claim_stmt E n w)))"
proof -
  have "row_step r (mark_claimed now r)"
    if "r \<in> set (outbox w)" "ob_id r \<in> ob_id ` set (due_rows E n w)" for r now
  proof (rule row_step.claim)
    have "r \<in> set (due_rows E n w)" using due_ids [OF assms that(1)] that(2) by blast
    then show "ob_status r = OutboxStatusPending"
      using due_rows_subset [of r E n w] by (simp add: is_due_def OutboxStatusPending_def)
  qed
  then show ?thesis by (simp add: claim_stmt_def Let_def rows_evolve_update)
qed

lemma reclaim_evolve: "rows_evolve (outbox w) (outbox (snd (reclaim_stmt E n w)))"
  using row_step.reclaim unfolding outbox_status_defs
  by (auto simp: reclaim_stmt_def Let_def is_stale_def intro!: rows_evolve_update)

lemma enqueue_evolve: "outbox v = outbox w \<Longrightarrow> rows_evolve (outbox w) (outbox (snd (outbox_insert row v)))"
  by (simp add: outbox_insert_def rows_evolve_append)

lemma db_call_outbox_inv:
  assumes "P (outbox w)" and "P (outbox (snd (stmt (tickw w))))"
  shows "P (outbox (snd (db_call E stmt w)))"
  using assms by (cases rule: db_call_outbox [of E stmt w]) auto

lemmas run_op_defs = EnqueueTx_def Now_def ClaimBatch_def ReclaimStaleProcessing_def
  MarkDelivered_def MarkRetry_def MarkDead_def

text \<open>
  What an operation leaves true of the outbox follows from what its statement leaves true.
\<close>

lemma run_op_inv:
  assumes "P (outbox w)"
    and "\<And>e now v. op = OpEnqueue e \<Longrightarrow> outbox v = outbox w \<Longrightarrow>
      P (outbox (snd (outbox_insert (outbox_row_of e now) v)))"
    and "\<And>l n. op = OpClaim l \<Longrightarrow> P (outbox (snd (claim_stmt E n (tickw w))))"
    and "\<And>d m. op = OpReclaim d \<Longrightarrow> P (outbox (snd (reclaim_stmt E m (tickw w))))"
    and "\<And>i now. op = OpDelivered i \<Longrightarrow> P (outbox (snd (mark_stmt i (set_delivered now) (tickw w))))"
    and "\<And>i t m now. op = OpRetry i t m \<Longrightarrow> P (outbox (snd (mark_stmt i (set_retry now t m) (tickw w))))"
    and "\<And>i m now. op = OpDead i m \<Longrightarrow> P (outbox (snd (mark_stmt i (set_dead now m) (tickw w))))"
  shows "P (outbox (run_op E op w))"
proof (cases op)
  case (OpEnqueue e)
  have "P (outbox (snd (db_call E (outbox_insert (outbox_row_of e (time_at E (tick w)))) (tickw w))))"
    by (rule db_call_outbox_inv) (simp_all add: assms(1) assms(2) [OF OpEnqueue])
  with assms(1) show ?thesis by (simp add: OpEnqueue EnqueueTx_def Now_def)
next
  case (OpClaim n)
  show ?thesis using assms(3) [OF OpClaim] assms(1) by (simp add: OpClaim run_op_defs db_call_outbox_inv)
next
  case (OpReclaim d)
  show ?thesis using assms(4) [OF OpReclaim] assms(1)
    by (simp add: OpReclaim run_op_defs db_call_outbox_inv Let_def)
next
  case (OpDelivered i)
  show ?thesis using assms(5) [OF OpDelivered] assms(1)
    by (simp add: OpDelivered run_op_defs db_call_outbox_inv)
next
  case (OpRetry i t m)
  show ?thesis using assms(6) [OF OpRetry] assms(1) by (simp add: OpRetry run_op_defs db_call_outbox_inv)
next
  case (OpDead i m)
  show ?thesis using assms(7) [OF OpDead] assms(1) by (simp add: OpDead run_op_defs db_call_outbox_inv)
qed

lemma run_op_evolve:
  assumes "distinct (map ob_id (outbox w))"
  shows "rows_evolve (outbox w) (outbox (run_op E op w))"
proof (rule run_op_inv [where P = "rows_evolve (outbox w)"])
  show "rows_evolve (outbox w) (outbox (snd (claim_stmt E n (tickw w))))" for n
    using claim_evolve [of "tickw w" E n] assms by simp
  show "rows_evolve (outbox w) (outbox (snd (reclaim_stmt E n (tickw w))))" for n
    using reclaim_evolve [of "tickw w" E n] by simp
qed (use mark_evolve [where w = "tickw w"] row_step.intros in \<open>simp_all add: enqueue_evolve\<close>)

lemma stmt_ids [simp]:
  "map ob_id (outbox (snd (claim_stmt E n w))) = map ob_id (outbox w)"
  "map ob_id (outbox (snd (reclaim_stmt E m w))) = map ob_id (outbox w)"
  "(\<And>r. ob_id (f r) = ob_id r) \<Longrightarrow> map ob_id (outbox (snd (mark_stmt i f w))) = map ob_id (outbox w)"
  by (simp_all add: claim_stmt_def reclaim_stmt_def mark_stmt_def Let_def sql_update_keys mark_claimed_def)

lemma run_op_distinct:
  assumes "distinct (map ob_id (outbox w))"
  shows "distinct (map ob_id (outbox (run_op E op w)))"
  using assms
  by (intro run_op_inv [where P = "\<lambda>t. distinct (map ob_id t)"])
    (auto simp: outbox_insert_def outbox_set_defs)

lemma run_ops_evolve:
  assumes "distinct (map ob_id (outbox w))"
  shows "rows_evolve (outbox w) (outbox (run_ops E ops w)) \<and> distinct (map ob_id (outbox (run_ops E ops w)))"
  using assms
proof (induction ops arbitrary: w)
  case (Cons x xs)
  with run_op_distinct [of w E x] run_op_evolve [of w E x] show ?case
    by (auto intro: rows_evolve_trans)
qed simp

text \<open>
  C26: whatever the sequence of outbox statements run by any number of workers and whatever
  faults hit them, an event in the outbox stays there with the same identity, payment,
  merchant, type, URL and payload, its attempt count never goes down, and once it is delivered
  or dead its row never changes again.
\<close>

theorem outbox_lifecycle:
  assumes "distinct (map ob_id (outbox w))" and "r \<in> set (outbox w)"
  shows "\<exists>r' \<in> set (outbox (run_ops E ops w)). event_of r' = event_of r \<and>
    ob_attempt_count r \<le> ob_attempt_count r' \<and>
    (ob_status r = OutboxStatusDelivered \<or> ob_status r = OutboxStatusDead \<longrightarrow> r' = r)"
proof -
  obtain r' where "r' \<in> set (outbox (run_ops E ops w))" "row_step\<^sup>*\<^sup>* r r'"
    using run_ops_evolve [OF assms(1)] assms(2) rows_evolve_row by blast
  then show ?thesis using row_steps_event row_steps_final by blast
qed

text \<open>What a limit leaves out comes after what it takes, and only when the limit is used up.\<close>

lemma take_sort_key_rest:
  assumes "r \<in> set xs" and "r \<notin> set (take n (sort_key k xs))"
  shows "length (take n (sort_key k xs)) = n \<and> (\<forall>x \<in> set (take n (sort_key k xs)). k x \<le> k r)"
proof -
  let ?ys = "sort_key k xs"
  have r: "r \<in> set (drop n ?ys)"
    using assms by (metis append_take_drop_id in_set_conv_decomp set_sort Un_iff set_append)
  then have "n \<le> length ?ys" by (cases "n \<le> length ?ys") auto
  moreover have "k x \<le> k r" if "x \<in> set (take n ?ys)" for x
  proof -
    have "sorted (map k (take n ?ys) @ map k (drop n ?ys))"
      using sorted_sort_key [of k xs] by (metis append_take_drop_id map_append)
    then show ?thesis using that r by (auto simp: sorted_append)
  qed
  ultimately show ?thesis by simp
qed

lemma ClaimBatch_success:
  assumes "ClaimBatch E n w = (Inr es, w')"
  shows "es = map (scanOutboxEvent \<circ> mark_claimed (db_now E (tickw w)))
      (due_rows E (nat (max 1 n)) (tickw w)) \<and>
    w' = (tickw w)\<lparr>outbox := sql_update (\<lambda>r. ob_id r \<in> ob_id ` set (due_rows E (nat (max 1 n)) (tickw w)))
      (mark_claimed (db_now E (tickw w))) (outbox w)\<rparr>"
proof -
  have limit: "nat (if n \<le> 0 then 1 else n) = nat (max 1 n)" by auto
  show ?thesis
    using assms
    by (cases rule: db_call_cases [of E "claim_stmt E (nat (max 1 n))" w])
      (simp_all add: ClaimBatch_def Let_def limit claim_stmt_def)
qed

lemma oe_ID_claimed [simp]: "oe_ID (scanOutboxEvent (mark_claimed now r)) = ob_id r"
  "oe_NextRetryAt (scanOutboxEvent (mark_claimed now r)) = ob_next_retry_at r"
  by (simp_all add: scanOutboxEvent_def mark_claimed_def)

lemma mark_claimed_fields [simp]:
  "ob_id (mark_claimed now r) = ob_id r" "ob_status (mark_claimed now r) = OutboxStatusProcessing"
  by (simp_all add: mark_claimed_def OutboxStatusProcessing_def)

lemma claimed_ids: "oe_ID ` set (map (scanOutboxEvent \<circ> mark_claimed now) rs) = ob_id ` set rs"
  by force

lemma distinct_due: "distinct (map ob_id (outbox w)) \<Longrightarrow> distinct (map ob_id (due_rows E n w))"
  unfolding due_rows_def take_map [symmetric]
  by (rule distinct_take) (simp add: distinct_map inj_on_subset [of ob_id "set (outbox w)"])

text \<open>
  C14: a batch that \<open>ClaimBatch\<close> returns holds at most the limit's number of events (one for
  a limit that is not positive), no event twice. Each was pending and due at the database's
  time, and is now processing; no other row has changed. A due event that nobody had locked
  and that is not in the batch was left out because the batch is full, and no event of the
  batch is due later than it.
\<close>

theorem claim_batch:
  assumes "distinct (map ob_id (outbox w))" and "ClaimBatch E n w = (Inr es, w')"
  shows "length es \<le> nat (max 1 n) \<and> distinct (map oe_ID es) \<and>
    (\<forall>e \<in> set es. \<exists>r \<in> set (outbox w). e = scanOutboxEvent (mark_claimed (db_now E (tickw w)) r) \<and>
       ob_status r = OutboxStatusPending \<and> ob_next_retry_at r \<le> db_now E (tickw w)) \<and>
    outbox w' = map (\<lambda>r. if ob_id r \<in> oe_ID ` set es then mark_claimed (db_now E (tickw w)) r else r) (outbox w) \<and>
    (\<forall>r \<in> set (outbox w). ob_status r = OutboxStatusPending \<longrightarrow> ob_next_retry_at r \<le> db_now E (tickw w) \<longrightarrow>
       \<not> locked_at E (Suc (tick w)) (ob_id r) \<longrightarrow> ob_id r \<notin> oe_ID ` set es \<longrightarrow>
       length es = nat (max 1 n) \<and> (\<forall>e \<in> set es. oe_NextRetryAt e \<le> ob_next_retry_at r))"
proof -
  let ?now = "db_now E (tickw w)" and ?due = "due_rows E (nat (max 1 n)) (tickw w)"
  have es: "es = map (scanOutboxEvent \<circ> mark_claimed ?now) ?due"
    and w': "outbox w' = sql_update (\<lambda>r. ob_id r \<in> ob_id ` set ?due) (mark_claimed ?now) (outbox w)"
    using ClaimBatch_success [OF assms(2)] by simp_all
  have "length es \<le> nat (max 1 n)" by (simp add: es due_rows_def)
  moreover have "distinct (map oe_ID es)"
    using distinct_due [of "tickw w"] assms(1) by (simp add: es comp_def)
  moreover have "\<exists>r \<in> set (outbox w). e = scanOutboxEvent (mark_claimed ?now r) \<and>
      ob_status r = OutboxStatusPending \<and> ob_next_retry_at r \<le> ?now" if "e \<in> set es" for e
  proof -
    obtain r where "r \<in> set ?due" "e = scanOutboxEvent (mark_claimed ?now r)" using \<open>e \<in> set es\<close> es by auto
    then show ?thesis
      using due_rows_subset [of r E "nat (max 1 n)" "tickw w"] by (auto simp: is_due_def OutboxStatusPending_def)
  qed
  moreover have "outbox w' = map (\<lambda>r. if ob_id r \<in> oe_ID ` set es then mark_claimed ?now r else r) (outbox w)"
    unfolding w' es claimed_ids sql_update_def ..
  moreover have "length es = nat (max 1 n) \<and> (\<forall>e \<in> set es. oe_NextRetryAt e \<le> ob_next_retry_at r)"
    if r: "r \<in> set (outbox w)" "ob_status r = OutboxStatusPending" "ob_next_retry_at r \<le> ?now"
      "\<not> locked_at E (Suc (tick w)) (ob_id r)" "ob_id r \<notin> oe_ID ` set es" for r
  proof -
    have "r \<notin> set ?due" using r(5) unfolding es claimed_ids by blast
    then have "length ?due = nat (max 1 n) \<and> (\<forall>x \<in> set ?due. ob_next_retry_at x \<le> ob_next_retry_at r)"
      unfolding due_rows_def using r
      by (intro take_sort_key_rest) (simp_all add: is_due_def OutboxStatusPending_def)
    then show ?thesis unfolding es by simp
  qed
  ultimately show ?thesis by blast
qed

text \<open>One pending event that is due, for concrete runs.\<close>

definition sample_row :: outbox_row where
  "sample_row = \<lparr>ob_id = 7, ob_payment_id = 1, ob_merchant_id = 2, ob_event_type = EventPaymentSuccess,
     ob_webhook_url = ''http://m'', ob_payload = JObj [], ob_status = ''PENDING'', ob_attempt_count = 0,
     ob_next_retry_at = 0, ob_last_error = None, ob_delivered_at = None, ob_created_at = 0, ob_updated_at = 0\<rparr>"

definition sample_outbox :: world where
  "sample_outbox = empty_world\<lparr>outbox := [sample_row]\<rparr>"

lemmas sample_outbox_simps = sample_outbox_def sample_row_def empty_world_def steady_def tickw_def
  outbox_status_defs

theorem outbox_lifecycle_witness:
  "\<exists>r' \<in> set (outbox (run_ops steady [OpClaim 5, OpDelivered 7, OpReclaim 1] sample_outbox)).
     event_of r' = event_of sample_row \<and> 0 \<le> ob_attempt_count r'"
proof -
  have "distinct (map ob_id (outbox sample_outbox))" and "sample_row \<in> set (outbox sample_outbox)"
    by (simp_all add: sample_outbox_def)
  from outbox_lifecycle [OF this, of steady "[OpClaim 5, OpDelivered 7, OpReclaim 1]"]
  show ?thesis by (auto simp: sample_row_def)
qed

theorem claim_batch_witness:
  "\<exists>es w'. ClaimBatch steady 5 sample_outbox = (Inr es, w') \<and> length es = 1 \<and> distinct (map oe_ID es)"
proof -
  obtain es w' where c: "ClaimBatch steady 5 sample_outbox = (Inr es, w')" "length es = 1"
    by (simp add: ClaimBatch_def db_call_def claim_stmt_def due_rows_def is_due_def db_now_def pg_ts_def
        sample_outbox_simps)
  moreover have "distinct (map ob_id (outbox sample_outbox))" by (simp add: sample_outbox_def)
  ultimately show ?thesis using claim_batch [of sample_outbox steady 5 es w'] by blast
qed

text \<open>Rows of event \<open>i\<close> that are not pending stay so unless they are reclaimed or retried.\<close>

definition held :: "uuid \<Rightarrow> outbox_row list \<Rightarrow> bool" where
  "held i t \<longleftrightarrow> i \<in> ob_id ` set t \<and> (\<forall>r \<in> set t. ob_id r = i \<longrightarrow> ob_status r \<noteq> OutboxStatusPending)"

fun gives_back :: "uuid \<Rightarrow> outbox_op \<Rightarrow> bool" where
  "gives_back i (OpReclaim d) = True"
| "gives_back i (OpRetry j t msg) = (i = j)"
| "gives_back i _ = False"

lemma held_update:
  assumes "held i t" and "\<And>r. P r \<Longrightarrow> ob_id (f r) = ob_id r"
    and "\<And>r. P r \<Longrightarrow> ob_id r = i \<Longrightarrow> ob_status (f r) \<noteq> OutboxStatusPending"
  shows "held i (sql_update P f t)"
proof -
  have "ob_id ` set (sql_update P f t) = ob_id ` set t"
    using sql_update_keys [of P ob_id f t] assms(2) by (metis list.set_map)
  moreover have "ob_status r \<noteq> OutboxStatusPending" if r: "r \<in> set (sql_update P f t)" "ob_id r = i" for r
  proof -
    obtain s where s: "s \<in> set t" "r = (if P s then f s else s)" using r(1) set_sql_update [of r P f t] by blast
    show ?thesis using assms s r(2) by (cases "P s") (auto simp: held_def)
  qed
  ultimately show ?thesis using assms(1) by (simp add: held_def)
qed

lemma run_op_held:
  assumes "held i (outbox w)" and "\<not> gives_back i op"
  shows "held i (outbox (run_op E op w))"
proof (rule run_op_inv [where P = "held i"])
  show "held i (outbox (snd (outbox_insert row v)))" if "outbox v = outbox w" for row v
    using assms(1) that by (auto simp: outbox_insert_def held_def)
  show "held i (outbox (snd (claim_stmt E n (tickw w))))" for n
    using assms(1) by (auto simp: claim_stmt_def Let_def mark_claimed_def outbox_status_defs intro!: held_update)
  show "held i (outbox (snd (mark_stmt j (set_retry now t m) (tickw w))))" if "op = OpRetry j t m" for j t m now
    using assms that by (auto simp: mark_stmt_def Let_def set_retry_def intro!: held_update)
qed (use assms in \<open>auto simp: mark_stmt_def Let_def set_delivered_def set_dead_def intro!: held_update\<close>)

lemma run_ops_held:
  assumes "held i (outbox w)" and "\<forall>op \<in> set ops. \<not> gives_back i op"
  shows "held i (outbox (run_ops E ops w))"
  using assms by (induction ops arbitrary: w) (auto simp: run_op_held)

lemma claim_ids:
  assumes "ClaimBatch E n w = (Inr es, w')"
  shows "oe_ID ` set es = ob_id ` set (due_rows E (nat (max 1 n)) (tickw w))"
  using ClaimBatch_success [OF assms] claimed_ids by (simp only:)

lemma claim_not_held:
  assumes "ClaimBatch E n w = (Inr es, w')" and "held i (outbox w)"
  shows "i \<notin> oe_ID ` set es"
proof
  assume "i \<in> oe_ID ` set es"
  then obtain r where "r \<in> set (due_rows E (nat (max 1 n)) (tickw w))" "ob_id r = i"
    unfolding claim_ids [OF assms(1)] by blast
  then show False
    using due_rows_subset [of r E "nat (max 1 n)" "tickw w"] assms(2) by (auto simp: is_due_def held_def OutboxStatusPending_def)
qed

lemma claim_holds:
  assumes "ClaimBatch E n w = (Inr es, w')" and "i \<in> oe_ID ` set es"
  shows "held i (outbox w')"
proof -
  let ?due = "due_rows E (nat (max 1 n)) (tickw w)"
  have i: "i \<in> ob_id ` set ?due" using assms(2) unfolding claim_ids [OF assms(1)] .
  then obtain s where "s \<in> set ?due" "i = ob_id s" by blast
  then have "i \<in> ob_id ` set (outbox w)" using due_rows_subset [of s E "nat (max 1 n)" "tickw w"] by simp
  moreover have "ob_id ` set (outbox w') = ob_id ` set (outbox w)"
  proof -
    have "outbox w' = outbox (snd (claim_stmt E (nat (max 1 n)) (tickw w)))"
      using ClaimBatch_success [OF assms(1)] by (simp add: claim_stmt_def Let_def)
    then have "map ob_id (outbox w') = map ob_id (outbox w)" by simp
    then show ?thesis by (metis list.set_map)
  qed
  moreover have "ob_status r \<noteq> OutboxStatusPending" if "r \<in> set (outbox w')" "ob_id r = i" for r
  proof -
    obtain s where "s \<in> set (outbox w)" "r = (if ob_id s \<in> ob_id ` set ?due then mark_claimed (db_now E (tickw w)) s else s)"
      using \<open>r \<in> set (outbox w')\<close> ClaimBatch_success [OF assms(1)] by (auto simp: set_sql_update)
    with i \<open>ob_id r = i\<close> show ?thesis by (auto split: if_splits)
  qed
  ultimately show ?thesis by (simp add: held_def)
qed

text \<open>
  C15: two workers never hold the same event. After a batch was claimed, and whatever
  statements run in between that neither reclaim stale events nor reschedule that event, no
  later batch contains an event of the first one.
\<close>

theorem claim_exclusive:
  assumes "ClaimBatch E n w = (Inr es, w1)" and "i \<in> oe_ID ` set es"
    and "\<forall>op \<in> set ops. \<not> gives_back i op"
    and "ClaimBatch E m (run_ops E ops w1) = (Inr es', w2)"
  shows "i \<notin> oe_ID ` set es'"
  using claim_not_held [OF assms(4)] run_ops_held [OF claim_holds [OF assms(1,2)] assms(3)] by blast

theorem claim_exclusive_witness:
  "\<exists>es w1 es' w2. ClaimBatch steady 5 sample_outbox = (Inr es, w1) \<and> 7 \<in> oe_ID ` set es \<and>
     ClaimBatch steady 5 (run_ops steady [OpRetry 8 0 ''x''] w1) = (Inr es', w2) \<and> 7 \<notin> oe_ID ` set es'"
proof -
  obtain es w1 where c: "ClaimBatch steady 5 sample_outbox = (Inr es, w1)" "7 \<in> oe_ID ` set es"
    by (simp add: ClaimBatch_def db_call_def claim_stmt_def due_rows_def is_due_def db_now_def pg_ts_def
        scanOutboxEvent_def mark_claimed_def sample_outbox_simps)
  obtain es' w2 where d: "ClaimBatch steady 5 (run_ops steady [OpRetry 8 0 ''x''] w1) = (Inr es', w2)"
    by (simp add: ClaimBatch_def db_call_def claim_stmt_def Let_def steady_def)
  have "7 \<notin> oe_ID ` set es'" using claim_exclusive [OF c _ d] by simp
  with c d show ?thesis by blast
qed

section \<open>Answers of the marking calls\<close>

text \<open>The row of an event, found by its identifier.\<close>

definition event_row :: "uuid \<Rightarrow> world \<Rightarrow> outbox_row option" where
  "event_row i w = find (\<lambda>r. ob_id r = i) (outbox w)"

lemma mark_answer:
  assumes "distinct (map ob_id (outbox w))" and "fault_at E (tick w) = None"
    and "\<And>now r. ob_id (f now r) = ob_id r"
  shows "rows_or_not_found (db_call E (\<lambda>w. mark_stmt i (f (db_now E w)) w) w) =
    (case event_row i w of
       None \<Rightarrow> (Inl (Sentinel ErrOutboxEventNotFound), tickw w)
     | Some r \<Rightarrow>
         if ob_status r = OutboxStatusProcessing
         then (Inr (), (tickw w)\<lparr>outbox := sql_update (\<lambda>r. ob_id r = i) (f (db_now E (tickw w))) (outbox w)\<rparr>)
         else (Inl (Sentinel ErrOutboxEventNotFound), tickw w))"
proof -
  let ?P = "\<lambda>r. ob_id r = i \<and> ob_status r = OutboxStatusProcessing"
  have none: "sql_count ?P (outbox w) = 0 \<Longrightarrow> ?thesis" if "\<forall>r. event_row i w = Some r \<longrightarrow> ob_status r \<noteq> OutboxStatusProcessing"
    using assms(2) that sql_update_none [of ?P "outbox w"]
    by (auto simp: db_call_def mark_stmt_def rows_or_not_found_def tickw_def split: option.split)
  show ?thesis
  proof (cases "\<exists>r. event_row i w = Some r \<and> ob_status r = OutboxStatusProcessing")
    case True
    then obtain r where r: "event_row i w = Some r" "ob_status r = OutboxStatusProcessing" by blast
    then have "r \<in> set (outbox w)" "ob_id r = i" unfolding event_row_def by (auto dest: find_SomeD)
    then have "\<forall>s \<in> set (outbox w). ob_id s = i \<longrightarrow> s = r" using id_unique [OF assms(1)] by blast
    with r have "sql_update ?P g (outbox w) = sql_update (\<lambda>r. ob_id r = i) g (outbox w)" for g
      by (auto simp: sql_update_def)
    moreover have "sql_count ?P (outbox w) \<noteq> 0"
      using r(2) \<open>r \<in> set (outbox w)\<close> \<open>ob_id r = i\<close> by (auto simp: sql_count_zero)
    ultimately show ?thesis
      using assms(2) r by (simp add: db_call_def mark_stmt_def rows_or_not_found_def Let_def)
  next
    case False
    have "sql_count ?P (outbox w) = 0"
      using False find_key_unique [OF assms(1)] unfolding event_row_def sql_count_zero by blast
    then show ?thesis using none False by blast
  qed
qed

definition processing :: "uuid \<Rightarrow> world \<Rightarrow> bool" where
  "processing i w = (case event_row i w of None \<Rightarrow> False | Some r \<Rightarrow> ob_status r = OutboxStatusProcessing)"

text \<open>What a marking call answers and leaves behind when the row of event \<open>i\<close> is set to \<open>f r\<close>.\<close>

definition mark_result :: "uuid \<Rightarrow> (outbox_row \<Rightarrow> outbox_row) \<Rightarrow> world \<Rightarrow> unit result \<times> world" where
  "mark_result i f w =
     (if processing i w then (Inr (), (tickw w)\<lparr>outbox := sql_update (\<lambda>r. ob_id r = i) f (outbox w)\<rparr>)
      else (Inl (Sentinel ErrOutboxEventNotFound), tickw w))"

text \<open>
  The three marking calls, when no fault hits them, change exactly the row of their event
  and answer nil when the event is being processed; otherwise (no such event, or it is
  pending, delivered or dead) they answer that the event was not found and change nothing.
  Delivery clears the last error; a retry counts one more attempt.
\<close>

theorem mark_calls:
  assumes "distinct (map ob_id (outbox w))" and "fault_at E (tick w) = None"
  shows "MarkDelivered E i w = mark_result i (\<lambda>r. r\<lparr>ob_status := OutboxStatusDelivered,
      ob_delivered_at := Some (db_now E (tickw w)), ob_last_error := None,
      ob_updated_at := db_now E (tickw w)\<rparr>) w \<and>
    MarkRetry E i nextAt lastErr w = mark_result i (\<lambda>r. r\<lparr>ob_status := OutboxStatusPending,
      ob_attempt_count := ob_attempt_count r + 1, ob_next_retry_at := pg_ts nextAt,
      ob_last_error := Some lastErr, ob_updated_at := db_now E (tickw w)\<rparr>) w \<and>
    MarkDead E i lastErr w = mark_result i (\<lambda>r. r\<lparr>ob_status := OutboxStatusDead,
      ob_last_error := Some lastErr, ob_updated_at := db_now E (tickw w)\<rparr>) w"
proof -
  have m: "rows_or_not_found (db_call E (\<lambda>w. mark_stmt i (f (db_now E w)) w) w) =
      mark_result i (f (db_now E (tickw w))) w" if "\<And>now r. ob_id (f now r) = ob_id r" for f
    unfolding mark_answer [where f = f, OF assms that] mark_result_def processing_def by (simp split: option.split)
  show ?thesis
    using m [of set_delivered] m [of "\<lambda>now. set_retry now nextAt lastErr"] m [of "\<lambda>now. set_dead now lastErr"]
    by (simp add: MarkDelivered_def MarkRetry_def MarkDead_def outbox_set_defs [abs_def])
qed

theorem mark_calls_witness:
  "fst (MarkDelivered steady 7 sample_outbox) = Inl (Sentinel ErrOutboxEventNotFound) \<and>
   fst (MarkDelivered steady 7 (run_ops steady [OpClaim 1] sample_outbox)) = Inr ()"
proof -
  let ?v = "run_ops steady [OpClaim 1] sample_outbox"
  have d: "distinct (map ob_id (outbox sample_outbox))" "fault_at steady t = None" for t
    by (simp_all add: sample_outbox_def steady_def)
  have "\<not> processing 7 sample_outbox" and "processing 7 ?v"
    by (simp_all add: processing_def event_row_def ClaimBatch_def db_call_def claim_stmt_def due_rows_def
        is_due_def db_now_def pg_ts_def mark_claimed_def sample_outbox_simps Let_def)
  with mark_calls [OF d, of 7] mark_calls [of ?v steady 7] d run_ops_evolve [OF d(1), of steady "[OpClaim 1]"]
  show ?thesis by (simp add: mark_result_def)
qed

text \<open>
  Reclaiming, when it succeeds, makes exactly the events pending and due at once whose
  processing began longer ago than the threshold, keeps their attempt count, answers their
  number and leaves every other event alone; a threshold that is not positive is refused
  with no effect.
\<close>

theorem reclaim_stale:
  assumes "ReclaimStaleProcessing E d w = (res, w')"
  shows "(d \<le> 0 \<longrightarrow> w' = w \<and> (\<exists>e. res = Inl e)) \<and>
    (\<forall>n. res = Inr n \<longrightarrow>
       outbox w' = map (\<lambda>r. if ob_status r = OutboxStatusProcessing \<and>
             ob_updated_at r + d div 1000 * 1000 < db_now E (tickw w)
           then r\<lparr>ob_status := OutboxStatusPending, ob_next_retry_at := db_now E (tickw w),
             ob_updated_at := db_now E (tickw w)\<rparr> else r) (outbox w) \<and>
       n = int (length (filter (\<lambda>r. ob_status r = OutboxStatusProcessing \<and>
             ob_updated_at r + d div 1000 * 1000 < db_now E (tickw w)) (outbox w))))"
proof (cases "d \<le> 0")
  case True
  with assms show ?thesis by (auto simp: ReclaimStaleProcessing_def)
next
  case False
  have stale: "is_stale now (d div 1000) = (\<lambda>r. ob_status r = OutboxStatusProcessing \<and>
      ob_updated_at r + d div 1000 * 1000 < now)" for now
    by (auto simp: is_stale_def OutboxStatusProcessing_def)
  show ?thesis
    using assms False
    by (cases rule: db_call_cases [of E "reclaim_stmt E (d div 1000)" w])
      (auto simp: ReclaimStaleProcessing_def Let_def reclaim_stmt_def stale sql_count_def sql_update_def
         OutboxStatusPending_def)
qed

theorem reclaim_stale_witness:
  "fst (ReclaimStaleProcessing steady 5000 (run_ops steady [OpClaim 1] sample_outbox)) = Inr 0 \<and>
   (\<exists>e. ReclaimStaleProcessing steady 0 sample_outbox = (Inl e, sample_outbox))"
proof -
  let ?v = "run_ops steady [OpClaim 1] sample_outbox"
  obtain w' where "ReclaimStaleProcessing steady 5000 ?v = (fst (ReclaimStaleProcessing steady 5000 ?v), w')"
    by (metis prod.collapse)
  from reclaim_stale [OF this] obtain n where "fst (ReclaimStaleProcessing steady 5000 ?v) = Inr n"
    and "n = int (length (filter (\<lambda>r. ob_status r = OutboxStatusProcessing \<and>
             ob_updated_at r + 5000 div 1000 * 1000 < db_now steady (tickw ?v)) (outbox ?v)))"
    by (auto simp: ReclaimStaleProcessing_def db_call_def reclaim_stmt_def Let_def steady_def)
  moreover have "filter (\<lambda>r. ob_status r = OutboxStatusProcessing \<and>
             ob_updated_at r + 5000 div 1000 * 1000 < db_now steady (tickw ?v)) (outbox ?v) = []"
    by (simp add: ClaimBatch_def db_call_def claim_stmt_def due_rows_def
        is_due_def db_now_def pg_ts_def mark_claimed_def sample_outbox_simps Let_def)
  moreover have "ReclaimStaleProcessing steady 0 sample_outbox =
      (Inl (OtherError ''staleAfter must be positive''), sample_outbox)"
    by (simp add: ReclaimStaleProcessing_def)
  ultimately show ?thesis by simp
qed

end
