(* ===== verification/Merchant_Registry.thy ===== *)
theory Merchant_Registry
  imports Domain
begin

text \<open>
  The merchant registry (\<open>internal/merchant/registry.go\<close>): where a merchant's webhooks go and
  with which secret they are signed. \<open>uuid.Parse\<close> is a parameter \<open>P\<close> of the parser.

  The locale \<open>webhook_registry\<close> is what the payment repository and the webhook worker rely
  on; it is interpreted on \<open>EnvRegistry\<close>.
\<close>

section \<open>The registry interface\<close>

text \<open>The Go interface \<open>Registry\<close>, a value with two methods that return a string and a flag.\<close>

record registry =
  reg_WebhookURL :: "uuid \<Rightarrow> string \<times> bool"
  reg_Secret :: "uuid \<Rightarrow> string \<times> bool"

locale webhook_registry =
  fixes webhook_url :: "uuid \<Rightarrow> string \<times> bool"
    and secret :: "uuid \<Rightarrow> string \<times> bool"
  assumes url_found: "webhook_url m = (u, True) \<Longrightarrow> TrimSpace u = u \<and> u \<noteq> []"
    and url_missing: "webhook_url m = (u, False) \<Longrightarrow> u = []"
    and secret_found: "secret m = (s, True) \<Longrightarrow> TrimSpace s \<noteq> []"
    and secret_missing: "secret m = (s, False) \<Longrightarrow> s = []"
begin

text \<open>What a caller that ignores the flag sees: blank exactly when there is no URL.\<close>

lemma url_blank_iff: "TrimSpace (fst (webhook_url m)) = [] \<longleftrightarrow> \<not> snd (webhook_url m)"
  by (cases "webhook_url m"; cases "snd (webhook_url m)") (auto dest: url_found url_missing)

lemma url_trimmed: "TrimSpace (fst (webhook_url m)) = fst (webhook_url m)"
  by (cases "webhook_url m"; cases "snd (webhook_url m)") (auto dest: url_found url_missing)

lemma secret_blank_iff: "TrimSpace (fst (secret m)) = [] \<longleftrightarrow> \<not> snd (secret m)"
  by (cases "secret m"; cases "snd (secret m)") (auto dest: secret_found secret_missing)

end

section \<open>EnvRegistry\<close>

record env_registry =
  byMerchant :: "uuid \<rightharpoonup> string"
  defaultURL :: string
  signingSecret :: string

text \<open>One round of the loop over the comma-separated parts; \<open>continue\<close> keeps \<open>out\<close>.\<close>

definition parse_part :: "(string \<Rightarrow> uuid option) \<Rightarrow> string \<Rightarrow> (uuid \<rightharpoonup> string) \<Rightarrow> (uuid \<rightharpoonup> string)" where
  "parse_part P raw_part out =
     (let part = TrimSpace raw_part in
      if part = [] then out
      else let idx = Index part (CHR ''='') in
        if idx \<le> 0 \<or> idx = int (length part) - 1 then out
        else let idStr = TrimSpace (take (nat idx) part);
                 urlStr = TrimSpace (drop (nat idx + 1) part) in
          if urlStr = [] then out
          else (case P idStr of None \<Rightarrow> out | Some mid \<Rightarrow> out(mid \<mapsto> urlStr)))"

definition parseMerchantWebhookURLs :: "(string \<Rightarrow> uuid option) \<Rightarrow> string \<Rightarrow> (uuid \<rightharpoonup> string)" where
  "parseMerchantWebhookURLs P raw0 =
     (let raw = TrimSpace raw0 in
      if raw = [] then Map.empty
      else fold (parse_part P) (Split (CHR '','') raw) Map.empty)"

definition NewEnvRegistry :: "(string \<Rightarrow> uuid option) \<Rightarrow> (string \<Rightarrow> string) \<Rightarrow> env_registry" where
  "NewEnvRegistry P getenv =
     \<lparr>byMerchant = parseMerchantWebhookURLs P (getenv ''MERCHANT_WEBHOOK_URLS''),
      defaultURL = TrimSpace (getenv ''DEFAULT_WEBHOOK_URL''),
      signingSecret = getenv ''WEBHOOK_SIGNING_SECRET''\<rparr>"

text \<open>The methods have a pointer receiver: \<open>None\<close> is the nil registry.\<close>

definition EnvRegistry_WebhookURL :: "env_registry option \<Rightarrow> uuid \<Rightarrow> string \<times> bool" where
  "EnvRegistry_WebhookURL r merchantID =
     (case r of
        None \<Rightarrow> ([], False)
      | Some r \<Rightarrow>
          (let fallback =
             (if TrimSpace (defaultURL r) \<noteq> [] then (TrimSpace (defaultURL r), True) else ([], False)) in
           case byMerchant r merchantID of
             Some u \<Rightarrow> if TrimSpace u \<noteq> [] then (TrimSpace u, True) else fallback
           | None \<Rightarrow> fallback))"

definition EnvRegistry_Secret :: "env_registry option \<Rightarrow> uuid \<Rightarrow> string \<times> bool" where
  "EnvRegistry_Secret r merchantID =
     (case r of
        None \<Rightarrow> ([], False)
      | Some r \<Rightarrow> if TrimSpace (signingSecret r) = [] then ([], False) else (signingSecret r, True))"

definition env_registry_iface :: "env_registry option \<Rightarrow> registry" where
  "env_registry_iface r = \<lparr>reg_WebhookURL = EnvRegistry_WebhookURL r, reg_Secret = EnvRegistry_Secret r\<rparr>"

interpretation env_reg: webhook_registry "EnvRegistry_WebhookURL r" "EnvRegistry_Secret r" for r
  by unfold_locales
    (auto simp: EnvRegistry_WebhookURL_def EnvRegistry_Secret_def Let_def
      split: option.splits if_splits)

section \<open>Parsing the environment\<close>

text \<open>Visible ASCII text without commas, as UUIDs and URLs are in the variable.\<close>

definition plain :: "string \<Rightarrow> bool" where
  "plain s \<longleftrightarrow> s \<noteq> [] \<and> ascii s \<and> list_all (\<lambda>c. \<not> asciiSpace c \<and> c \<noteq> CHR '','') s"

lemma plain_TrimSpace: "plain s \<Longrightarrow> TrimSpace s = s"
  by (rule TrimSpace_fixed) (auto simp: plain_def list_all_iff)

lemma plain_no_comma: "plain s \<Longrightarrow> CHR '','' \<notin> set s"
  by (auto simp: plain_def list_all_iff)

definition render_entry :: "string \<times> string \<Rightarrow> string" where
  "render_entry e = fst e @ CHR ''='' # snd e"

definition entry_ok :: "(string \<Rightarrow> uuid option) \<Rightarrow> string \<times> string \<Rightarrow> bool" where
  "entry_ok P e \<longleftrightarrow> plain (fst e) \<and> plain (snd e) \<and> CHR ''='' \<notin> set (fst e) \<and> P (fst e) \<noteq> None"

fun join_commas :: "string list \<Rightarrow> string" where
  "join_commas [] = []"
| "join_commas [s] = s"
| "join_commas (s # t # ss) = s @ CHR '','' # join_commas (t # ss)"

lemma equals_not_space [simp]: "\<not> asciiSpace (CHR ''='')"
  by (simp add: asciiSpace_def)

lemma plain_render_entry: "entry_ok P e \<Longrightarrow> plain (render_entry e)"
  by (simp add: entry_ok_def plain_def render_entry_def)

lemma parse_part_render:
  "entry_ok P e \<Longrightarrow> parse_part P (render_entry e) out = out(the (P (fst e)) \<mapsto> snd e)"
proof -
  assume ok: "entry_ok P e"
  then have trim: "TrimSpace (render_entry e) = render_entry e"
    by (simp add: plain_TrimSpace plain_render_entry)
  from ok have "Index (render_entry e) (CHR ''='') = int (length (fst e))"
    by (simp add: render_entry_def Index_append entry_ok_def)
  note idx = this
  from ok obtain mid where mid: "P (fst e) = Some mid" by (auto simp: entry_ok_def)
  from ok have ne: "0 < length (fst e)" "snd e \<noteq> []" by (auto simp: entry_ok_def plain_def)
  have parts: "take (length (fst e)) (render_entry e) = fst e"
    "drop (Suc (length (fst e))) (render_entry e) = snd e" "render_entry e \<noteq> []"
    "length (render_entry e) = length (fst e) + Suc (length (snd e))"
    by (simp_all add: render_entry_def)
  from ok have trims: "TrimSpace (fst e) = fst e" "TrimSpace (snd e) = snd e"
    by (simp_all add: entry_ok_def plain_TrimSpace)
  from ne(2) have "int (length (fst e)) \<noteq> int (length (render_entry e)) - 1"
    by (simp add: parts)
  with ne parts(1-3) idx trim mid trims show ?thesis
    by (simp add: parse_part_def)
qed

lemma fold_parse_render:
  "list_all (entry_ok P) es \<Longrightarrow>
   fold (parse_part P) (map render_entry es) out = out ++ map_of (rev (map (\<lambda>e. (the (P (fst e)), snd e)) es))"
proof (induction es arbitrary: out)
  case (Cons e es)
  let ?kv = "(the (P (fst e)), snd e)"
  have "fold (parse_part P) (map render_entry (e # es)) out
      = out(fst ?kv \<mapsto> snd ?kv) ++ map_of (rev (map (\<lambda>e. (the (P (fst e)), snd e)) es))"
    using Cons by (simp add: parse_part_render)
  also have "\<dots> = out ++ (map_of [?kv] ++ map_of (rev (map (\<lambda>e. (the (P (fst e)), snd e)) es)))"
    unfolding map_add_assoc by simp
  finally show ?case by (simp add: map_of_append)
qed simp

lemma Split_join_commas:
  "ss \<noteq> [] \<Longrightarrow> list_all plain ss \<Longrightarrow> Split (CHR '','') (join_commas ss) = ss"
  by (induction ss rule: join_commas.induct)
    (auto simp: Split_no_sep Split_append plain_no_comma)

lemma join_commas_ends:
  "ss \<noteq> [] \<Longrightarrow> list_all plain ss \<Longrightarrow>
   join_commas ss \<noteq> [] \<and> hd (join_commas ss) = hd (hd ss) \<and> last (join_commas ss) = last (last ss)"
  by (induction ss rule: join_commas.induct) (auto simp: plain_def)

lemma TrimSpace_join_commas: "ss \<noteq> [] \<Longrightarrow> list_all plain ss \<Longrightarrow> TrimSpace (join_commas ss) = join_commas ss"
proof (rule TrimSpace_fixed)
  assume ss: "ss \<noteq> []" "list_all plain ss"
  note ends = join_commas_ends [OF ss]
  show "join_commas ss \<noteq> []" using ends by simp
  have "hd ss \<in> set ss" "last ss \<in> set ss" using ss by auto
  then have "plain (hd ss)" "plain (last ss)" using ss(2) by (auto simp: list_all_iff)
  then have "hd (hd ss) \<in> set (hd ss)" "last (last ss) \<in> set (last ss)" by (auto simp: plain_def)
  with \<open>plain (hd ss)\<close> \<open>plain (last ss)\<close> ends
  show "\<not> asciiSpace (hd (join_commas ss))" "\<not> digit7 (hd (join_commas ss))"
    "\<not> asciiSpace (last (join_commas ss))" "\<not> digit7 (last (join_commas ss))"
    by (auto simp: plain_def list_all_iff)
qed

text \<open>
  Parsing a rendered list of \<open>uuid=url\<close> entries gives back exactly those entries; where a
  merchant occurs twice the later entry wins.
\<close>

theorem parse_render_roundtrip:
  assumes "list_all (entry_ok P) es"
  shows "parseMerchantWebhookURLs P (join_commas (map render_entry es))
    = map_of (rev (map (\<lambda>e. (the (P (fst e)), snd e)) es))"
proof (cases "es = []")
  case False
  have plains: "list_all plain (map render_entry es)"
    using assms by (auto simp: list_all_iff plain_render_entry)
  with False have "TrimSpace (join_commas (map render_entry es)) = join_commas (map render_entry es)"
    and "join_commas (map render_entry es) \<noteq> []"
    and "Split (CHR '','') (join_commas (map render_entry es)) = map render_entry es"
    using TrimSpace_join_commas join_commas_ends Split_join_commas by simp_all
  then show ?thesis
    using fold_parse_render [OF assms, of Map.empty] by (simp add: parseMerchantWebhookURLs_def Let_def)
qed (simp add: parseMerchantWebhookURLs_def)

theorem parse_render_roundtrip_witness:
  "parseMerchantWebhookURLs (\<lambda>s. if s = ''aa-1'' then Some 1 else if s = ''bb-2'' then Some 2 else None)
     (join_commas (map render_entry [(''aa-1'', ''https://a''), (''bb-2'', ''http://b/?q=1'')]))
   = map_of (rev [(1 :: uuid, ''https://a''), (2, ''http://b/?q=1'')])"
  using parse_render_roundtrip
    [of "\<lambda>s. if s = ''aa-1'' then Some 1 else if s = ''bb-2'' then Some 2 else None"
        "[(''aa-1'', ''https://a''), (''bb-2'', ''http://b/?q=1'')]"]
  by (simp add: entry_ok_def plain_def asciiSpace_def)

text \<open>
  The registry answers with the merchant's own URL when it has a non-blank entry, else
  with the default URL when that is non-blank, else with nothing; the answer is trimmed, and
  it is blank exactly when the flag is false.
\<close>

theorem webhook_url_resolution:
  "EnvRegistry_WebhookURL (Some r) m =
     (case byMerchant r m of
        Some u \<Rightarrow> if TrimSpace u \<noteq> [] then (TrimSpace u, True)
                  else (TrimSpace (defaultURL r), TrimSpace (defaultURL r) \<noteq> [])
      | None \<Rightarrow> (TrimSpace (defaultURL r), TrimSpace (defaultURL r) \<noteq> [])) \<and>
   TrimSpace (fst (EnvRegistry_WebhookURL (Some r) m)) = fst (EnvRegistry_WebhookURL (Some r) m) \<and>
   (fst (EnvRegistry_WebhookURL (Some r) m) = [] \<longleftrightarrow> \<not> snd (EnvRegistry_WebhookURL (Some r) m))"
  using env_reg.url_trimmed [of "Some r" m] env_reg.url_blank_iff [of "Some r" m]
  by (auto simp: EnvRegistry_WebhookURL_def Let_def split: option.splits)

end
