(* ===== verification/Payment_Repo.thy ===== *)
theory Payment_Repo
  imports Outbox_Repo Merchant_Registry
begin

text \<open>
  The payment repository (\<open>internal/repository/payment_repo.go\<close>): payments and refunds, with
  the webhook event of a status change inserted in the same transaction. \<open>None\<close> is the nil
  receiver; the flags say whether the pool and the outbox repository are set.
\<close>

record payment_repo =
  repo_db :: bool
  repo_outbox :: bool
  repo_registry :: "registry option"

definition repo_ready :: "payment_repo option \<Rightarrow> bool" where
  "repo_ready r = (case r of None \<Rightarrow> False | Some r \<Rightarrow> repo_db r)"

section \<open>Events\<close>

record outbox_webhook_data =
  wd_PaymentID :: string
  wd_MerchantID :: string
  wd_Amount :: int
  wd_Currency :: string
  wd_Status :: string
  wd_PSP :: string
  wd_PSPReferenceID :: string
  wd_FailureReason :: string
  wd_RefundID :: string
  wd_RefundAmount :: int

definition webhook_data_json :: "outbox_webhook_data \<Rightarrow> json" where
  "webhook_data_json d =
     JObj ([(''payment_id'', JStr (wd_PaymentID d)), (''merchant_id'', JStr (wd_MerchantID d)),
            (''amount'', JInt (wd_Amount d)), (''currency'', JStr (wd_Currency d)),
            (''status'', JStr (wd_Status d))]
           @ omitempty_str ''psp'' (wd_PSP d)
           @ omitempty_str ''psp_reference_id'' (wd_PSPReferenceID d)
           @ omitempty_str ''failure_reason'' (wd_FailureReason d)
           @ omitempty_str ''refund_id'' (wd_RefundID d)
           @ omitempty_int ''refund_amount'' (wd_RefundAmount d))"

definition marshalOutboxPayload :: "env \<Rightarrow> uuid \<Rightarrow> string \<Rightarrow> time \<Rightarrow> outbox_webhook_data \<Rightarrow> json" where
  "marshalOutboxPayload E eventID eventType createdAt data =
     JObj [(''id'', JStr (uuid_str E eventID)), (''type'', JStr eventType),
           (''created_at'', JStr (rfc3339 E createdAt)), (''data'', webhook_data_json data)]"

definition webhookURLForMerchant :: "payment_repo option \<Rightarrow> uuid \<Rightarrow> string" where
  "webhookURLForMerchant r merchantID =
     (case r of
        None \<Rightarrow> []
      | Some r \<Rightarrow>
          (case repo_registry r of
             None \<Rightarrow> []
           | Some reg \<Rightarrow>
               (case reg_WebhookURL reg merchantID of (u, ok) \<Rightarrow> if \<not> ok then [] else u)))"

definition enqueueOutboxPaymentEventTx :: "env \<Rightarrow> payment_repo option \<Rightarrow> string \<Rightarrow> uuid \<Rightarrow> uuid \<Rightarrow> int
    \<Rightarrow> string \<Rightarrow> Status \<Rightarrow> string \<Rightarrow> string \<Rightarrow> string \<Rightarrow> uuid \<Rightarrow> int \<Rightarrow> bool \<Rightarrow> time \<Rightarrow> world \<Rightarrow> unit result \<times> world" where
  "enqueueOutboxPaymentEventTx E r eventType paymentID merchantID amount currency status
       pspName pspReferenceID failureReason refundID refundAmount withRefund createdAt w =
     (if (case r of None \<Rightarrow> True | Some r \<Rightarrow> \<not> repo_outbox r) then (Inl (Sentinel ErrRepositoryNotConfigured), w)
      else (case NewID E w of
        (Inl err, w1) \<Rightarrow> (Inl (wrap_pre ''new outbox event id'' err), w1)
      | (Inr eventID, w1) \<Rightarrow>
          (let data0 = \<lparr>wd_PaymentID = uuid_str E paymentID, wd_MerchantID = uuid_str E merchantID,
                 wd_Amount = amount, wd_Currency = currency, wd_Status = status, wd_PSP = pspName,
                 wd_PSPReferenceID = pspReferenceID, wd_FailureReason = failureReason,
                 wd_RefundID = [], wd_RefundAmount = 0\<rparr>;
               data = (if withRefund then data0\<lparr>wd_RefundID := uuid_str E refundID, wd_RefundAmount := refundAmount\<rparr>
                       else data0);
               payload = marshalOutboxPayload E eventID eventType createdAt data;
               ev = \<lparr>oe_ID = eventID, oe_PaymentID = paymentID, oe_MerchantID = merchantID,
                 oe_EventType = eventType, oe_WebhookURL = webhookURLForMerchant r merchantID,
                 oe_Payload = payload, oe_Status = [], oe_LastError = [], oe_AttemptCount = 0,
                 oe_NextRetryAt = zero_time, oe_DeliveredAt = zero_time, oe_CreatedAt = zero_time,
                 oe_UpdatedAt = zero_time\<rparr>
           in EnqueueTx E (Some ev) w1)))"

section \<open>Rows and validation\<close>

definition isUniqueViolation :: "go_error \<Rightarrow> bool" where
  "isUniqueViolation err \<longleftrightarrow> errors_As_Pg err = Some ''23505''"

definition strOrNil :: "string \<Rightarrow> string option" where
  "strOrNil s = (if s = [] then None else Some s)"

definition null_string :: "string option \<Rightarrow> string" where
  "null_string x = (case x of Some s \<Rightarrow> s | None \<Rightarrow> [])"

lemma null_string_strOrNil [simp]: "null_string (strOrNil s) = s"
  by (simp add: null_string_def strOrNil_def)

text \<open>The method normalises the payment it is given; the result is that payment.\<close>

definition validatePaymentForCreate :: "env \<Rightarrow> payment option \<Rightarrow> payment result" where
  "validatePaymentForCreate E pp =
     (case pp of
        None \<Rightarrow> Inl (wrap_post (Sentinel ErrInvalidPayment) '': payment is nil'')
      | Some p \<Rightarrow>
        if p_ID p = uuid_Nil then Inl (wrap_post (Sentinel ErrInvalidPayment) '': id is required'')
        else if p_MerchantID p = uuid_Nil then
          Inl (wrap_post (Sentinel ErrInvalidPayment) '': merchant_id is required'')
        else let key = TrimSpace (p_IdempotencyKey p) in
        if key = [] then Inl (Sentinel ErrInvalidIdempotencyKey)
        else if length key > 255 then
          Inl (wrap_post (Sentinel ErrInvalidIdempotencyKey) '': idempotency key too long'')
        else if p_Amount p \<le> 0 then
          Inl (wrap_post (Sentinel ErrInvalidAmount) '': amount must be positive'')
        else if \<not> IsInt64 (p_Amount p) then Inl (Sentinel ErrInvalidAmount)
        else let curr = TrimSpace (ToUpper (e_upper E) (p_Currency p)) in
        if length curr \<noteq> 3 then
          Inl (wrap_post (Sentinel ErrInvalidPayment) '': currency must be a 3-letter code'')
        else if \<not> ValidCurrency curr then
          Inl (wrap_post (Sentinel ErrInvalidPayment) ('': unsupported currency '' @ Quote (e_quote E) curr))
        else let st = (if p_Status p = [] then StatusInitiated else p_Status p) in
        if st \<noteq> StatusInitiated then
          Inl (wrap_post (Sentinel ErrInvalidPayment)
            ('': new payments must have status '' @ Quote (e_quote E) StatusInitiated @ '' or empty''))
        else if \<not> IsKnownStatus st then
          Inl (wrap_post (Sentinel ErrInvalidPayment) ('': unknown status '' @ Quote (e_quote E) st))
        else Inr (p\<lparr>p_IdempotencyKey := key, p_Currency := curr, p_Status := st\<rparr>))"

definition scanPayment :: "payment_row \<Rightarrow> payment" where
  "scanPayment r =
     \<lparr>p_ID = pr_id r, p_MerchantID = pr_merchant_id r, p_Amount = pr_amount r, p_Currency = pr_currency r,
      p_Status = pr_status r, p_IdempotencyKey = pr_idempotency_key r, p_PSP = null_string (pr_psp r),
      p_PSPReferenceID = null_string (pr_psp_reference_id r),
      p_FailureReason = null_string (pr_failure_reason r),
      p_CreatedAt = pr_created_at r, p_UpdatedAt = pr_updated_at r\<rparr>"

section \<open>Creating and reading\<close>

definition payment_insert :: "payment_row \<Rightarrow> world \<Rightarrow> unit result \<times> world" where
  "payment_insert row w =
     (if pr_id row \<in> pr_id ` set (payments w)
         \<or> pr_idempotency_key row \<in> pr_idempotency_key ` set (payments w)
      then (Inl (PgError ''23505'' ''duplicate key value''), w)
      else (Inr (), w\<lparr>payments := payments w @ [row]\<rparr>))"

definition payment_row_of :: "payment \<Rightarrow> time \<Rightarrow> time \<Rightarrow> payment_row" where
  "payment_row_of p createdAt updatedAt =
     \<lparr>pr_id = p_ID p, pr_merchant_id = p_MerchantID p, pr_amount = wrap64 (p_Amount p),
      pr_currency = p_Currency p, pr_status = p_Status p, pr_idempotency_key = p_IdempotencyKey p,
      pr_psp = strOrNil (p_PSP p), pr_psp_reference_id = strOrNil (p_PSPReferenceID p),
      pr_failure_reason = strOrNil (p_FailureReason p),
      pr_created_at = pg_ts createdAt, pr_updated_at = pg_ts updatedAt\<rparr>"

definition repo_CreatePayment :: "env \<Rightarrow> payment_repo option \<Rightarrow> payment option \<Rightarrow> world \<Rightarrow> payment result \<times> world" where
  "repo_CreatePayment E r pp w =
     (if \<not> repo_ready r then (Inl (Sentinel ErrRepositoryNotConfigured), w)
      else (case validatePaymentForCreate E pp of
        Inl err \<Rightarrow> (Inl err, w)
      | Inr payment \<Rightarrow>
          (let (createdAt, w1) = (if IsZero (p_CreatedAt payment) then Now E w else (p_CreatedAt payment, w));
               updatedAt = (if IsZero (p_UpdatedAt payment) then createdAt else p_UpdatedAt payment)
           in case db_call E (payment_insert (payment_row_of payment createdAt updatedAt)) w1 of
                (Inl err, w2) \<Rightarrow>
                  if isUniqueViolation err then (Inl (Sentinel ErrConflict), w2)
                  else (Inl (wrap_pre ''insert payment'' err), w2)
              | (Inr _, w2) \<Rightarrow>
                  (Inr (payment\<lparr>p_CreatedAt := createdAt, p_UpdatedAt := updatedAt\<rparr>), w2))))"

text \<open>\<open>QueryRow(...).Scan\<close>: no row is the error \<open>pgx.ErrNoRows\<close>.\<close>

definition select_payment :: "(payment_row \<Rightarrow> bool) \<Rightarrow> world \<Rightarrow> payment result \<times> world" where
  "select_payment P w =
     (case find P (payments w) of
        None \<Rightarrow> (Inl (Sentinel ErrNoRows), w) | Some row \<Rightarrow> (Inr (scanPayment row), w))"

definition select_status :: "uuid \<Rightarrow> world \<Rightarrow> Status result \<times> world" where
  "select_status i w =
     (case find (\<lambda>row. pr_id row = i) (payments w) of
        None \<Rightarrow> (Inl (Sentinel ErrNoRows), w) | Some row \<Rightarrow> (Inr (pr_status row), w))"

definition GetPaymentByID :: "env \<Rightarrow> payment_repo option \<Rightarrow> uuid \<Rightarrow> world \<Rightarrow> payment result \<times> world" where
  "GetPaymentByID E r i w =
     (if \<not> repo_ready r then (Inl (Sentinel ErrRepositoryNotConfigured), w)
      else if i = uuid_Nil then (Inl (wrap_post (Sentinel ErrInvalidPayment) '': id is required''), w)
      else (case db_call E (select_payment (\<lambda>row. pr_id row = i)) w of
        (Inl err, w1) \<Rightarrow>
          if errors_Is err ErrNoRows then (Inl (Sentinel ErrNotFound), w1)
          else (Inl (wrap_pre ''get payment by id'' err), w1)
      | (Inr p, w1) \<Rightarrow> (Inr p, w1)))"

definition GetPaymentStatusByIdempotencyKey :: "env \<Rightarrow> payment_repo option \<Rightarrow> string \<Rightarrow> world \<Rightarrow> payment result \<times> world" where
  "GetPaymentStatusByIdempotencyKey E r key0 w =
     (if \<not> repo_ready r then (Inl (Sentinel ErrRepositoryNotConfigured), w)
      else let key = TrimSpace key0 in
      if key = [] then (Inl (Sentinel ErrInvalidIdempotencyKey), w)
      else (case db_call E (select_payment (\<lambda>row. pr_idempotency_key row = key)) w of
        (Inl err, w1) \<Rightarrow>
          if errors_Is err ErrNoRows then (Inl (Sentinel ErrNotFound), w1)
          else (Inl (wrap_pre ''get payment by idempotency key'' err), w1)
      | (Inr p, w1) \<Rightarrow> (Inr p, w1)))"

section \<open>Changing the status\<close>

definition status_mismatch :: "env \<Rightarrow> Status \<Rightarrow> Status \<Rightarrow> go_error" where
  "status_mismatch E current expected =
     wrap_post (Sentinel ErrStatusMismatch)
       ('' (current '' @ Quote (e_quote E) current @ '', expected '' @ Quote (e_quote E) expected @ '')'')"

definition bad_transition :: "env \<Rightarrow> Status \<Rightarrow> Status \<Rightarrow> go_error" where
  "bad_transition E from to =
     wrap_post (Sentinel ErrInvalidStatusTransition)
       ('': cannot go from '' @ Quote (e_quote E) from @ '' to '' @ Quote (e_quote E) to)"

definition at_status :: "uuid \<Rightarrow> Status \<Rightarrow> payment_row \<Rightarrow> bool" where
  "at_status i st row \<longleftrightarrow> pr_id row = i \<and> pr_status row = st"

definition update_status_stmt :: "env \<Rightarrow> uuid \<Rightarrow> Status \<Rightarrow> Status \<Rightarrow> world \<Rightarrow> nat result \<times> world" where
  "update_status_stmt E i from to w =
     (Inr (sql_count (at_status i from) (payments w)),
      w\<lparr>payments := sql_update (at_status i from)
          (\<lambda>row. row\<lparr>pr_status := to, pr_updated_at := db_now E w\<rparr>) (payments w)\<rparr>)"

definition UpdatePaymentStatus :: "env \<Rightarrow> payment_repo option \<Rightarrow> uuid \<Rightarrow> Status \<Rightarrow> Status \<Rightarrow> world \<Rightarrow> unit result \<times> world" where
  "UpdatePaymentStatus E r i from to w =
     (if \<not> repo_ready r then (Inl (Sentinel ErrRepositoryNotConfigured), w)
      else if i = uuid_Nil then (Inl (wrap_post (Sentinel ErrInvalidPayment) '': id is required''), w)
      else if \<not> IsKnownStatus from \<or> \<not> IsKnownStatus to then
        (Inl (wrap_post (Sentinel ErrInvalidStatusTransition) '': unknown status''), w)
      else if from = to then (Inr (), w)
      else if \<not> ValidTransition from to then
        (case db_call E (select_status i) w of
           (Inl err, w1) \<Rightarrow>
             if errors_Is err ErrNoRows then (Inl (Sentinel ErrNotFound), w1)
             else (Inl (wrap_pre ''update payment status: resolve row in invalid transition'' err), w1)
         | (Inr current, w1) \<Rightarrow>
             if current \<noteq> from then (Inl (status_mismatch E current from), w1)
             else (Inl (bad_transition E from to), w1))
      else
        (case db_call E (update_status_stmt E i from to) w of
           (Inl err, w1) \<Rightarrow> (Inl (wrap_pre ''update payment status'' err), w1)
         | (Inr n, w1) \<Rightarrow>
             if n = 0 then
               (case db_call E (select_status i) w1 of
                  (Inl err, w2) \<Rightarrow>
                    if errors_Is err ErrNoRows then (Inl (Sentinel ErrNotFound), w2)
                    else (Inl (wrap_pre ''update payment status: resolve row'' err), w2)
                | (Inr current, w2) \<Rightarrow> (Inl (status_mismatch E current from), w2))
             else (Inr (), w1)))"

text \<open>
  \<open>UPDATE payments ... WHERE id AND status ... RETURNING\<close>: the row before the update stands for
  the returned columns, none of which the statements change.
\<close>

definition update_returning :: "uuid \<Rightarrow> Status \<Rightarrow> (payment_row \<Rightarrow> payment_row) \<Rightarrow> world \<Rightarrow> payment_row result \<times> world" where
  "update_returning i from f w =
     (case find (at_status i from) (payments w) of
        None \<Rightarrow> (Inl (Sentinel ErrNoRows), w)
      | Some row \<Rightarrow> (Inr row, w\<lparr>payments := sql_update (at_status i from) f (payments w)\<rparr>))"

text \<open>The branch taken when the update of a transaction returned no row.\<close>

definition resolve_mismatch :: "env \<Rightarrow> string \<Rightarrow> uuid \<Rightarrow> Status \<Rightarrow> world \<Rightarrow> go_error \<times> world" where
  "resolve_mismatch E msg i from w =
     (case db_call E (select_status i) w of
        (Inl qErr, w1) \<Rightarrow>
          if errors_Is qErr ErrNoRows then (Sentinel ErrNotFound, w1) else (wrap_pre msg qErr, w1)
      | (Inr current, w1) \<Rightarrow> (status_mismatch E current from, w1))"

definition UpdatePaymentStatusWithPSP :: "env \<Rightarrow> payment_repo option \<Rightarrow> uuid \<Rightarrow> Status \<Rightarrow> Status \<Rightarrow> string \<Rightarrow> string
    \<Rightarrow> world \<Rightarrow> unit result \<times> world" where
  "UpdatePaymentStatusWithPSP E r i from to pspName pspReferenceID w =
     (if \<not> repo_ready r then (Inl (Sentinel ErrRepositoryNotConfigured), w)
      else if i = uuid_Nil then (Inl (wrap_post (Sentinel ErrInvalidPayment) '': id is required''), w)
      else if \<not> IsKnownStatus from \<or> \<not> IsKnownStatus to then
        (Inl (wrap_post (Sentinel ErrInvalidStatusTransition) '': unknown status''), w)
      else if from = to then (Inr (), w)
      else if \<not> ValidTransition from to then (Inl (bad_transition E from to), w)
      else run_tx E ''update payment status with psp: begin tx'' ''update payment status with psp: commit''
        (\<lambda>w1. case db_call E (\<lambda>v. update_returning i from
               (\<lambda>row. row\<lparr>pr_status := to, pr_psp := strOrNil pspName,
                  pr_psp_reference_id := strOrNil pspReferenceID, pr_updated_at := db_now E v\<rparr>) v) w1 of
           (Inl scanErr, w2) \<Rightarrow>
             if errors_Is scanErr ErrNoRows then
               (case resolve_mismatch E ''update payment status with psp: resolve row'' i from w2 of
                  (err, w3) \<Rightarrow> (Inl err, w3))
             else (Inl (wrap_pre ''update payment status with psp'' scanErr), w2)
         | (Inr row, w2) \<Rightarrow>
             (case Now E w2 of (createdAt, w3) \<Rightarrow>
                enqueueOutboxPaymentEventTx E r EventPaymentSuccess i (pr_merchant_id row) (pr_amount row)
                  (pr_currency row) to pspName pspReferenceID [] uuid_Nil 0 False createdAt w3)) w)"

definition UpdatePaymentFailed :: "env \<Rightarrow> payment_repo option \<Rightarrow> uuid \<Rightarrow> Status \<Rightarrow> string \<Rightarrow> string \<Rightarrow> string
    \<Rightarrow> world \<Rightarrow> unit result \<times> world" where
  "UpdatePaymentFailed E r i from pspName pspReferenceID failureReason w =
     (if \<not> repo_ready r then (Inl (Sentinel ErrRepositoryNotConfigured), w)
      else if i = uuid_Nil then (Inl (wrap_post (Sentinel ErrInvalidPayment) '': id is required''), w)
      else if \<not> IsKnownStatus from \<or> \<not> IsKnownStatus StatusFailed then
        (Inl (wrap_post (Sentinel ErrInvalidStatusTransition) '': unknown status''), w)
      else if from = StatusFailed then (Inr (), w)
      else if \<not> ValidTransition from StatusFailed then (Inl (bad_transition E from StatusFailed), w)
      else run_tx E ''update payment failed: begin tx'' ''update payment failed: commit''
        (\<lambda>w1. case db_call E (\<lambda>v. update_returning i from
               (\<lambda>row. row\<lparr>pr_status := StatusFailed, pr_psp := strOrNil pspName,
                  pr_psp_reference_id := strOrNil pspReferenceID, pr_failure_reason := strOrNil failureReason,
                  pr_updated_at := db_now E v\<rparr>) v) w1 of
           (Inl scanErr, w2) \<Rightarrow>
             if errors_Is scanErr ErrNoRows then
               (case resolve_mismatch E ''update payment failed: resolve row'' i from w2 of
                  (err, w3) \<Rightarrow> (Inl err, w3))
             else (Inl (wrap_pre ''update payment failed'' scanErr), w2)
         | (Inr row, w2) \<Rightarrow>
             (case Now E w2 of (createdAt, w3) \<Rightarrow>
                enqueueOutboxPaymentEventTx E r EventPaymentFailed i (pr_merchant_id row) (pr_amount row)
                  (pr_currency row) StatusFailed pspName pspReferenceID failureReason uuid_Nil 0 False createdAt w3)) w)"

section \<open>Refunds\<close>

definition refund_insert :: "env \<Rightarrow> uuid \<Rightarrow> int \<Rightarrow> Status \<Rightarrow> string \<Rightarrow> world \<Rightarrow> uuid result \<times> world" where
  "refund_insert E paymentID amount st key w =
     (let i = dbuuid_at E (tick w) in
      if i \<in> rf_id ` set (refunds w) \<or> key \<in> rf_idempotency_key ` set (refunds w)
      then (Inl (PgError ''23505'' ''duplicate key value''), w)
      else if paymentID \<notin> pr_id ` set (payments w)
      then (Inl (PgError ''23503'' ''violates foreign key constraint''), w)
      else (Inr i, w\<lparr>refunds := refunds w @ [\<lparr>rf_id = i, rf_payment_id = paymentID, rf_amount = amount,
             rf_status = st, rf_idempotency_key = key, rf_created_at = db_now E w\<rparr>]\<rparr>))"

definition RefundPaymentAtomic :: "env \<Rightarrow> payment_repo option \<Rightarrow> uuid \<Rightarrow> int \<Rightarrow> string \<Rightarrow> world \<Rightarrow> uuid result \<times> world" where
  "RefundPaymentAtomic E r paymentID refundAmount idempotencyKey w =
     (if \<not> repo_ready r then (Inl (Sentinel ErrRepositoryNotConfigured), w)
      else if paymentID = uuid_Nil then (Inl (wrap_post (Sentinel ErrInvalidPayment) '': id is required''), w)
      else let key = TrimSpace idempotencyKey in
      if key = [] then (Inl (Sentinel ErrInvalidIdempotencyKey), w)
      else if length key > 255 then
        (Inl (wrap_post (Sentinel ErrInvalidIdempotencyKey) '': idempotency key too long''), w)
      else if refundAmount \<le> 0 then (Inl (Sentinel ErrInvalidAmount), w)
      else run_tx E ''refund tx begin'' ''refund tx commit''
        (\<lambda>w1. case db_call E (refund_insert E paymentID refundAmount StatusSuccess key) w1 of
           (Inl err, w2) \<Rightarrow>
             if isUniqueViolation err then (Inl (Sentinel ErrConflict), w2)
             else (Inl (wrap_pre ''insert refund'' err), w2)
         | (Inr refundID, w2) \<Rightarrow>
             (case db_call E (\<lambda>v. update_returning paymentID StatusSuccess
                     (\<lambda>row. row\<lparr>pr_status := StatusRefunded, pr_updated_at := db_now E v\<rparr>) v) w2 of
                (Inl scanErr, w3) \<Rightarrow>
                  if errors_Is scanErr ErrNoRows then (Inl (Sentinel ErrStatusMismatch), w3)
                  else (Inl (wrap_pre ''update payment to refunded'' scanErr), w3)
              | (Inr row, w3) \<Rightarrow>
                  (case Now E w3 of (createdAt, w4) \<Rightarrow>
                     (case enqueueOutboxPaymentEventTx E r EventPaymentRefunded paymentID (pr_merchant_id row)
                            (pr_amount row) (pr_currency row) StatusRefunded (null_string (pr_psp row))
                            (null_string (pr_psp_reference_id row)) [] refundID refundAmount True createdAt w4 of
                        (Inl err, w5) \<Rightarrow> (Inl err, w5)
                      | (Inr _, w5) \<Rightarrow> (Inr refundID, w5))))) w)"

section \<open>Lemmas on statements\<close>

lemmas result_splits = prod.splits sum.splits if_splits option.splits

text \<open>A call that answers without an error has run its statement.\<close>

lemma db_call_Inr: "db_call E stmt w = (Inr x, w') \<Longrightarrow> stmt (tickw w) = (Inr x, w')"
  by (cases rule: db_call_cases [of E stmt w]) auto

text \<open>A call that a constraint refused has changed nothing.\<close>

lemma db_call_code:
  assumes "db_call E stmt w = (Inl e, w')" and "errors_As_Pg e = Some ''23505'' \<or> errors_Is e ErrNoRows"
  shows "stmt (tickw w) = (Inl e, w')"
  using assms by (cases rule: db_call_cases [of E stmt w]) auto

lemma select_status_tables [simp]: "tables (snd (select_status i w)) = tables w"
  by (simp add: select_status_def split: option.split)

lemma select_payment_tables [simp]: "tables (snd (select_payment P w)) = tables w"
  by (simp add: select_payment_def split: option.split)

lemma select_calls_tables:
  "db_call E (select_status i) w = (res, w') \<Longrightarrow> tables w' = tables w"
  "db_call E (select_payment P) w = (res', w') \<Longrightarrow> tables w' = tables w"
  using db_call_read [of "select_status i" E w] db_call_read [of "select_payment P" E w] by simp_all

text \<open>
  The event row that a transaction inserts: pending, not tried yet, addressed to the
  merchant's URL, and carrying the payload of the change.
\<close>

definition event_for :: "env \<Rightarrow> payment_repo option \<Rightarrow> string \<Rightarrow> uuid \<Rightarrow> uuid \<Rightarrow> outbox_webhook_data \<Rightarrow> outbox_row \<Rightarrow> bool" where
  "event_for E r ty i m d ev \<longleftrightarrow>
     ob_id ev \<noteq> uuid_Nil \<and> ob_payment_id ev = i \<and> ob_merchant_id ev = m \<and> ob_event_type ev = ty \<and>
     ob_webhook_url ev = webhookURLForMerchant r m \<and> ob_status ev = OutboxStatusPending \<and>
     ob_attempt_count ev = 0 \<and> ob_last_error ev = None \<and> ob_delivered_at ev = None \<and>
     (\<exists>at. ob_payload ev = marshalOutboxPayload E (ob_id ev) ty at d)"

text \<open>The data object of an event about the payment in \<open>row\<close>.\<close>

definition event_data :: "env \<Rightarrow> payment_row \<Rightarrow> Status \<Rightarrow> string \<Rightarrow> string \<Rightarrow> string \<Rightarrow> outbox_webhook_data" where
  "event_data E row st pspName ref reason =
     \<lparr>wd_PaymentID = uuid_str E (pr_id row), wd_MerchantID = uuid_str E (pr_merchant_id row),
      wd_Amount = pr_amount row, wd_Currency = pr_currency row, wd_Status = st, wd_PSP = pspName,
      wd_PSPReferenceID = ref, wd_FailureReason = reason, wd_RefundID = [], wd_RefundAmount = 0\<rparr>"

lemma EnqueueTx_Inr:
  assumes "EnqueueTx E (Some e) w = (Inr x, w')"
  obtains now where "oe_ID e \<noteq> uuid_Nil" "tables w' = (payments w, refunds w, outbox w @ [outbox_row_of e now])"
    "oe_ID e \<notin> ob_id ` set (outbox w)"
proof -
  have "oe_ID e \<noteq> uuid_Nil" using assms by (auto simp: EnqueueTx_def)
  moreover have "outbox_insert (outbox_row_of e (time_at E (tick w))) (tickw (tickw w)) = (Inr x, w')"
    using assms calculation by (auto simp: EnqueueTx_def Now_def dest: db_call_Inr)
  ultimately show thesis
    by (intro that [of "time_at E (tick w)"])
      (auto simp: outbox_insert_def tables_def outbox_row_of_def split: if_splits)
qed

lemma enqueue_event:
  assumes "enqueueOutboxPaymentEventTx E r ty i m amount cur st psp ref reason rid ramount withRefund at w = (Inr x, w')"
  obtains ev where "tables w' = (payments w, refunds w, outbox w @ [ev])" "ob_id ev \<notin> ob_id ` set (outbox w)"
    "event_for E r ty i m \<lparr>wd_PaymentID = uuid_str E i, wd_MerchantID = uuid_str E m,
      wd_Amount = amount, wd_Currency = cur, wd_Status = st, wd_PSP = psp, wd_PSPReferenceID = ref,
      wd_FailureReason = reason, wd_RefundID = (if withRefund then uuid_str E rid else []),
      wd_RefundAmount = (if withRefund then ramount else 0)\<rparr> ev"
proof -
  obtain eid e where e: "EnqueueTx E (Some e) (tickw w) = (Inr x, w')" "oe_ID e = eid" "oe_PaymentID e = i"
      "oe_MerchantID e = m" "oe_EventType e = ty" "oe_WebhookURL e = webhookURLForMerchant r m" "oe_Status e = []"
      "oe_LastError e = []" "oe_AttemptCount e = 0" "oe_DeliveredAt e = zero_time"
      "oe_Payload e = marshalOutboxPayload E eid ty at \<lparr>wd_PaymentID = uuid_str E i, wd_MerchantID = uuid_str E m,
      wd_Amount = amount, wd_Currency = cur, wd_Status = st, wd_PSP = psp, wd_PSPReferenceID = ref,
      wd_FailureReason = reason, wd_RefundID = (if withRefund then uuid_str E rid else []),
      wd_RefundAmount = (if withRefund then ramount else 0)\<rparr>"
    using assms
    by (cases "uuid7_at E (tick w)"; cases withRefund)
      (auto simp: enqueueOutboxPaymentEventTx_def NewID_def Let_def split: if_splits option.splits)
  from EnqueueTx_Inr [OF e(1)] obtain now where n: "oe_ID e \<noteq> uuid_Nil"
    "tables w' = (payments w, refunds w, outbox w @ [outbox_row_of e now])" "oe_ID e \<notin> ob_id ` set (outbox w)"
    by auto
  show thesis
  proof (rule that [OF n(2)])
    show "ob_id (outbox_row_of e now) \<notin> ob_id ` set (outbox w)" using n by (simp add: outbox_row_of_def)
  qed (use n e in \<open>auto simp: event_for_def outbox_row_of_def IsZero_def\<close>)
qed

lemma update_returning_Inr:
  assumes "db_call E (\<lambda>v. update_returning i from (f (db_now E v)) v) w = (Inr row, w')"
  shows "row \<in> set (payments w) \<and> pr_id row = i \<and> pr_status row = from \<and>
    (\<exists>t. tables w' = (sql_update (at_status i from) (f t) (payments w), refunds w, outbox w))"
  using db_call_Inr [OF assms] find_SomeD [of "at_status i from" "payments w" row]
  by (auto simp: update_returning_def tables_def at_status_def split: option.splits)

section \<open>Status changes and their events are one unit\<close>

text \<open>
  A committed status change of payment \<open>i\<close>: its row was in status \<open>from\<close>, every row of that
  identifier and status was set by \<open>f\<close>, and one event about it was appended to the outbox.
\<close>

definition status_commit :: "env \<Rightarrow> payment_repo option \<Rightarrow> uuid \<Rightarrow> Status \<Rightarrow> (time \<Rightarrow> payment_row \<Rightarrow> payment_row)
    \<Rightarrow> string \<Rightarrow> (payment_row \<Rightarrow> outbox_webhook_data) \<Rightarrow> world \<Rightarrow> world \<Rightarrow> bool" where
  "status_commit E r i from f ty d w w' \<longleftrightarrow>
     (\<exists>row \<in> set (payments w). \<exists>t ev. pr_id row = i \<and> pr_status row = from \<and>
        payments w' = sql_update (at_status i from) (f t) (payments w) \<and>
        outbox w' = outbox w @ [ev] \<and> ob_id ev \<notin> ob_id ` set (outbox w) \<and>
        event_for E r ty i (pr_merchant_id row) (d row) ev)"

text \<open>What a transactional method may do: nothing at all, or all of it.\<close>

definition atomic_change :: "(world \<Rightarrow> world \<Rightarrow> bool) \<Rightarrow> unit result \<times> world \<Rightarrow> world \<Rightarrow> bool" where
  "atomic_change C out w \<longleftrightarrow>
     (case out of (res, w') \<Rightarrow> (tables w' = tables w \<and> res \<noteq> Inr ()) \<or> (C w w' \<and> refunds w' = refunds w))"

lemma status_commit_cong:
  assumes "tables w = tables v" "tables w' = tables v'"
  shows "status_commit E r i from f ty d w w' = status_commit E r i from f ty d v v'"
  using assms by (simp add: status_commit_def tables_def)

lemma run_tx_outcome:
  assumes out: "run_tx E b c body w = (res, w')"
    and body: "\<And>x w1 w2. body w1 = (Inr x, w2) \<Longrightarrow> C x w1 w2"
    and cong: "\<And>x w w' v v'. tables w = tables v \<Longrightarrow> tables w' = tables v' \<Longrightarrow> C x w w' = C x v v'"
  shows "(tables w' = tables w \<and> (\<exists>e. res = Inl e)) \<or> (\<exists>x. C x w w' \<and> (res = Inr x \<or> (\<exists>e. res = Inl e)))"
proof -
  have fin: "C x w w'" if "tables w1 = tables w" "body w1 = (Inr x, w2)" "tables w' = tables w2" for x w1 w2
    using body [OF that(2)] cong [OF that(1) [symmetric] that(3)] by simp
  show ?thesis
  proof (cases res)
    case (Inl e)
    with run_tx_atomic(1) [OF out] fin show ?thesis by blast
  next
    case (Inr x)
    with run_tx_atomic(2) [OF out Inr] fin show ?thesis by blast
  qed
qed

lemma run_tx_atomic_change:
  assumes "\<And>w1 w2. body w1 = (Inr (), w2) \<Longrightarrow> C w1 w2 \<and> refunds w2 = refunds w1"
    and "\<And>w w' v v'. tables w = tables v \<Longrightarrow> tables w' = tables v' \<Longrightarrow> C w w' = C v v'"
  shows "atomic_change C (run_tx E b c body w) w"
proof -
  obtain res w' where out: "run_tx E b c body w = (res, w')" by fastforce
  have cong: "(C v v' \<and> refunds v' = refunds v) = (C u u' \<and> refunds u' = refunds u)"
    if "tables v = tables u" "tables v' = tables u'" for u u' v v'
    using assms(2) [OF that] that by (simp add: tables_eq_iff)
  have "(tables w' = tables w \<and> (\<exists>e. res = Inl e)) \<or>
      (\<exists>x. (C w w' \<and> refunds w' = refunds w) \<and> (res = Inr x \<or> (\<exists>e. res = Inl e)))"
    by (rule run_tx_outcome [OF out _ cong]) (simp_all add: assms(1))
  then show ?thesis unfolding atomic_change_def out by auto
qed

text \<open>The body the two status methods share.\<close>

lemma status_body:
  assumes "(case db_call E (\<lambda>v. update_returning i from (f (db_now E v)) v) w1 of
       (Inl e, w2) \<Rightarrow> K e w2
     | (Inr row, w2) \<Rightarrow> (case Now E w2 of (at, w3) \<Rightarrow>
         enqueueOutboxPaymentEventTx E r ty i (pr_merchant_id row) (pr_amount row) (pr_currency row) st psp ref
           reason uuid_Nil 0 False at w3)) = (Inr (), w')"
    and "\<And>e w2. fst (K e w2) \<noteq> Inr ()"
  shows "status_commit E r i from f ty (\<lambda>row. event_data E row st psp ref reason) w1 w' \<and> refunds w' = refunds w1"
proof -
  obtain row w2 where u: "db_call E (\<lambda>v. update_returning i from (f (db_now E v)) v) w1 = (Inr row, w2)"
    and q: "enqueueOutboxPaymentEventTx E r ty i (pr_merchant_id row) (pr_amount row) (pr_currency row) st psp ref
           reason uuid_Nil 0 False (time_at E (tick w2)) (tickw w2) = (Inr (), w')"
    using assms(1) assms(2)
    by (auto simp: Now_def split: prod.splits sum.splits) (metis fst_conv)
  from update_returning_Inr [OF u] obtain t where row: "row \<in> set (payments w1)" "pr_id row = i" "pr_status row = from"
    and t2: "tables w2 = (sql_update (at_status i from) (f t) (payments w1), refunds w1, outbox w1)" by blast
  from enqueue_event [OF q] obtain ev where "tables w' = (payments w2, refunds w2, outbox w2 @ [ev])"
    "ob_id ev \<notin> ob_id ` set (outbox w2)"
    "event_for E r ty i (pr_merchant_id row) (event_data E row st psp ref reason) ev"
    using row by (auto simp: event_data_def)
  with row t2 show ?thesis unfolding status_commit_def tables_def by auto
qed

lemma failed_row [simp]:
  "fst (if b then (case resolve_mismatch E m i from w2 of (err, w3) \<Rightarrow> (Inl err, w3)) else (Inl e, w2)) \<noteq> Inr ()"
  by (simp split: prod.split)

lemma settle_tx:
  assumes "from \<noteq> to"
  shows "atomic_change
    (status_commit E r i from
      (\<lambda>t row. row\<lparr>pr_status := to, pr_psp := strOrNil psp, pr_psp_reference_id := strOrNil ref, pr_updated_at := t\<rparr>)
      EventPaymentSuccess (\<lambda>row. event_data E row to psp ref []))
    (UpdatePaymentStatusWithPSP E r i from to psp ref w) w"
  unfolding UpdatePaymentStatusWithPSP_def using assms
  by (auto simp: atomic_change_def [of _ "(Inl _, w)"]
      intro!: run_tx_atomic_change status_commit_cong elim!: status_body)

text \<open>
  C6: \<open>UpdatePaymentStatusWithPSP\<close> for a change of status is one unit with its event,
  whatever faults hit it, a lost commit acknowledgement included: either it reports an error
  and no table has changed, or the payment that was in the expected status has the new status,
  provider and reference and exactly one event, of type \<open>payment.success\<close>, is queued for it.
  So an answer without error means that the change and its event are stored.
\<close>

theorem status_with_psp_atomic:
  assumes "from \<noteq> to"
  shows "atomic_change
    (status_commit E r i from
      (\<lambda>t row. row\<lparr>pr_status := to, pr_psp := strOrNil psp, pr_psp_reference_id := strOrNil ref, pr_updated_at := t\<rparr>)
      EventPaymentSuccess (\<lambda>row. event_data E row to psp ref []))
    (UpdatePaymentStatusWithPSP E r i from to psp ref w) w"
  using assms by (rule settle_tx)

lemma fail_tx:
  assumes "from \<noteq> StatusFailed"
  shows "atomic_change
    (status_commit E r i from
      (\<lambda>t row. row\<lparr>pr_status := StatusFailed, pr_psp := strOrNil psp, pr_psp_reference_id := strOrNil ref,
         pr_failure_reason := strOrNil reason, pr_updated_at := t\<rparr>)
      EventPaymentFailed (\<lambda>row. event_data E row StatusFailed psp ref reason))
    (UpdatePaymentFailed E r i from psp ref reason w) w"
  unfolding UpdatePaymentFailed_def using assms
  by (auto simp: atomic_change_def [of _ "(Inl _, w)"]
      intro!: run_tx_atomic_change status_commit_cong elim!: status_body)

text \<open>
  The same for \<open>UpdatePaymentFailed\<close>: an error and no change at all, or the payment is
  failed with its provider, reference and reason and one \<open>payment.failed\<close> event is queued.
\<close>

theorem failed_atomic:
  assumes "from \<noteq> StatusFailed"
  shows "atomic_change
    (status_commit E r i from
      (\<lambda>t row. row\<lparr>pr_status := StatusFailed, pr_psp := strOrNil psp, pr_psp_reference_id := strOrNil ref,
         pr_failure_reason := strOrNil reason, pr_updated_at := t\<rparr>)
      EventPaymentFailed (\<lambda>row. event_data E row StatusFailed psp ref reason))
    (UpdatePaymentFailed E r i from psp ref reason w) w"
  using assms by (rule fail_tx)

text \<open>A committed refund of \<open>amount\<close> on payment \<open>i\<close> under \<open>key\<close>, with identifier \<open>rid\<close>.\<close>

definition refund_commit :: "env \<Rightarrow> payment_repo option \<Rightarrow> uuid \<Rightarrow> int \<Rightarrow> string \<Rightarrow> uuid \<Rightarrow> world \<Rightarrow> world \<Rightarrow> bool" where
  "refund_commit E r i amount key rid w w' \<longleftrightarrow>
     (\<exists>row \<in> set (payments w). \<exists>t u ev. pr_id row = i \<and> pr_status row = StatusSuccess \<and>
        payments w' = sql_update (at_status i StatusSuccess)
          (\<lambda>row. row\<lparr>pr_status := StatusRefunded, pr_updated_at := t\<rparr>) (payments w) \<and>
        refunds w' = refunds w @ [\<lparr>rf_id = rid, rf_payment_id = i, rf_amount = amount, rf_status = StatusSuccess,
          rf_idempotency_key = key, rf_created_at = u\<rparr>] \<and>
        rid \<notin> rf_id ` set (refunds w) \<and> key \<notin> rf_idempotency_key ` set (refunds w) \<and>
        outbox w' = outbox w @ [ev] \<and> ob_id ev \<notin> ob_id ` set (outbox w) \<and>
        event_for E r EventPaymentRefunded i (pr_merchant_id row)
          ((event_data E row StatusRefunded (null_string (pr_psp row)) (null_string (pr_psp_reference_id row)) [])
             \<lparr>wd_RefundID := uuid_str E rid, wd_RefundAmount := amount\<rparr>) ev)"

lemma refund_insert_Inr:
  assumes "db_call E (refund_insert E i amount st key) w = (Inr rid, w')"
  obtains u where "tables w' = (payments w, refunds w @ [\<lparr>rf_id = rid, rf_payment_id = i, rf_amount = amount,
      rf_status = st, rf_idempotency_key = key, rf_created_at = u\<rparr>], outbox w)"
    "rid \<notin> rf_id ` set (refunds w)" "key \<notin> rf_idempotency_key ` set (refunds w)"
  using db_call_Inr [OF assms] that [of "db_now E (tickw w)"]
  by (auto simp: refund_insert_def tables_def Let_def split: if_splits)

lemma refund_body:
  assumes "(case db_call E (refund_insert E i amount StatusSuccess key) w1 of
      (Inl err, w2) \<Rightarrow>
        if isUniqueViolation err then (Inl (Sentinel ErrConflict), w2) else (Inl (wrap_pre m1 err), w2)
    | (Inr rid, w2) \<Rightarrow>
        (case db_call E (\<lambda>v. update_returning i StatusSuccess
             (\<lambda>row. row\<lparr>pr_status := StatusRefunded, pr_updated_at := db_now E v\<rparr>) v) w2 of
           (Inl e, w3) \<Rightarrow>
             if errors_Is e ErrNoRows then (Inl (Sentinel ErrStatusMismatch), w3) else (Inl (wrap_pre m2 e), w3)
         | (Inr row, w3) \<Rightarrow>
             (case Now E w3 of (at, w4) \<Rightarrow>
                (case enqueueOutboxPaymentEventTx E r EventPaymentRefunded i (pr_merchant_id row)
                       (pr_amount row) (pr_currency row) StatusRefunded (null_string (pr_psp row))
                       (null_string (pr_psp_reference_id row)) [] rid amount True at w4 of
                   (Inl err, w5) \<Rightarrow> (Inl err, w5)
                 | (Inr _, w5) \<Rightarrow> (Inr rid, w5))))) = (Inr x, w')"
  shows "refund_commit E r i amount key x w1 w'"
proof -
  obtain w2 row w3 where ins: "db_call E (refund_insert E i amount StatusSuccess key) w1 = (Inr x, w2)"
    and u: "db_call E (\<lambda>v. update_returning i StatusSuccess
             (\<lambda>row. row\<lparr>pr_status := StatusRefunded, pr_updated_at := db_now E v\<rparr>) v) w2 = (Inr row, w3)"
    and q: "enqueueOutboxPaymentEventTx E r EventPaymentRefunded i (pr_merchant_id row)
        (pr_amount row) (pr_currency row) StatusRefunded (null_string (pr_psp row))
        (null_string (pr_psp_reference_id row)) [] x amount True (time_at E (tick w3)) (tickw w3) = (Inr (), w')"
    using assms by (auto simp: Now_def split: prod.splits sum.splits if_splits)
  from refund_insert_Inr [OF ins] obtain t where i: "tables w2 = (payments w1, refunds w1 @
      [\<lparr>rf_id = x, rf_payment_id = i, rf_amount = amount, rf_status = StatusSuccess, rf_idempotency_key = key,
        rf_created_at = t\<rparr>], outbox w1)"
    "x \<notin> rf_id ` set (refunds w1)" "key \<notin> rf_idempotency_key ` set (refunds w1)" by blast
  from update_returning_Inr [OF u] obtain s where row: "row \<in> set (payments w1)" "pr_id row = i"
      "pr_status row = StatusSuccess"
    and t3: "tables w3 = (sql_update (at_status i StatusSuccess)
        (\<lambda>row. row\<lparr>pr_status := StatusRefunded, pr_updated_at := s\<rparr>) (payments w1), refunds w2, outbox w1)"
    using i(1) by (auto simp: tables_def)
  from enqueue_event [OF q] obtain ev where "tables w' = (payments w3, refunds w3, outbox w3 @ [ev])"
    "ob_id ev \<notin> ob_id ` set (outbox w3)"
    "event_for E r EventPaymentRefunded i (pr_merchant_id row)
       ((event_data E row StatusRefunded (null_string (pr_psp row)) (null_string (pr_psp_reference_id row)) [])
          \<lparr>wd_RefundID := uuid_str E x, wd_RefundAmount := amount\<rparr>) ev"
    using row by (auto simp: event_data_def)
  with row t3 i show ?thesis unfolding refund_commit_def tables_def by auto
qed

lemma refund_tx:
  assumes "RefundPaymentAtomic E r i amount key w = (res, w')"
  shows "(tables w' = tables w \<and> (\<exists>e. res = Inl e)) \<or>
    (\<exists>rid. refund_commit E r i amount (TrimSpace key) rid w w' \<and> (res = Inr rid \<or> (\<exists>e. res = Inl e)))"
proof -
  have cong: "refund_commit E r i amount k rid v v' = refund_commit E r i amount k rid u u'"
    if "tables v = tables u" "tables v' = tables u'" for k rid v v' u u'
    using that by (simp add: refund_commit_def tables_def)
  show ?thesis
  proof (cases "repo_ready r \<and> i \<noteq> uuid_Nil \<and> TrimSpace key \<noteq> [] \<and> length (TrimSpace key) \<le> 255 \<and> 0 < amount")
    case True
    then have g: "(\<not> repo_ready r) = False" "(i = uuid_Nil) = False" "(TrimSpace key = []) = False"
      "(255 < length (TrimSpace key)) = False" "(amount \<le> 0) = False" by auto
    note tx = assms [unfolded RefundPaymentAtomic_def Let_def g if_False]
    show ?thesis by (rule run_tx_outcome [OF tx refund_body cong])
  next
    case False
    then have "w' = w \<and> (\<exists>e. res = Inl e)"
      using assms by (auto simp: RefundPaymentAtomic_def Let_def split: if_splits)
    then show ?thesis by blast
  qed
qed

text \<open>
  C5: a refund is one unit. \<open>RefundPaymentAtomic\<close> either reports an error and leaves every
  table as it was, or the payment that was successful is now refunded, exactly one refund row
  of that amount under a key and an identifier not used before was added, and one
  \<open>payment.refunded\<close> event naming the refund is queued; an answer is the identifier of that row.
\<close>

theorem refund_atomic:
  assumes "RefundPaymentAtomic E r i amount key w = (res, w')"
  shows "(tables w' = tables w \<and> (\<exists>e. res = Inl e)) \<or>
    (\<exists>rid. refund_commit E r i amount (TrimSpace key) rid w w' \<and> (res = Inr rid \<or> (\<exists>e. res = Inl e)))"
  using assms by (rule refund_tx)

section \<open>Concrete runs\<close>

text \<open>A database with one payment in status \<open>st\<close>, and a repository over it.\<close>

definition sample_payment :: "Status \<Rightarrow> payment_row" where
  "sample_payment st = \<lparr>pr_id = 1, pr_merchant_id = 2, pr_amount = 500, pr_currency = ''USD'', pr_status = st,
     pr_idempotency_key = ''k1'', pr_psp = None, pr_psp_reference_id = None, pr_failure_reason = None,
     pr_created_at = 0, pr_updated_at = 0\<rparr>"

definition sample_db :: "Status \<Rightarrow> world" where
  "sample_db st = empty_world\<lparr>payments := [sample_payment st]\<rparr>"

definition sample_repo :: payment_repo where
  "sample_repo = \<lparr>repo_db = True, repo_outbox = True, repo_registry = None\<rparr>"

lemmas tx_eval = sample_db_def sample_payment_def sample_repo_def empty_world_def steady_def repo_ready_def
  run_tx_def db_call_def tickw_def update_returning_def at_status_def Now_def NewID_def Let_def
  enqueueOutboxPaymentEventTx_def EnqueueTx_def outbox_insert_def outbox_row_of_def uuid_Nil_def

theorem status_with_psp_atomic_witness:
  "atomic_change
    (status_commit steady (Some sample_repo) 1 StatusProcessing
      (\<lambda>t row. row\<lparr>pr_status := StatusSuccess, pr_psp := strOrNil ''stripe'', pr_psp_reference_id := strOrNil ''ch'',
         pr_updated_at := t\<rparr>)
      EventPaymentSuccess (\<lambda>row. event_data steady row StatusSuccess ''stripe'' ''ch'' []))
    (UpdatePaymentStatusWithPSP steady (Some sample_repo) 1 StatusProcessing StatusSuccess ''stripe'' ''ch''
       (sample_db StatusProcessing)) (sample_db StatusProcessing) \<and>
   fst (UpdatePaymentStatusWithPSP steady (Some sample_repo) 1 StatusProcessing StatusSuccess ''stripe'' ''ch''
       (sample_db StatusProcessing)) = Inr ()"
  by (intro conjI status_with_psp_atomic) (simp_all add: UpdatePaymentStatusWithPSP_def tx_eval)

theorem failed_atomic_witness:
  "atomic_change
    (status_commit steady (Some sample_repo) 1 StatusProcessing
      (\<lambda>t row. row\<lparr>pr_status := StatusFailed, pr_psp := strOrNil ''stripe'', pr_psp_reference_id := strOrNil [],
         pr_failure_reason := strOrNil ''declined'', pr_updated_at := t\<rparr>)
      EventPaymentFailed (\<lambda>row. event_data steady row StatusFailed ''stripe'' [] ''declined''))
    (UpdatePaymentFailed steady (Some sample_repo) 1 StatusProcessing ''stripe'' [] ''declined''
       (sample_db StatusProcessing)) (sample_db StatusProcessing) \<and>
   fst (UpdatePaymentFailed steady (Some sample_repo) 1 StatusProcessing ''stripe'' [] ''declined''
       (sample_db StatusProcessing)) = Inr ()"
  by (intro conjI failed_atomic) (simp_all add: UpdatePaymentFailed_def tx_eval)

lemma TrimSpace_r1: "TrimSpace ''r1'' = ''r1''" "TrimSpace ''k1'' = ''k1''"
  by (simp_all add: TrimSpace_fixed asciiSpace_def)

theorem refund_atomic_witness:
  "\<exists>rid w'. RefundPaymentAtomic steady (Some sample_repo) 1 500 ''r1'' (sample_db StatusSuccess) = (Inr rid, w') \<and>
     refund_commit steady (Some sample_repo) 1 500 ''r1'' rid (sample_db StatusSuccess) w'"
proof -
  obtain rid w' where r: "RefundPaymentAtomic steady (Some sample_repo) 1 500 ''r1'' (sample_db StatusSuccess) = (Inr rid, w')"
    by (simp add: RefundPaymentAtomic_def TrimSpace_r1 refund_insert_def tx_eval)
  then show ?thesis using refund_atomic [OF r] by (auto simp: TrimSpace_r1)
qed

section \<open>Creating and reading payments\<close>

text \<open>Fields of a payment that passes validation.\<close>

lemma validate_Inr:
  assumes "validatePaymentForCreate E (Some p) = Inr q"
  shows "q = p\<lparr>p_IdempotencyKey := TrimSpace (p_IdempotencyKey p),
      p_Currency := TrimSpace (ToUpper (e_upper E) (p_Currency p)), p_Status := StatusInitiated\<rparr> \<and>
    p_ID p \<noteq> uuid_Nil \<and> p_MerchantID p \<noteq> uuid_Nil \<and> TrimSpace (p_IdempotencyKey p) \<noteq> [] \<and>
    length (TrimSpace (p_IdempotencyKey p)) \<le> 255 \<and> 0 < p_Amount p \<and> IsInt64 (p_Amount p) \<and>
    ValidCurrency (TrimSpace (ToUpper (e_upper E) (p_Currency p)))"
  using assms by (auto simp: validatePaymentForCreate_def Let_def split: if_splits)

text \<open>The times stored for a payment, and the world after the clock was read for them.\<close>

definition created_of :: "env \<Rightarrow> payment \<Rightarrow> world \<Rightarrow> time \<times> time \<times> world" where
  "created_of E p w =
     (let c = (if IsZero (p_CreatedAt p) then time_at E (tick w) else p_CreatedAt p)
      in (c, if IsZero (p_UpdatedAt p) then c else p_UpdatedAt p, if IsZero (p_CreatedAt p) then tickw w else w))"

lemma created_of_tables [simp]: "tables (snd (snd (created_of E p w))) = tables w"
  by (simp add: created_of_def Let_def)

lemma CreatePayment_valid:
  assumes "repo_ready r" and "validatePaymentForCreate E pp = Inr p" and "created_of E p w = (c, u, w1)"
  shows "repo_CreatePayment E r pp w =
    (case db_call E (payment_insert (payment_row_of p c u)) w1 of
       (Inl err, w2) \<Rightarrow>
         (Inl (if isUniqueViolation err then Sentinel ErrConflict else wrap_pre ''insert payment'' err), w2)
     | (Inr _, w2) \<Rightarrow> (Inr (p\<lparr>p_CreatedAt := c, p_UpdatedAt := u\<rparr>), w2))"
proof -
  obtain res w2 where d: "db_call E (payment_insert (payment_row_of p c u)) w1 = (res, w2)" by fastforce
  have "c = (if IsZero (p_CreatedAt p) then time_at E (tick w) else p_CreatedAt p)"
    "u = (if IsZero (p_UpdatedAt p) then c else p_UpdatedAt p)"
    "w1 = (if IsZero (p_CreatedAt p) then tickw w else w)"
    using assms(3) by (auto simp: created_of_def Let_def)
  with assms(1,2) d show ?thesis
    by (cases "IsZero (p_CreatedAt p)"; cases "IsZero (p_UpdatedAt p)"; cases res)
      (simp_all add: repo_CreatePayment_def Now_def Let_def)
qed

lemma CreatePayment_refused:
  assumes "repo_CreatePayment E r pp w = (res, w')"
    and "\<not> repo_ready r \<or> (\<exists>e. validatePaymentForCreate E pp = Inl e)"
  shows "w' = w \<and> (\<exists>e. res = Inl e)"
  using assms(2)
proof
  assume "\<not> repo_ready r"
  with assms(1) show ?thesis by (auto simp: repo_CreatePayment_def)
next
  assume "\<exists>e. validatePaymentForCreate E pp = Inl e"
  then obtain e where "validatePaymentForCreate E pp = Inl e" by blast
  with assms(1) show ?thesis by (cases "repo_ready r") (simp_all add: repo_CreatePayment_def, blast+)
qed

lemma payment_insert_cases:
  assumes "payment_insert row w = (res, w')"
  obtains (dup) "pr_id row \<in> pr_id ` set (payments w) \<or> pr_idempotency_key row \<in> pr_idempotency_key ` set (payments w)"
    "res = Inl (PgError ''23505'' ''duplicate key value'')" "w' = w"
  | (new) "pr_id row \<notin> pr_id ` set (payments w)" "pr_idempotency_key row \<notin> pr_idempotency_key ` set (payments w)"
    "res = Inr ()" "w' = w\<lparr>payments := payments w @ [row]\<rparr>"
proof (cases "pr_id row \<in> pr_id ` set (payments w) \<or> pr_idempotency_key row \<in> pr_idempotency_key ` set (payments w)")
  case True
  with assms show thesis by (intro dup) (simp_all add: payment_insert_def)
next
  case False
  with assms show thesis by (intro new) (auto simp: payment_insert_def)
qed

text \<open>A row that was inserted: what \<open>CreatePayment\<close> does to the tables when it changes them.\<close>

definition created :: "env \<Rightarrow> payment \<Rightarrow> payment_row \<Rightarrow> world \<Rightarrow> world \<Rightarrow> bool" where
  "created E p row w w' \<longleftrightarrow>
     (\<exists>c u. row = payment_row_of p c u) \<and> tables w' = (payments w @ [row], refunds w, outbox w) \<and>
     pr_id row \<notin> pr_id ` set (payments w) \<and> pr_idempotency_key row \<notin> pr_idempotency_key ` set (payments w)"

lemma CreatePayment_outcome:
  assumes "repo_CreatePayment E r pp w = (res, w')"
  obtains (refused) e where "res = Inl e" "tables w' = tables w"
  | (created) p row where "validatePaymentForCreate E pp = Inr p" "created E p row w w'"
      "\<And>q. res = Inr q \<Longrightarrow> row = payment_row_of p (p_CreatedAt q) (p_UpdatedAt q) \<and>
         q = p\<lparr>p_CreatedAt := p_CreatedAt q, p_UpdatedAt := p_UpdatedAt q\<rparr>"
      "\<And>e. res = Inl e \<Longrightarrow> \<not> errors_Is e ErrConflict"
proof (cases "repo_ready r \<and> (\<exists>p. validatePaymentForCreate E pp = Inr p)")
  case False
  then have "\<not> repo_ready r \<or> (\<exists>e. validatePaymentForCreate E pp = Inl e)"
    by (metis sum.exhaust)
  with CreatePayment_refused [OF assms] refused show thesis by blast
next
  case True
  then obtain p where r: "repo_ready r" and p: "validatePaymentForCreate E pp = Inr p" by blast
  obtain c u w1 where t: "created_of E p w = (c, u, w1)" by (metis prod.exhaust)
  note eq = CreatePayment_valid [OF r p t]
  have tw: "payments w1 = payments w" "refunds w1 = refunds w" "outbox w1 = outbox w"
    using created_of_tables [of E p w] by (simp_all add: t tables_eq_iff)
  let ?row = "payment_row_of p c u"
  obtain res1 w2 where ins: "payment_insert ?row (tickw w1) = (res1, w2)" by fastforce
  show thesis
  proof (cases rule: db_call_cases [of E "payment_insert ?row" w1])
    case ok
    from ins show thesis
    proof (cases rule: payment_insert_cases)
      case dup
      with ok(1) ins eq assms tw show thesis
        by (intro refused) (auto simp: isUniqueViolation_def tables_eq_iff)
    next
      case new
      with ok(1) ins eq assms tw p show thesis
        by (intro created [of p ?row]) (auto simp: created_def tables_def)
    qed
  next
    case (lost f)
    with eq assms tw show thesis by (intro refused) (auto simp: isUniqueViolation_def tables_eq_iff)
  next
    case (late f)
    from ins show thesis
    proof (cases rule: payment_insert_cases)
      case dup
      with late ins eq assms tw show thesis
        by (intro refused) (auto simp: isUniqueViolation_def tables_eq_iff)
    next
      case new
      have "\<not> errors_Is (fault_error f) ErrConflict" using fault_not_sentinel by blast
      with new late ins eq assms tw p show thesis
        by (intro created [of p ?row]) (auto simp: created_def tables_def isUniqueViolation_def)
    qed
  qed
qed

lemma scan_row_of:
  "IsInt64 (p_Amount p) \<Longrightarrow>
   scanPayment (payment_row_of p c u) = p\<lparr>p_CreatedAt := pg_ts c, p_UpdatedAt := pg_ts u\<rparr>"
  by (simp add: scanPayment_def payment_row_of_def)

lemma find_new: "\<forall>r \<in> set t. \<not> P r \<Longrightarrow> P row \<Longrightarrow> find P (t @ [row]) = Some row"
  by (induction t) auto

text \<open>
  C29: a payment that \<open>CreatePayment\<close> stores can be read back, by its identifier and by its
  idempotency key (with or without white space around it): the answer is the normalised
  payment (trimmed key, upper-case currency, status \<open>initiated\<close>), its times in the database's
  microseconds. Nothing else has changed in the database.
\<close>

theorem create_then_get:
  assumes "repo_CreatePayment E r (Some p) w = (Inr q, w')" and "fault_at E (tick w') = None"
  shows "fst (GetPaymentByID E r (p_ID p) w') =
      Inr (q\<lparr>p_CreatedAt := pg_ts (p_CreatedAt q), p_UpdatedAt := pg_ts (p_UpdatedAt q)\<rparr>) \<and>
    fst (GetPaymentStatusByIdempotencyKey E r (p_IdempotencyKey p) w') =
      Inr (q\<lparr>p_CreatedAt := pg_ts (p_CreatedAt q), p_UpdatedAt := pg_ts (p_UpdatedAt q)\<rparr>) \<and>
    q = p\<lparr>p_IdempotencyKey := TrimSpace (p_IdempotencyKey p),
      p_Currency := TrimSpace (ToUpper (e_upper E) (p_Currency p)), p_Status := StatusInitiated,
      p_CreatedAt := p_CreatedAt q, p_UpdatedAt := p_UpdatedAt q\<rparr> \<and>
    (\<exists>row. payments w' = payments w @ [row]) \<and> refunds w' = refunds w \<and> outbox w' = outbox w"
  using assms(1)
proof (cases rule: CreatePayment_outcome)
  case (created p0 row)
  have ready: "repo_ready r" using assms(1) by (auto simp: repo_CreatePayment_def split: if_splits)
  note p0 = validate_Inr [OF created(1)]
  have row: "row = payment_row_of p0 (p_CreatedAt q) (p_UpdatedAt q)"
    and q: "q = p0\<lparr>p_CreatedAt := p_CreatedAt q, p_UpdatedAt := p_UpdatedAt q\<rparr>"
    using created(3) by simp_all
  have scan: "scanPayment row = q\<lparr>p_CreatedAt := pg_ts (p_CreatedAt q), p_UpdatedAt := pg_ts (p_UpdatedAt q)\<rparr>"
    unfolding row using p0 by (subst scan_row_of, simp) (subst (3) q, simp)
  have ids: "pr_id row = p_ID p" "pr_idempotency_key row = TrimSpace (p_IdempotencyKey p)"
    unfolding row using p0 by (simp_all add: payment_row_of_def)
  have w': "payments w' = payments w @ [row]" "refunds w' = refunds w" "outbox w' = outbox w"
    using created(2) by (simp_all add: created_def tables_def)
  have "find (\<lambda>x. pr_id x = p_ID p) (payments w') = Some row"
    unfolding w'(1) using created(2) ids by (intro find_new) (fastforce simp: created_def image_iff)+
  moreover have "find (\<lambda>x. pr_idempotency_key x = TrimSpace (p_IdempotencyKey p)) (payments w') = Some row"
    unfolding w'(1) using created(2) ids by (intro find_new) (fastforce simp: created_def image_iff)+
  ultimately have get: "fst (GetPaymentByID E r (p_ID p) w') = Inr (scanPayment row)"
    "fst (GetPaymentStatusByIdempotencyKey E r (p_IdempotencyKey p) w') = Inr (scanPayment row)"
    using ready p0 assms(2)
    by (simp_all add: GetPaymentByID_def GetPaymentStatusByIdempotencyKey_def db_call_no_fault select_payment_def)
  have norm: "q = p\<lparr>p_IdempotencyKey := TrimSpace (p_IdempotencyKey p),
      p_Currency := TrimSpace (ToUpper (e_upper E) (p_Currency p)), p_Status := StatusInitiated,
      p_CreatedAt := p_CreatedAt q, p_UpdatedAt := p_UpdatedAt q\<rparr>"
    using p0 by (subst q) simp
  show ?thesis by (intro conjI exI) (rule get [unfolded scan] norm w')+
qed simp

definition sample_new :: payment where
  "sample_new = \<lparr>p_ID = 1, p_MerchantID = 2, p_Amount = 500, p_Currency = ''usd'', p_Status = [],
     p_IdempotencyKey = ''k1'', p_PSP = [], p_PSPReferenceID = [], p_FailureReason = [],
     p_CreatedAt = zero_time, p_UpdatedAt = zero_time\<rparr>"

lemma TrimSpace_USD: "TrimSpace ''USD'' = ''USD''"
  by (rule TrimSpace_currency) (simp add: ValidCurrency_def allowedCurrencies_def)

lemmas create_eval = repo_CreatePayment_def validatePaymentForCreate_def sample_new_def uuid_Nil_def ToUpper_def
  ascii_upper_def TrimSpace_r1 TrimSpace_USD IsInt64_def ValidCurrency_def allowedCurrencies_def IsZero_def
  payment_insert_def payment_row_of_def

theorem create_then_get_witness:
  "\<exists>q w'. repo_CreatePayment steady (Some sample_repo) (Some sample_new) empty_world = (Inr q, w') \<and>
     p_Currency q = ''USD'' \<and>
     (\<exists>x. fst (GetPaymentByID steady (Some sample_repo) 1 w') = Inr x \<and> p_Currency x = ''USD'')"
proof -
  obtain q w' where c: "repo_CreatePayment steady (Some sample_repo) (Some sample_new) empty_world = (Inr q, w')"
    "p_Currency q = ''USD''"
    by (simp add: create_eval tx_eval)
  moreover have "p_ID sample_new = 1" "fault_at steady (tick w') = None" by (simp_all add: sample_new_def steady_def)
  ultimately show ?thesis using create_then_get [OF c(1)] by auto
qed

text \<open>
  C30: idempotency keys are unique. A valid payment whose key (after trimming) or identifier
  is already in the table is refused with \<open>ErrConflict\<close>; \<open>CreatePayment\<close> answers \<open>ErrConflict\<close>
  only in that case, and then no table has changed.
\<close>

theorem create_conflict:
  assumes "repo_CreatePayment E r (Some p) w = (res, w')"
  shows "(\<forall>e. res = Inl e \<and> errors_Is e ErrConflict \<longrightarrow> tables w' = tables w \<and>
      (p_ID p \<in> pr_id ` set (payments w) \<or>
       TrimSpace (p_IdempotencyKey p) \<in> pr_idempotency_key ` set (payments w))) \<and>
    (repo_ready r \<and> (\<exists>q. validatePaymentForCreate E (Some p) = Inr q) \<and> no_faults E \<and>
      (p_ID p \<in> pr_id ` set (payments w) \<or>
       TrimSpace (p_IdempotencyKey p) \<in> pr_idempotency_key ` set (payments w)) \<longrightarrow>
      res = Inl (Sentinel ErrConflict) \<and> tables w' = tables w)"
proof (cases "repo_ready r \<and> (\<exists>q. validatePaymentForCreate E (Some p) = Inr q)")
  case True
  then obtain q where r: "repo_ready r" and q: "validatePaymentForCreate E (Some p) = Inr q" by blast
  obtain c u w1 where t: "created_of E q w = (c, u, w1)" by (metis prod.exhaust)
  have tw: "payments w1 = payments w" "tables w1 = tables w"
    using created_of_tables [of E q w] by (simp_all add: t tables_eq_iff)
  have ids: "pr_id (payment_row_of q c u) = p_ID p"
    "pr_idempotency_key (payment_row_of q c u) = TrimSpace (p_IdempotencyKey p)"
    using validate_Inr [OF q] by (simp_all add: payment_row_of_def)
  obtain res1 w2 where ins: "payment_insert (payment_row_of q c u) (tickw w1) = (res1, w2)" by fastforce
  have nf: "\<not> errors_Is (fault_error f) ErrConflict" for f using fault_not_sentinel by blast
  show ?thesis
    by (cases rule: db_call_cases [of E "payment_insert (payment_row_of q c u)" w1];
        rule payment_insert_cases [OF ins])
      (use assms CreatePayment_valid [OF r q t] ins tw ids nf in
        \<open>auto simp: isUniqueViolation_def no_faults_def\<close>)
next
  case False
  have "\<not> errors_Is e ErrConflict" if "validatePaymentForCreate E (Some p) = Inl e" for e
    using that by (auto simp: validatePaymentForCreate_def Let_def split: if_splits)
  with False assms show ?thesis
    by (auto simp: repo_CreatePayment_def split: if_splits sum.splits)
qed

theorem create_conflict_witness:
  "\<exists>w'. repo_CreatePayment steady (Some sample_repo) (Some (sample_new\<lparr>p_ID := 9\<rparr>)) (sample_db StatusFailed) =
     (Inl (Sentinel ErrConflict), w') \<and> tables w' = tables (sample_db StatusFailed)"
proof -
  obtain res w' where c: "repo_CreatePayment steady (Some sample_repo) (Some (sample_new\<lparr>p_ID := 9\<rparr>)) (sample_db StatusFailed) = (res, w')"
    by fastforce
  have "\<exists>q. validatePaymentForCreate steady (Some (sample_new\<lparr>p_ID := 9\<rparr>)) = Inr q"
    by (simp add: create_eval steady_def)
  moreover have "repo_ready (Some sample_repo)" "p_IdempotencyKey sample_new = ''k1''"
    "''k1'' \<in> pr_idempotency_key ` set (payments (sample_db StatusFailed))"
    by (simp_all add: sample_new_def sample_db_def sample_payment_def sample_repo_def repo_ready_def)
  ultimately show ?thesis using create_conflict [OF c] c by (simp add: TrimSpace_r1)
qed

section \<open>Compare and set\<close>

definition payment_of :: "uuid \<Rightarrow> world \<Rightarrow> payment_row option" where
  "payment_of i w = find (\<lambda>row. pr_id row = i) (payments w)"

lemma at_status_count:
  assumes "distinct (map pr_id (payments w))"
  shows "sql_count (at_status i st) (payments w) = 0 \<longleftrightarrow> (\<forall>row. payment_of i w = Some row \<longrightarrow> pr_status row \<noteq> st)"
proof -
  have "payment_of i w = Some row \<longleftrightarrow> row \<in> set (payments w) \<and> pr_id row = i" for row
    using find_SomeD [of _ "payments w" row] find_key_unique [OF assms, of row] by (auto simp: payment_of_def)
  then show ?thesis by (auto simp: sql_count_zero at_status_def)
qed

text \<open>
  C28: \<open>UpdatePaymentStatus\<close> is a compare-and-set. Asked for a transition of the table, and when
  no fault hits it, it sets the payment's status and nothing else (beyond the update time) if
  the payment is in the expected status; otherwise it changes nothing and answers \<open>ErrNotFound\<close>
  for a payment that does not exist and \<open>ErrStatusMismatch\<close> for one in another status. Asked
  for any other change between two distinct known statuses, it never changes a table and
  answers \<open>ErrNotFound\<close>, \<open>ErrStatusMismatch\<close> or \<open>ErrInvalidStatusTransition\<close>.
\<close>

theorem update_status_cas:
  assumes "distinct (map pr_id (payments w))" and "no_faults E" and "repo_ready r" and "i \<noteq> uuid_Nil"
    and "IsKnownStatus from" and "IsKnownStatus to" and "from \<noteq> to"
    and "UpdatePaymentStatus E r i from to w = (res, w')"
  shows "(case payment_of i w of
       None \<Rightarrow> res = Inl (Sentinel ErrNotFound) \<and> tables w' = tables w
     | Some row \<Rightarrow>
         if pr_status row \<noteq> from then (\<exists>e. res = Inl e \<and> errors_Is e ErrStatusMismatch) \<and> tables w' = tables w
         else if \<not> ValidTransition from to then
           (\<exists>e. res = Inl e \<and> errors_Is e ErrInvalidStatusTransition) \<and> tables w' = tables w
         else res = Inr () \<and> refunds w' = refunds w \<and> outbox w' = outbox w \<and>
           payments w' = map (\<lambda>x. if pr_id x = i then x\<lparr>pr_status := to, pr_updated_at := db_now E (tickw w)\<rparr> else x)
             (payments w))"
proof -
  have nf: "fault_at E t = None" for t using assms(2) by (simp add: no_faults_def)
  have only: "at_status i from x \<longleftrightarrow> pr_id x = i" if "payment_of i w = Some row" "pr_status row = from"
    "x \<in> set (payments w)" for x row
    using that find_key_unique [OF assms(1) that(3)] by (auto simp: payment_of_def at_status_def)
  have none: "(\<forall>row. payment_of i w = Some row \<longrightarrow> pr_status row \<noteq> from) \<Longrightarrow>
      sql_update (at_status i from) f (payments w) = payments w" for f
    using at_status_count [OF assms(1)] sql_update_none by metis
  show ?thesis
  proof (cases "payment_of i w")
    case None
    then have "sql_count (at_status i from) (payments w) = 0"
      using at_status_count [OF assms(1)] by simp
    with None assms(3-) nf none show ?thesis
      by (auto simp: UpdatePaymentStatus_def db_call_def select_status_def payment_of_def update_status_stmt_def
          tables_def split: if_splits)
  next
    case (Some row)
    show ?thesis
    proof (cases "pr_status row = from")
      case True
      then have "sql_count (at_status i from) (payments w) \<noteq> 0"
        using at_status_count [OF assms(1)] Some by simp
      moreover have "sql_update (at_status i from) f (payments w) =
          map (\<lambda>x. if pr_id x = i then f x else x) (payments w)" for f
        using only [OF Some True] by (auto simp: sql_update_def)
      ultimately show ?thesis
        using True Some assms(3-) nf
        by (auto simp: UpdatePaymentStatus_def db_call_def select_status_def payment_of_def update_status_stmt_def
            tables_def bad_transition_def split: if_splits)
    next
      case False
      then have "sql_count (at_status i from) (payments w) = 0"
        using at_status_count [OF assms(1)] Some by simp
      with False Some assms(3-) nf none show ?thesis
        by (auto simp: UpdatePaymentStatus_def db_call_def select_status_def payment_of_def update_status_stmt_def
            tables_def status_mismatch_def split: if_splits)
    qed
  qed
qed

theorem update_status_cas_witness:
  "fst (UpdatePaymentStatus steady (Some sample_repo) 1 StatusInitiated StatusProcessing (sample_db StatusInitiated)) = Inr () \<and>
   (\<exists>e. fst (UpdatePaymentStatus steady (Some sample_repo) 1 StatusInitiated StatusProcessing (sample_db StatusFailed)) = Inl e \<and>
      errors_Is e ErrStatusMismatch)"
proof -
  have p: "distinct (map pr_id (payments (sample_db st)))" "payment_of 1 (sample_db st) = Some (sample_payment st)"
    "pr_status (sample_payment st) = st" for st
    by (simp_all add: sample_db_def sample_payment_def payment_of_def)
  have r: "repo_ready (Some sample_repo)" "(1 :: uuid) \<noteq> uuid_Nil"
    by (simp_all add: repo_ready_def sample_repo_def uuid_Nil_def)
  obtain res w' res2 w2 where
    a: "UpdatePaymentStatus steady (Some sample_repo) 1 StatusInitiated StatusProcessing (sample_db StatusInitiated) = (res, w')"
    and b: "UpdatePaymentStatus steady (Some sample_repo) 1 StatusInitiated StatusProcessing (sample_db StatusFailed) = (res2, w2)"
    by (metis prod.exhaust)
  show ?thesis
    using update_status_cas [OF p(1) steady_ok(2) r _ _ _ a] update_status_cas [OF p(1) steady_ok(2) r _ _ _ b]
    by (simp add: a b p(2,3))
qed

end
