(* ===== verification/Ledger.thy ===== *)
theory Ledger
  imports Payment_Repo
begin

text \<open>
  The database as all parts of the program see it together: a step relation whose steps are the
  repository calls the service, the handlers and the workers make, in any interleaving and with
  any faults, and the invariant that ties payments, refunds and queued events to each other.
\<close>

section \<open>The invariant\<close>

text \<open>The events and the number of refunds that a payment in a given status has.\<close>

definition events_for :: "Status \<Rightarrow> string list" where
  "events_for st =
     (if st = StatusSuccess then [EventPaymentSuccess]
      else if st = StatusFailed then [EventPaymentFailed]
      else if st = StatusRefunded then [EventPaymentSuccess, EventPaymentRefunded]
      else [])"

definition refund_count :: "Status \<Rightarrow> nat" where
  "refund_count st = (if st = StatusRefunded then 1 else 0)"

definition event_types :: "uuid \<Rightarrow> world \<Rightarrow> string list" where
  "event_types i w = map ob_event_type (filter (\<lambda>e. ob_payment_id e = i) (outbox w))"

definition refunds_of :: "uuid \<Rightarrow> world \<Rightarrow> refund_row list" where
  "refunds_of i w = filter (\<lambda>x. rf_payment_id x = i) (refunds w)"

definition payment_ok :: "world \<Rightarrow> payment_row \<Rightarrow> bool" where
  "payment_ok w p \<longleftrightarrow>
     pr_id p \<noteq> uuid_Nil \<and> 0 < pr_amount p \<and> IsInt64 (pr_amount p) \<and> ValidCurrency (pr_currency p) \<and>
     pr_idempotency_key p \<noteq> [] \<and> length (pr_idempotency_key p) \<le> 255 \<and> IsKnownStatus (pr_status p) \<and>
     event_types (pr_id p) w = events_for (pr_status p) \<and>
     length (refunds_of (pr_id p) w) = refund_count (pr_status p) \<and>
     (\<forall>x \<in> set (refunds_of (pr_id p) w). 0 < rf_amount x \<and> rf_amount x \<le> pr_amount p)"

definition ledger_inv :: "world \<Rightarrow> bool" where
  "ledger_inv w \<longleftrightarrow>
     distinct (map pr_id (payments w)) \<and> distinct (map pr_idempotency_key (payments w)) \<and>
     distinct (map rf_id (refunds w)) \<and> distinct (map rf_idempotency_key (refunds w)) \<and>
     distinct (map ob_id (outbox w)) \<and>
     rf_payment_id ` set (refunds w) \<subseteq> pr_id ` set (payments w) \<and>
     ob_payment_id ` set (outbox w) \<subseteq> pr_id ` set (payments w) \<and>
     (\<forall>p \<in> set (payments w). payment_ok w p)"

lemma ledger_inv_empty: "ledger_inv empty_world"
  by (simp add: ledger_inv_def empty_world_def)

lemma ledger_inv_cong: "tables w' = tables w \<Longrightarrow> ledger_inv w' = ledger_inv w"
  by (simp add: ledger_inv_def payment_ok_def event_types_def refunds_of_def tables_def)

lemma distinct_snoc: "distinct (map k t) \<Longrightarrow> k r \<notin> k ` set t \<Longrightarrow> distinct (map k (t @ [r]))"
  by simp

text \<open>A payment that no event and no refund mentions.\<close>

lemma ledger_inv_created:
  assumes "ledger_inv w" and "validatePaymentForCreate E pp = Inr p" and "created E p row w w'"
  shows "ledger_inv w'"
proof -
  obtain c u where row: "row = payment_row_of p c u" using assms(3) by (auto simp: created_def)
  obtain p0 where "pp = Some p0" using assms(2) by (cases pp) (simp_all add: validatePaymentForCreate_def)
  with assms(2) have v: "p_ID p \<noteq> uuid_Nil \<and> 0 < p_Amount p \<and> IsInt64 (p_Amount p) \<and> ValidCurrency (p_Currency p) \<and>
      p_IdempotencyKey p \<noteq> [] \<and> length (p_IdempotencyKey p) \<le> 255 \<and> p_Status p = StatusInitiated"
    using validate_Inr [of E p0 p] by auto
  have w': "payments w' = payments w @ [row]" "refunds w' = refunds w" "outbox w' = outbox w"
    and new: "pr_id row \<notin> pr_id ` set (payments w)" "pr_idempotency_key row \<notin> pr_idempotency_key ` set (payments w)"
    using assms(3) by (auto simp: created_def tables_def)
  have "event_types (pr_id row) w' = []" "refunds_of (pr_id row) w' = []"
    using assms(1) new(1) unfolding event_types_def refunds_of_def w' map_is_Nil_conv filter_empty_conv ledger_inv_def
    by (metis image_eqI subsetD)+
  then have "payment_ok w' row"
    using v by (simp add: payment_ok_def row payment_row_of_def events_for_def refund_count_def)
  moreover have "payment_ok w' q" if "q \<in> set (payments w)" for q
    using assms(1) that w' by (auto simp: ledger_inv_def payment_ok_def event_types_def refunds_of_def)
  ultimately show ?thesis
    using assms(1) w' new by (auto simp: ledger_inv_def)
qed

text \<open>One payment moves on, with the events and refunds that its new status asks for.\<close>

lemma ledger_inv_moved:
  assumes inv: "ledger_inv w" and row: "row \<in> set (payments w)" "pr_id row = i" "pr_status row = from"
    and pay: "payments w' = sql_update (at_status i from) f (payments w)"
    and f: "\<And>x. pr_id (f x) = pr_id x" "\<And>x. pr_idempotency_key (f x) = pr_idempotency_key x"
      "\<And>x. pr_amount (f x) = pr_amount x" "\<And>x. pr_currency (f x) = pr_currency x" "\<And>x. pr_status (f x) = to"
    and known: "IsKnownStatus to"
    and out: "outbox w' = outbox w @ evs" "distinct (map ob_id (outbox w'))" "\<forall>e \<in> set evs. ob_payment_id e = i"
    and ref: "refunds w' = refunds w @ rs" "distinct (map rf_id (refunds w'))"
      "distinct (map rf_idempotency_key (refunds w'))"
      "\<forall>x \<in> set rs. rf_payment_id x = i \<and> 0 < rf_amount x \<and> rf_amount x \<le> pr_amount row"
    and ev: "events_for to = events_for from @ map ob_event_type evs"
    and rc: "refund_count to = refund_count from + length rs"
  shows "ledger_inv w'"
proof -
  have keys: "map pr_id (payments w') = map pr_id (payments w)"
    "map pr_idempotency_key (payments w') = map pr_idempotency_key (payments w)"
    unfolding pay by (rule sql_update_keys, simp add: f)+
  then have ids: "pr_id ` set (payments w') = pr_id ` set (payments w)" by (metis list.set_map)
  have own: "event_types i w' = events_for to" "length (refunds_of i w') = refund_count to"
    "\<forall>x \<in> set (refunds_of i w'). 0 < rf_amount x \<and> rf_amount x \<le> pr_amount row"
    using inv row out(1,3) ref(1,4) ev rc
    by (auto simp: ledger_inv_def payment_ok_def event_types_def refunds_of_def)
  have others: "event_types j w' = event_types j w" "refunds_of j w' = refunds_of j w" if "j \<noteq> i" for j
    using that out(1,3) ref(1,4) by (auto simp: event_types_def refunds_of_def filter_empty_conv)
  have "payment_ok w' q" if q: "q \<in> set (payments w')" for q
  proof -
    obtain s where s: "s \<in> set (payments w)" "q = (if at_status i from s then f s else s)"
      using q unfolding pay set_sql_update by blast
    have sok: "payment_ok w s" using inv s(1) by (simp add: ledger_inv_def)
    show ?thesis
    proof (cases "pr_id s = i")
      case True
      have "s = row" using inv s(1) row True by (metis ledger_inv_def distinct_map inj_onD)
      then have "q = f row" using s(2) row by (simp add: at_status_def)
      with sok \<open>s = row\<close> own known row(2) show ?thesis by (simp add: payment_ok_def f)
    next
      case False
      then have "q = s" using s(2) by (simp add: at_status_def)
      with sok others [OF False] show ?thesis by (simp add: payment_ok_def)
    qed
  qed
  moreover have "rf_payment_id ` set (refunds w') \<subseteq> pr_id ` set (payments w')"
    "ob_payment_id ` set (outbox w') \<subseteq> pr_id ` set (payments w')"
    unfolding ids using inv row out(1,3) ref(1,4) by (auto simp: ledger_inv_def)
  ultimately show ?thesis
    using inv keys out(2) ref(2,3) by (simp add: ledger_inv_def)
qed

section \<open>Steps\<close>

text \<open>Outbox statements other than insertion touch neither payments, refunds nor what an event says.\<close>

lemma db_call_payments:
  assumes "\<And>v. payments (snd (stmt v)) = payments v \<and> refunds (snd (stmt v)) = refunds v"
  shows "payments (snd (db_call E stmt w)) = payments w \<and> refunds (snd (db_call E stmt w)) = refunds w"
  using assms by (cases rule: db_call_cases [of E stmt w]) simp_all

lemma outbox_stmt_payments [simp]:
  "payments (snd (outbox_insert row v)) = payments v" "refunds (snd (outbox_insert row v)) = refunds v"
  "payments (snd (claim_stmt E n v)) = payments v" "refunds (snd (claim_stmt E n v)) = refunds v"
  "payments (snd (reclaim_stmt E m v)) = payments v" "refunds (snd (reclaim_stmt E m v)) = refunds v"
  "payments (snd (mark_stmt i g v)) = payments v" "refunds (snd (mark_stmt i g v)) = refunds v"
  by (simp_all add: outbox_insert_def claim_stmt_def reclaim_stmt_def mark_stmt_def Let_def)

lemma run_op_payments:
  "payments (run_op E op w) = payments w \<and> refunds (run_op E op w) = refunds w"
  by (cases op) (simp_all add: run_op_defs Let_def db_call_payments)

lemma event_of_update:
  "(\<And>r. event_of (f r) = event_of r) \<Longrightarrow> map event_of (sql_update P f t) = map event_of t"
  by (rule sql_update_keys) simp

lemma run_op_events:
  assumes "\<forall>e. op \<noteq> OpEnqueue e"
  shows "map event_of (outbox (run_op E op w)) = map event_of (outbox w)"
  by (rule run_op_inv [where P = "\<lambda>t. map event_of t = map event_of (outbox w)"])
    (use assms in \<open>auto simp: claim_stmt_def reclaim_stmt_def mark_stmt_def Let_def outbox_set_defs
       event_of_def [abs_def] intro!: event_of_update [unfolded event_of_def [abs_def]]\<close>)

lemma event_columns:
  assumes "map event_of t = map event_of u" and "\<And>r. k r = h (event_of r)"
  shows "map k t = map k u"
proof -
  have eq: "map k x = map h (map event_of x)" for x by (simp add: assms(2))
  show ?thesis unfolding eq assms(1) ..
qed

lemma ledger_inv_outbox:
  assumes "ledger_inv w" and "payments w' = payments w" "refunds w' = refunds w"
    and "map event_of (outbox w') = map event_of (outbox w)"
  shows "ledger_inv w'"
proof -
  have ids: "map ob_id (outbox w') = map ob_id (outbox w)"
    by (rule event_columns [OF assms(4), where h = fst]) (simp add: event_of_def)
  have pids: "map ob_payment_id (outbox w') = map ob_payment_id (outbox w)"
    by (rule event_columns [OF assms(4), where h = "\<lambda>x. fst (snd x)"]) (simp add: event_of_def)
  have pairs: "map (\<lambda>e. (ob_payment_id e, ob_event_type e)) (outbox w') =
      map (\<lambda>e. (ob_payment_id e, ob_event_type e)) (outbox w)"
    by (rule event_columns [OF assms(4), where h = "\<lambda>(a, b, c, d, e). (b, d)"]) (simp add: event_of_def)
  have types: "event_types i v = map snd (filter (\<lambda>x. fst x = i) (map (\<lambda>e. (ob_payment_id e, ob_event_type e)) (outbox v)))"
    for i v by (simp add: event_types_def filter_map comp_def)
  have "event_types i w' = event_types i w" for i unfolding types pairs ..
  moreover have "ob_payment_id ` set (outbox w') = ob_payment_id ` set (outbox w)" using pids by (metis list.set_map)
  ultimately show ?thesis
    using assms(1-3) ids by (simp add: ledger_inv_def payment_ok_def refunds_of_def)
qed

text \<open>
  The calls of the program on the database. A refund is called with an amount that does not
  exceed the payment's (\<open>RefundPayment\<close> checks it, and amounts never change); the last rule
  covers reads, identifiers, clocks and metrics.
\<close>

inductive ledger_step :: "env \<Rightarrow> world \<Rightarrow> world \<Rightarrow> bool" for E where
  create: "ledger_step E w (snd (repo_CreatePayment E r pp w))"
| start: "ledger_step E w (snd (UpdatePaymentStatus E r i StatusInitiated StatusProcessing w))"
| settle: "ledger_step E w (snd (UpdatePaymentStatusWithPSP E r i StatusProcessing StatusSuccess psp ref w))"
| fail: "ledger_step E w (snd (UpdatePaymentFailed E r i StatusProcessing psp ref reason w))"
| refund: "(\<forall>row \<in> set (payments w). pr_id row = i \<longrightarrow> amount \<le> pr_amount row) \<Longrightarrow>
    ledger_step E w (snd (RefundPaymentAtomic E r i amount key w))"
| deliver: "(\<forall>e. op \<noteq> OpEnqueue e) \<Longrightarrow> ledger_step E w (run_op E op w)"
| silent: "tables w' = tables w \<Longrightarrow> ledger_step E w w'"

text \<open>What a step does to the tables.\<close>

lemma UpdatePaymentStatus_outcome:
  assumes "UpdatePaymentStatus E r i from to w = (res, w')"
  obtains (same) "tables w' = tables w"
  | (moved) t where "tables w' = (sql_update (at_status i from)
      (\<lambda>row. row\<lparr>pr_status := to, pr_updated_at := t\<rparr>) (payments w), refunds w, outbox w)"
proof -
  have read: "tables (snd (db_call E (select_status i) v)) = tables v" for v
    by (rule db_call_read) simp
  obtain res1 w1 where u: "db_call E (update_status_stmt E i from to) w = (res1, w1)" by fastforce
  have w1: "tables w1 = tables w \<or> (\<exists>t. tables w1 = (sql_update (at_status i from)
      (\<lambda>row. row\<lparr>pr_status := to, pr_updated_at := t\<rparr>) (payments w), refunds w, outbox w))"
    using u by (cases rule: db_call_cases [of E "update_status_stmt E i from to" w])
      (auto simp: update_status_stmt_def tables_def)
  have "tables w' = tables w \<or> tables w' = tables w1"
    using assms u select_calls_tables(1)
    by (auto simp: UpdatePaymentStatus_def split: if_splits sum.splits prod.splits)
  with w1 that show thesis by auto
qed

text \<open>The effect of one call, as far as the tables go.\<close>

inductive effect :: "env \<Rightarrow> world \<Rightarrow> world \<Rightarrow> bool" for E where
  same: "tables w' = tables w \<Longrightarrow> effect E w w'"
| new: "validatePaymentForCreate E pp = Inr p \<Longrightarrow> created E p row w w' \<Longrightarrow> effect E w w'"
| started: "tables w' = (sql_update (at_status i StatusInitiated)
      (\<lambda>row. row\<lparr>pr_status := StatusProcessing, pr_updated_at := t\<rparr>) (payments w), refunds w, outbox w) \<Longrightarrow>
    effect E w w'"
| settled: "status_commit E r i StatusProcessing
      (\<lambda>t row. row\<lparr>pr_status := StatusSuccess, pr_psp := psp, pr_psp_reference_id := ref, pr_updated_at := t\<rparr>)
      EventPaymentSuccess d w w' \<Longrightarrow> refunds w' = refunds w \<Longrightarrow> effect E w w'"
| failed: "status_commit E r i StatusProcessing
      (\<lambda>t row. row\<lparr>pr_status := StatusFailed, pr_psp := psp, pr_psp_reference_id := ref,
         pr_failure_reason := reason, pr_updated_at := t\<rparr>)
      EventPaymentFailed d w w' \<Longrightarrow> refunds w' = refunds w \<Longrightarrow> effect E w w'"
| refunded: "refund_commit E r i amount key rid w w' \<Longrightarrow> 0 < amount \<Longrightarrow>
    (\<forall>row \<in> set (payments w). pr_id row = i \<longrightarrow> amount \<le> pr_amount row) \<Longrightarrow> effect E w w'"
| delivered: "payments w' = payments w \<Longrightarrow> refunds w' = refunds w \<Longrightarrow>
    map event_of (outbox w') = map event_of (outbox w) \<Longrightarrow> effect E w w'"

lemma refund_positive: "RefundPaymentAtomic E r i amount key w = (res, w') \<Longrightarrow> tables w' \<noteq> tables w \<Longrightarrow> 0 < amount"
  by (auto simp: RefundPaymentAtomic_def Let_def split: if_splits)

lemma atomic_change_cases:
  assumes "atomic_change C out w"
  obtains "tables (snd out) = tables w" | "C w (snd out)" "refunds (snd out) = refunds w"
  using assms by (auto simp: atomic_change_def split: prod.splits)

lemma ledger_step_effect: "ledger_step E w w' \<Longrightarrow> effect E w w'"
proof (induction rule: ledger_step.induct)
  case (create w r pp)
  obtain res w' where c: "repo_CreatePayment E r pp w = (res, w')" by fastforce
  from c show ?case by (cases rule: CreatePayment_outcome) (auto simp: c intro: effect.intros)
next
  case (start w r i)
  obtain res w' where c: "UpdatePaymentStatus E r i StatusInitiated StatusProcessing w = (res, w')" by fastforce
  from c show ?case by (cases rule: UpdatePaymentStatus_outcome) (auto simp: c intro: effect.intros)
next
  case (settle w r i psp ref)
  show ?case
    by (rule atomic_change_cases [OF settle_tx [of StatusProcessing StatusSuccess E r i ref psp w]]) (auto intro: effect.intros)
next
  case (fail w r i psp ref reason)
  show ?case
    by (rule atomic_change_cases [OF fail_tx [of StatusProcessing, where psp = psp and ref = ref and reason = reason and E = E and r = r and i = i and w = w]]) (auto intro: effect.intros)
next
  case (refund w i amount r key)
  obtain res w' where c: "RefundPaymentAtomic E r i amount key w = (res, w')" by fastforce
  show ?case
  proof (cases "tables w' = tables w")
    case False
    with refund_tx [OF c] obtain rid where "refund_commit E r i amount (TrimSpace key) rid w w'" by blast
    with refund False refund_positive [OF c] show ?thesis by (auto simp: c intro: effect.refunded)
  qed (simp add: c effect.same)
next
  case (deliver op w)
  then show ?case using run_op_payments run_op_events by (intro effect.delivered) blast+
qed (rule effect.same)

lemma status_commit_inv:
  assumes inv: "ledger_inv w" and c: "status_commit E r i from f ty d w w'" and "refunds w' = refunds w"
    and f: "\<And>t x. pr_id (f t x) = pr_id x" "\<And>t x. pr_idempotency_key (f t x) = pr_idempotency_key x"
      "\<And>t x. pr_amount (f t x) = pr_amount x" "\<And>t x. pr_currency (f t x) = pr_currency x" "\<And>t x. pr_status (f t x) = to"
    and "IsKnownStatus to" "events_for to = events_for from @ [ty]" "refund_count to = refund_count from"
  shows "ledger_inv w'"
proof -
  obtain row t ev where row: "row \<in> set (payments w)" "pr_id row = i" "pr_status row = from"
    and pay: "payments w' = sql_update (at_status i from) (f t) (payments w)"
    and out: "outbox w' = outbox w @ [ev]" "ob_id ev \<notin> ob_id ` set (outbox w)" "ob_payment_id ev = i" "ob_event_type ev = ty"
    using c by (auto simp: status_commit_def event_for_def)
  show ?thesis
    by (rule ledger_inv_moved [OF inv row pay, where to = to and evs = "[ev]" and rs = "[]"])
      (use assms out in \<open>simp_all add: ledger_inv_def\<close>)
qed

lemma refund_commit_inv:
  assumes inv: "ledger_inv w" and c: "refund_commit E r i amount key rid w w'" and "0 < amount"
    and bound: "\<forall>row \<in> set (payments w). pr_id row = i \<longrightarrow> amount \<le> pr_amount row"
  shows "ledger_inv w'"
proof -
  obtain row t u ev where row: "row \<in> set (payments w)" "pr_id row = i" "pr_status row = StatusSuccess"
    and pay: "payments w' = sql_update (at_status i StatusSuccess)
          (\<lambda>row. row\<lparr>pr_status := StatusRefunded, pr_updated_at := t\<rparr>) (payments w)"
    and ref: "refunds w' = refunds w @ [\<lparr>rf_id = rid, rf_payment_id = i, rf_amount = amount, rf_status = StatusSuccess,
          rf_idempotency_key = key, rf_created_at = u\<rparr>]"
      "rid \<notin> rf_id ` set (refunds w)" "key \<notin> rf_idempotency_key ` set (refunds w)"
    and out: "outbox w' = outbox w @ [ev]" "ob_id ev \<notin> ob_id ` set (outbox w)" "ob_payment_id ev = i"
      "ob_event_type ev = EventPaymentRefunded"
    using c by (auto simp: refund_commit_def event_for_def)
  show ?thesis
    by (rule ledger_inv_moved [OF inv row pay, where to = StatusRefunded and evs = "[ev]"
          and rs = "[\<lparr>rf_id = rid, rf_payment_id = i, rf_amount = amount, rf_status = StatusSuccess,
            rf_idempotency_key = key, rf_created_at = u\<rparr>]"])
      (use inv row bound \<open>0 < amount\<close> out ref in
        \<open>simp_all add: ledger_inv_def events_for_def refund_count_def\<close>)
qed

lemma started_inv:
  assumes inv: "ledger_inv w" and t: "tables w' = (sql_update (at_status i StatusInitiated)
      (\<lambda>row. row\<lparr>pr_status := StatusProcessing, pr_updated_at := u\<rparr>) (payments w), refunds w, outbox w)"
  shows "ledger_inv w'"
proof (cases "\<exists>row \<in> set (payments w). at_status i StatusInitiated row")
  case True
  then obtain row where row: "row \<in> set (payments w)" "pr_id row = i" "pr_status row = StatusInitiated"
    by (auto simp: at_status_def)
  have pay: "payments w' = sql_update (at_status i StatusInitiated)
      (\<lambda>row. row\<lparr>pr_status := StatusProcessing, pr_updated_at := u\<rparr>) (payments w)"
    using t by (simp add: tables_def)
  show ?thesis
    by (rule ledger_inv_moved [OF inv row pay, where to = StatusProcessing and evs = "[]" and rs = "[]"])
      (use inv t in \<open>simp_all add: tables_def ledger_inv_def events_for_def refund_count_def\<close>)
next
  case False
  then have "sql_count (at_status i StatusInitiated) (payments w) = 0" by (simp add: sql_count_zero)
  with t have "tables w' = tables w" by (simp add: sql_update_none tables_def)
  with inv ledger_inv_cong show ?thesis by blast
qed

lemma effect_inv: "effect E w w' \<Longrightarrow> ledger_inv w \<Longrightarrow> ledger_inv w'"
proof (induction rule: effect.induct)
  case (settled r i psp ref d w w')
  show ?case
    by (rule status_commit_inv [OF settled(3,1,2), where to = StatusSuccess]) (simp_all add: events_for_def refund_count_def)
next
  case (failed r i psp ref reason d w w')
  show ?case
    by (rule status_commit_inv [OF failed(3,1,2), where to = StatusFailed]) (simp_all add: events_for_def refund_count_def)
next
  case (same w' w)
  then show ?case using ledger_inv_cong by blast
next
  case (new pp p row w w')
  then show ?case using ledger_inv_created by blast
next
  case (started w' i t w)
  then show ?case using started_inv by blast
next
  case (refunded r i amount key rid w w')
  then show ?case using refund_commit_inv by blast
next
  case (delivered w' w)
  then show ?case using ledger_inv_outbox by blast
qed

lemma ledger_steps_inv: "(ledger_step E)\<^sup>*\<^sup>* w w' \<Longrightarrow> ledger_inv w \<Longrightarrow> ledger_inv w'"
  by (induction rule: rtranclp_induct) (auto dest: ledger_step_effect effect_inv)

text \<open>
  C2: in every database the program can reach from the empty one, by any interleaving of its
  calls and under any faults: identifiers and idempotency keys are unique; refunds and events
  belong to payments; every payment has a positive 64-bit amount in a supported currency, a
  known status, and exactly the events of that status in order (none before it is settled,
  \<open>payment.success\<close> or \<open>payment.failed\<close> after, and then \<open>payment.refunded\<close> once it is refunded);
  and it has one refund, of at most its amount, if it is refunded and none otherwise.
\<close>

theorem ledger_invariant:
  assumes "(ledger_step E)\<^sup>*\<^sup>* empty_world w"
  shows "distinct (map pr_id (payments w)) \<and> distinct (map pr_idempotency_key (payments w)) \<and>
    distinct (map rf_idempotency_key (refunds w)) \<and> distinct (map ob_id (outbox w)) \<and>
    rf_payment_id ` set (refunds w) \<subseteq> pr_id ` set (payments w) \<and>
    ob_payment_id ` set (outbox w) \<subseteq> pr_id ` set (payments w) \<and>
    (\<forall>p \<in> set (payments w).
       0 < pr_amount p \<and> IsInt64 (pr_amount p) \<and> ValidCurrency (pr_currency p) \<and> IsKnownStatus (pr_status p) \<and>
       event_types (pr_id p) w = events_for (pr_status p) \<and>
       length (refunds_of (pr_id p) w) = (if pr_status p = StatusRefunded then 1 else 0) \<and>
       (\<forall>x \<in> set (refunds_of (pr_id p) w). 0 < rf_amount x \<and> rf_amount x \<le> pr_amount p))"
  using ledger_steps_inv [OF assms ledger_inv_empty]
  by (simp add: ledger_inv_def payment_ok_def refund_count_def)

theorem ledger_invariant_witness:
  "\<exists>w. (ledger_step steady)\<^sup>*\<^sup>* empty_world w \<and> length (payments w) = 1 \<and>
     (\<forall>p \<in> set (payments w). event_types (pr_id p) w = events_for (pr_status p))"
proof -
  let ?w = "snd (repo_CreatePayment steady (Some sample_repo) (Some sample_new) empty_world)"
  have s: "(ledger_step steady)\<^sup>*\<^sup>* empty_world ?w" by (rule r_into_rtranclp) (rule ledger_step.create)
  have one: "length (payments ?w) = 1" by (simp add: create_eval tx_eval)
  have "\<forall>p \<in> set (payments ?w). event_types (pr_id p) ?w = events_for (pr_status p)"
    using ledger_invariant [OF s] by blast
  with s one show ?thesis by blast
qed

section \<open>The history of a payment\<close>

definition identity_of :: "payment_row \<Rightarrow> uuid \<times> uuid \<times> int \<times> string \<times> string \<times> time" where
  "identity_of p = (pr_id p, pr_merchant_id p, pr_amount p, pr_currency p, pr_idempotency_key p, pr_created_at p)"

lemma update_row:
  assumes "row \<in> set t" and "\<And>x. identity_of (f x) = identity_of x" "\<And>x. pr_status (f x) = to"
    and "ValidTransition st to"
  shows "\<exists>row' \<in> set (sql_update (at_status i st) f t). identity_of row' = identity_of row \<and>
    ValidTransition\<^sup>=\<^sup>= (pr_status row) (pr_status row')"
proof -
  have "(if at_status i st row then f row else row) \<in> set (sql_update (at_status i st) f t)"
    unfolding set_sql_update using assms(1) by blast
  with assms(2-4) show ?thesis by (intro bexI) (auto simp: at_status_def)
qed

lemma effect_row:
  assumes "effect E w w'" and "row \<in> set (payments w)"
  shows "\<exists>row' \<in> set (payments w'). identity_of row' = identity_of row \<and>
    ValidTransition\<^sup>=\<^sup>= (pr_status row) (pr_status row')"
  using assms
proof (induction rule: effect.induct)
  case (same w' w)
  then show ?case by (auto simp: tables_def)
next
  case (new pp p r w w')
  then show ?case by (auto simp: created_def tables_def)
next
  case (started w' i t w)
  have pay: "payments w' = sql_update (at_status i StatusInitiated)
      (\<lambda>row. row\<lparr>pr_status := StatusProcessing, pr_updated_at := t\<rparr>) (payments w)"
    using started(1) by (simp add: tables_def)
  show ?case unfolding pay by (rule update_row [OF started(2)]) (simp_all add: identity_of_def)
next
  case (settled r i ref psp d w w')
  then obtain t where pay: "payments w' = sql_update (at_status i StatusProcessing) (\<lambda>row. row\<lparr>pr_status := StatusSuccess,
      pr_psp := psp, pr_psp_reference_id := ref, pr_updated_at := t\<rparr>) (payments w)"
    by (auto simp: status_commit_def)
  show ?case unfolding pay by (rule update_row [OF settled(3), where to = StatusSuccess]) (simp_all add: identity_of_def)
next
  case (failed r i reason ref psp d w w')
  then obtain t where pay: "payments w' = sql_update (at_status i StatusProcessing) (\<lambda>row. row\<lparr>pr_status := StatusFailed,
      pr_psp := psp, pr_psp_reference_id := ref, pr_failure_reason := reason, pr_updated_at := t\<rparr>) (payments w)"
    by (auto simp: status_commit_def)
  show ?case unfolding pay by (rule update_row [OF failed(3), where to = StatusFailed]) (simp_all add: identity_of_def)
next
  case (refunded r i amount key rid w w')
  then obtain t where pay: "payments w' = sql_update (at_status i StatusSuccess)
      (\<lambda>row. row\<lparr>pr_status := StatusRefunded, pr_updated_at := t\<rparr>) (payments w)"
    by (auto simp: refund_commit_def)
  show ?case unfolding pay by (rule update_row [OF refunded(4)]) (simp_all add: identity_of_def)
qed auto

lemma ledger_steps_row:
  assumes "(ledger_step E)\<^sup>*\<^sup>* w w'" and "row \<in> set (payments w)"
  shows "\<exists>row' \<in> set (payments w'). identity_of row' = identity_of row \<and>
    ValidTransition\<^sup>*\<^sup>* (pr_status row) (pr_status row')"
  using assms(1)
proof (induction rule: rtranclp_induct)
  case base
  then show ?case using assms(2) by blast
next
  case (step v v')
  then obtain x where x: "x \<in> set (payments v)" "identity_of x = identity_of row"
    "ValidTransition\<^sup>*\<^sup>* (pr_status row) (pr_status x)" by blast
  from effect_row [OF ledger_step_effect [OF step.hyps(2)] x(1)] obtain y where
    "y \<in> set (payments v')" "identity_of y = identity_of x" "ValidTransition\<^sup>=\<^sup>= (pr_status x) (pr_status y)" by blast
  moreover from this(3) x(3) have "ValidTransition\<^sup>*\<^sup>* (pr_status row) (pr_status y)"
    by (auto intro: rtranclp.rtrancl_into_rtrancl)
  ultimately show ?case using x(2) by auto
qed

text \<open>
  C25: a stored payment is never lost. After any sequence of calls by anyone, and under any
  faults, it is still there with the same merchant, amount, currency, idempotency key and
  creation time, and its status has moved only along the transition table.
\<close>

theorem payment_history:
  assumes "(ledger_step E)\<^sup>*\<^sup>* w w'" and "row \<in> set (payments w)"
  shows "\<exists>row' \<in> set (payments w'). identity_of row' = identity_of row \<and>
    ValidTransition\<^sup>*\<^sup>* (pr_status row) (pr_status row')"
  using assms by (rule ledger_steps_row)

theorem payment_history_witness:
  "\<exists>row' \<in> set (payments (snd (UpdatePaymentStatus steady (Some sample_repo) 1 StatusInitiated StatusProcessing
       (sample_db StatusInitiated)))). identity_of row' = identity_of (sample_payment StatusInitiated)"
proof -
  have "(ledger_step steady)\<^sup>*\<^sup>* (sample_db StatusInitiated) (snd (UpdatePaymentStatus steady (Some sample_repo) 1
      StatusInitiated StatusProcessing (sample_db StatusInitiated)))"
    by (rule r_into_rtranclp) (rule ledger_step.start)
  from payment_history [OF this, of "sample_payment StatusInitiated"] show ?thesis
    by (auto simp: sample_db_def)
qed

lemma effect_distinct:
  assumes "effect E w w'" and "distinct (map pr_id (payments w))"
  shows "distinct (map pr_id (payments w'))"
proof -
  have u: "map pr_id (sql_update P f t) = map pr_id t" if "\<And>x. pr_id (f x) = pr_id x" for P f t
    by (rule sql_update_keys) (rule that)
  show ?thesis
    using assms
    by (induction rule: effect.induct)
      (auto simp: tables_def created_def status_commit_def refund_commit_def u)
qed

lemma ledger_steps_distinct:
  "(ledger_step E)\<^sup>*\<^sup>* w w' \<Longrightarrow> distinct (map pr_id (payments w)) \<Longrightarrow> distinct (map pr_id (payments w'))"
  by (induction rule: rtranclp_induct) (auto dest: ledger_step_effect effect_distinct)

lemma refunded_stays: "ValidTransition\<^sup>*\<^sup>* StatusRefunded st \<Longrightarrow> st = StatusRefunded"
  by (induction rule: rtranclp_induct) auto

text \<open>
  C9: a payment is refunded at most once. After a refund that was answered with an
  identifier, and whatever happens in between, every further refund of that payment is
  answered with an error and changes no table, whatever its amount and idempotency key.
\<close>

theorem refund_once:
  assumes "distinct (map pr_id (payments w))" and "RefundPaymentAtomic E r i amount key w = (Inr rid, w1)"
    and "(ledger_step E)\<^sup>*\<^sup>* w1 w2" and "RefundPaymentAtomic E r' i amount' key' w2 = (res, w3)"
  shows "(\<exists>e. res = Inl e) \<and> tables w3 = tables w2"
proof -
  from refund_tx [OF assms(2)] have c: "refund_commit E r i amount (TrimSpace key) rid w w1" by auto
  then obtain row t where row: "row \<in> set (payments w)" "pr_id row = i" "pr_status row = StatusSuccess"
    and pay: "payments w1 = sql_update (at_status i StatusSuccess)
      (\<lambda>row. row\<lparr>pr_status := StatusRefunded, pr_updated_at := t\<rparr>) (payments w)"
    by (auto simp: refund_commit_def)
  let ?x = "row\<lparr>pr_status := StatusRefunded, pr_updated_at := t\<rparr>"
  have "?x \<in> set (payments w1)" unfolding pay set_sql_update using row by (intro bexI [of _ row]) (simp_all add: at_status_def)
  from ledger_steps_row [OF assms(3) this] obtain y where y: "y \<in> set (payments w2)" "pr_id y = i" "pr_status y = StatusRefunded"
    using row(2) refunded_stays by (auto simp: identity_of_def)
  have "map pr_id (payments w1) = map pr_id (payments w)" unfolding pay by (rule sql_update_keys) simp
  with assms(1) have "distinct (map pr_id (payments w2))" using ledger_steps_distinct [OF assms(3)] by simp
  with y have "\<not> (\<exists>z \<in> set (payments w2). pr_id z = i \<and> pr_status z = StatusSuccess)"
    by (metis distinct_map inj_onD status_distinct(17))
  then have "\<not> refund_commit E r' i amount' (TrimSpace key') x w2 w3" for x
    unfolding refund_commit_def by blast
  with refund_tx [OF assms(4)] show ?thesis by blast
qed

theorem refund_once_witness:
  "\<exists>rid w1 e w3. RefundPaymentAtomic steady (Some sample_repo) 1 200 ''r1'' (sample_db StatusSuccess) = (Inr rid, w1) \<and>
     RefundPaymentAtomic steady (Some sample_repo) 1 300 ''k1'' w1 = (Inl e, w3) \<and> tables w3 = tables w1"
proof -
  obtain rid w1 where r: "RefundPaymentAtomic steady (Some sample_repo) 1 200 ''r1'' (sample_db StatusSuccess) = (Inr rid, w1)"
    by (simp add: RefundPaymentAtomic_def TrimSpace_r1 refund_insert_def tx_eval)
  obtain res w3 where s: "RefundPaymentAtomic steady (Some sample_repo) 1 300 ''k1'' w1 = (res, w3)" by fastforce
  have "distinct (map pr_id (payments (sample_db StatusSuccess)))" by (simp add: sample_db_def)
  from refund_once [OF this r rtranclp.rtrancl_refl s] r s show ?thesis by blast
qed

text \<open>A ledger with one successful payment whose event is due.\<close>

definition sample_settled :: world where
  "sample_settled = (sample_db StatusSuccess)\<lparr>outbox := [sample_row]\<rparr>"

lemma sample_settled_inv: "ledger_inv sample_settled"
  by (simp add: ledger_inv_def payment_ok_def sample_settled_def sample_db_def sample_payment_def sample_row_def
      empty_world_def event_types_def events_for_def refunds_of_def refund_count_def uuid_Nil_def IsInt64_def
      ValidCurrency_def allowedCurrencies_def)

end
