(* ===== verification/Psp_Adapter.thy ===== *)
theory Psp_Adapter
  imports Domain
begin

text \<open>
  The contract of a payment service provider (\<open>internal/psp/adapter.go\<close>) and the routing of
  charges to providers (\<open>internal/psp/router.go\<close>). An adapter is a value with its methods; a
  charge runs on the state \<open>'p\<close> of the providers and returns a response pointer (\<open>None\<close> is
  nil) or an error.
\<close>

section \<open>Requests, responses, errors\<close>

record charge_request =
  q_PaymentID :: uuid
  q_Amount :: int
  q_Currency :: string
  q_IdempotencyKey :: string

type_synonym ChargeStatus = string

definition ChargeStatusAuthorized :: ChargeStatus where "ChargeStatusAuthorized = ''authorized''"
definition ChargeStatusCaptured :: ChargeStatus where "ChargeStatusCaptured = ''captured''"
definition ChargeStatusDeclined :: ChargeStatus where "ChargeStatusDeclined = ''declined''"
definition ChargeStatusError :: ChargeStatus where "ChargeStatusError = ''error''"

lemmas charge_status_defs = ChargeStatusAuthorized_def ChargeStatusCaptured_def
  ChargeStatusDeclined_def ChargeStatusError_def

lemma charge_status_distinct [simp]:
  "ChargeStatusCaptured \<noteq> ChargeStatusDeclined" "ChargeStatusDeclined \<noteq> ChargeStatusCaptured"
  "ChargeStatusAuthorized \<noteq> ChargeStatusDeclined" "ChargeStatusDeclined \<noteq> ChargeStatusAuthorized"
  "ChargeStatusCaptured \<noteq> ChargeStatusError" "ChargeStatusError \<noteq> ChargeStatusCaptured"
  "ChargeStatusAuthorized \<noteq> ChargeStatusError" "ChargeStatusError \<noteq> ChargeStatusAuthorized"
  "ChargeStatusDeclined \<noteq> ChargeStatusError" "ChargeStatusError \<noteq> ChargeStatusDeclined"
  by (simp_all add: charge_status_defs)

record charge_response =
  c_PSPReferenceID :: string
  c_Status :: ChargeStatus
  c_RawResponse :: json

record psp_refund_request =
  f_PaymentID :: uuid
  f_PSPReferenceID :: string
  f_Amount :: int
  f_Currency :: string
  f_IdempotencyKey :: string

type_synonym RefundStatus = string

definition RefundStatusPending :: RefundStatus where "RefundStatusPending = ''pending''"
definition RefundStatusSucceeded :: RefundStatus where "RefundStatusSucceeded = ''succeeded''"
definition RefundStatusFailed :: RefundStatus where "RefundStatusFailed = ''failed''"

record psp_refund_response =
  g_PSPRefundID :: string
  g_Status :: RefundStatus
  g_RawResponse :: json

definition CodeCardDeclined :: string where "CodeCardDeclined = ''card_declined''"
definition CodeInsufficientFunds :: string where "CodeInsufficientFunds = ''insufficient_funds''"
definition CodeInvalidRequest :: string where "CodeInvalidRequest = ''invalid_request''"
definition CodeNetworkError :: string where "CodeNetworkError = ''network_error''"
definition CodeRateLimited :: string where "CodeRateLimited = ''rate_limited''"
definition CodeServiceUnavailable :: string where "CodeServiceUnavailable = ''service_unavailable''"

definition NewError :: "string \<Rightarrow> string \<Rightarrow> bool \<Rightarrow> go_error" where
  "NewError code message retryable = PSPError code message retryable"

text \<open>\<open>psp.IsRetryable\<close>: only an error chain with a \<open>*psp.Error\<close> can be retryable.\<close>

definition psp_IsRetryable :: "go_error \<Rightarrow> bool" where
  "psp_IsRetryable err = (case errors_As_PSP err of Some (_, _, retryable) \<Rightarrow> retryable | None \<Rightarrow> False)"

section \<open>Adapters\<close>

record 'p adapter =
  a_Name :: string
  a_Charge :: "charge_request \<Rightarrow> 'p \<Rightarrow> charge_response option result \<times> 'p"
  a_Refund :: "psp_refund_request \<Rightarrow> 'p \<Rightarrow> psp_refund_response option result \<times> 'p"

text \<open>
  What the payment service relies on when it charges: an answer without an error carries a
  response, and its status is captured, authorized, declined or error.
\<close>

locale psp_provider =
  fixes charge :: "charge_request \<Rightarrow> 'p \<Rightarrow> charge_response option result \<times> 'p"
  assumes charge_answers: "fst (charge req s) = Inr r \<Longrightarrow>
      \<exists>resp. r = Some resp \<and> c_Status resp \<in> {ChargeStatusCaptured, ChargeStatusAuthorized,
        ChargeStatusDeclined, ChargeStatusError}"
    and charge_no_panic: "fst (charge req s) \<noteq> Inl (GoPanic m)"
begin

lemma charge_cases:
  obtains (error) e where "fst (charge req s) = Inl e" "\<And>m. e \<noteq> GoPanic m"
  | (taken) resp where "fst (charge req s) = Inr (Some resp)"
      "c_Status resp = ChargeStatusCaptured \<or> c_Status resp = ChargeStatusAuthorized"
  | (refused) resp where "fst (charge req s) = Inr (Some resp)"
      "c_Status resp = ChargeStatusDeclined \<or> c_Status resp = ChargeStatusError"
proof (cases "fst (charge req s)")
  case (Inl e)
  with charge_no_panic [of req s] show ?thesis by (intro error) auto
next
  case (Inr r)
  with charge_answers [OF this] taken refused show ?thesis by auto
qed

end

section \<open>The router\<close>

definition AdapterStripeMock :: string where "AdapterStripeMock = ''stripe_mock''"
definition AdapterRazorpayMock :: string where "AdapterRazorpayMock = ''razorpay_mock''"

definition DefaultLargeAmountThreshold :: int where
  "DefaultLargeAmountThreshold = 100000"

record routing_rule =
  Currencies :: "string list"
  MinAmount :: int
  MaxAmount :: int
  rule_PSP :: string

text \<open>The adapters map may hold a nil interface under a name (\<open>Some None\<close>).\<close>

record 'p router =
  adapters :: "string \<Rightarrow> 'p adapter option option"
  rules :: "routing_rule list"

definition NewRouter :: "(string \<Rightarrow> 'p adapter option option) \<Rightarrow> routing_rule list \<Rightarrow> 'p router" where
  "NewRouter as rs = \<lparr>adapters = as, rules = rs\<rparr>"

definition DefaultRoutingRules :: "routing_rule list" where
  "DefaultRoutingRules =
     [\<lparr>Currencies = [''INR''], MinAmount = 0, MaxAmount = 0, rule_PSP = AdapterRazorpayMock\<rparr>,
      \<lparr>Currencies = [''USD'', ''EUR'', ''GBP''], MinAmount = 0, MaxAmount = 0, rule_PSP = AdapterStripeMock\<rparr>,
      \<lparr>Currencies = [], MinAmount = DefaultLargeAmountThreshold + 1, MaxAmount = 0, rule_PSP = AdapterStripeMock\<rparr>]"

definition DefaultRouter :: "'p adapter \<Rightarrow> 'p adapter \<Rightarrow> 'p router" where
  "DefaultRouter stripe razorpay =
     NewRouter (Map.empty(a_Name stripe \<mapsto> Some stripe, a_Name razorpay \<mapsto> Some razorpay)) DefaultRoutingRules"

definition router_adapter :: "(string \<Rightarrow> string) \<Rightarrow> 'p router \<Rightarrow> string \<Rightarrow> 'p adapter result" where
  "router_adapter Q r name =
     (case adapters r name of
        Some (Some a) \<Rightarrow> Inr a
      | _ \<Rightarrow> Inl (OtherError (''psp: unknown adapter '' @ Quote Q name)))"

definition maxBound :: "int \<Rightarrow> int" where
  "maxBound ruleMax = (if ruleMax = 0 then 2 ^ 63 - 1 else ruleMax)"

text \<open>The loop over the rules; a rule that does not match falls through to the next one.\<close>

fun select_rules :: "(string \<Rightarrow> string) \<Rightarrow> (string \<Rightarrow> string) \<Rightarrow> 'p router \<Rightarrow> string \<Rightarrow> int
    \<Rightarrow> routing_rule list \<Rightarrow> 'p adapter result" where
  "select_rules U Q r cur amount [] = Inl (Sentinel ErrNoRoute)"
| "select_rules U Q r cur amount (rule # rest) =
     (let maxAmt = maxBound (MaxAmount rule) in
      if amount < MinAmount rule \<or> amount > maxAmt then select_rules U Q r cur amount rest
      else if Currencies rule = [] then router_adapter Q r (rule_PSP rule)
      else if list_ex (\<lambda>c. ToUpper U (TrimSpace c) = cur) (Currencies rule)
        then router_adapter Q r (rule_PSP rule)
      else select_rules U Q r cur amount rest)"

definition Select :: "(string \<Rightarrow> string) \<Rightarrow> (string \<Rightarrow> string) \<Rightarrow> 'p router option \<Rightarrow> string \<Rightarrow> int
    \<Rightarrow> 'p adapter result" where
  "Select U Q r currency amount =
     (case r of
        None \<Rightarrow> Inl (OtherError ''psp: nil router'')
      | Some r \<Rightarrow>
          (let cur = ToUpper U (TrimSpace currency) in select_rules U Q r cur amount (rules r)))"

text \<open>When a rule matches a normalised currency and an amount.\<close>

definition rule_matches :: "(string \<Rightarrow> string) \<Rightarrow> string \<Rightarrow> int \<Rightarrow> routing_rule \<Rightarrow> bool" where
  "rule_matches U cur amount rule \<longleftrightarrow>
     MinAmount rule \<le> amount \<and> amount \<le> maxBound (MaxAmount rule) \<and>
     (Currencies rule = [] \<or> cur \<in> (ToUpper U \<circ> TrimSpace) ` set (Currencies rule))"

lemma select_rules_find:
  "select_rules U Q r cur amount rs =
     (case find (rule_matches U cur amount) rs of
        Some rule \<Rightarrow> router_adapter Q r (rule_PSP rule)
      | None \<Rightarrow> Inl (Sentinel ErrNoRoute))"
  by (induction rs) (auto simp: rule_matches_def Let_def list_ex_iff image_iff)

lemma default_currencies [simp]:
  "ToUpper U (TrimSpace ''USD'') = ''USD''" "ToUpper U (TrimSpace ''EUR'') = ''EUR''"
  "ToUpper U (TrimSpace ''GBP'') = ''GBP''" "ToUpper U (TrimSpace ''INR'') = ''INR''"
  by (simp_all add: currency_simps ValidCurrency_def allowedCurrencies_def)

text \<open>
  The router takes the first rule in order that matches the normalised currency and the
  amount, and answers \<open>ErrNoRoute\<close> exactly when no rule matches and the rules it would use
  name registered adapters.
\<close>

theorem select_first_match:
  "Select U Q (Some r) currency amount =
     (case find (rule_matches U (ToUpper U (TrimSpace currency)) amount) (rules r) of
        Some rule \<Rightarrow> router_adapter Q r (rule_PSP rule)
      | None \<Rightarrow> Inl (Sentinel ErrNoRoute)) \<and>
   (Select U Q (Some r) currency amount = Inl (Sentinel ErrNoRoute) \<longleftrightarrow>
      \<not> list_ex (rule_matches U (ToUpper U (TrimSpace currency)) amount) (rules r))"
proof -
  have "Select U Q (Some r) currency amount =
     (case find (rule_matches U (ToUpper U (TrimSpace currency)) amount) (rules r) of
        Some rule \<Rightarrow> router_adapter Q r (rule_PSP rule)
      | None \<Rightarrow> Inl (Sentinel ErrNoRoute))"
    by (simp add: Select_def select_rules_find)
  moreover have "router_adapter Q r name \<noteq> Inl (Sentinel ErrNoRoute)" for name
    by (simp add: router_adapter_def split: option.splits)
  ultimately show ?thesis
    by (auto simp: find_None_iff list_ex_iff split: option.splits dest: find_SomeD)
qed

text \<open>
  The default routing, as a function of the normalised currency and an amount that fits in
  64 bits: a lemma for the payment service and for the property below.
\<close>

lemma default_router_select:
  assumes "a_Name stripe = AdapterStripeMock" "a_Name razorpay = AdapterRazorpayMock" "amount < 2 ^ 63"
  shows "Select U Q (Some (DefaultRouter stripe razorpay)) currency amount =
     (let cur = ToUpper U (TrimSpace currency) in
      if cur = ''INR'' \<and> 0 \<le> amount then Inr razorpay
      else if cur \<in> {''USD'', ''EUR'', ''GBP''} \<and> 0 \<le> amount then Inr stripe
      else if 100000 < amount then Inr stripe
      else Inl (Sentinel ErrNoRoute))"
  using assms
  by (simp add: Select_def DefaultRouter_def NewRouter_def DefaultRoutingRules_def maxBound_def
      router_adapter_def AdapterStripeMock_def AdapterRazorpayMock_def
      DefaultLargeAmountThreshold_def Let_def) metis

text \<open>
  With the default rules, every supported currency has a provider whatever the
  non-negative amount: rupees go to Razorpay, dollars, euros and pounds to Stripe. Any other
  currency is routed (to Stripe) only above the large-amount threshold.
\<close>

theorem default_routing:
  assumes "a_Name stripe = AdapterStripeMock" and "a_Name razorpay = AdapterRazorpayMock"
    and "0 \<le> amount" and "amount < 2 ^ 63"
  shows "(ValidCurrency (ToUpper U (TrimSpace currency)) \<longrightarrow>
      Select U Q (Some (DefaultRouter stripe razorpay)) currency amount
        = Inr (if ToUpper U (TrimSpace currency) = ''INR'' then razorpay else stripe)) \<and>
    (\<not> ValidCurrency (ToUpper U (TrimSpace currency)) \<longrightarrow>
      Select U Q (Some (DefaultRouter stripe razorpay)) currency amount
        = (if DefaultLargeAmountThreshold < amount then Inr stripe else Inl (Sentinel ErrNoRoute)))"
  unfolding default_router_select [OF assms(1,2,4)]
  using assms(3) by (auto simp: ValidCurrency_def allowedCurrencies_def DefaultLargeAmountThreshold_def Let_def)

theorem default_routing_witness:
  "let a = (\<lambda>n. \<lparr>a_Name = n, a_Charge = \<lambda>_ s. (Inr None, s), a_Refund = \<lambda>_ s. (Inr None, s)\<rparr> :: unit adapter)
   in Select id id (Some (DefaultRouter (a AdapterStripeMock) (a AdapterRazorpayMock))) '' inr '' 5
     = Inr (a AdapterRazorpayMock)"
  using default_routing
    [of "\<lparr>a_Name = AdapterStripeMock, a_Charge = \<lambda>_ s. (Inr None, s), a_Refund = \<lambda>_ s. (Inr None, s)\<rparr> :: unit adapter"
        "\<lparr>a_Name = AdapterRazorpayMock, a_Charge = \<lambda>_ s. (Inr None, s), a_Refund = \<lambda>_ s. (Inr None, s)\<rparr>"
        5 id "'' inr ''" id]
  by (simp add: TrimSpace_def trim_left.simps asciiSpace_def ToUpper_def ascii_upper_def
      ValidCurrency_def allowedCurrencies_def)

end
