(* ===== verification/Go_Float.thy ===== *)
theory Go_Float
  imports Prelude Complex_Main
begin

text \<open>
  Values of Go's \<open>float64\<close>, with the comparisons and \<open>math.Min\<close> written out. The rounding
  operations (product, \<open>math.Pow\<close>, conversions from and to integers) are a parameter
  \<open>F\<close> of the definitions that use them; \<open>float_ok\<close> states what IEEE 754 arithmetic
  gives for the values that occur.
\<close>

datatype gofloat = NaN | PosInf | NegInf | Fin rat

text \<open>A comparison with NaN is false.\<close>

fun fless :: "gofloat \<Rightarrow> gofloat \<Rightarrow> bool" where
  "fless (Fin a) (Fin b) = (a < b)"
| "fless NegInf (Fin b) = True"
| "fless NegInf PosInf = True"
| "fless (Fin a) PosInf = True"
| "fless _ _ = False"

fun fle :: "gofloat \<Rightarrow> gofloat \<Rightarrow> bool" where
  "fle (Fin a) (Fin b) = (a \<le> b)"
| "fle NegInf NaN = False"
| "fle NegInf b = True"
| "fle NaN b = False"
| "fle (Fin a) PosInf = True"
| "fle PosInf PosInf = True"
| "fle _ _ = False"

text \<open>\<open>math.Min\<close>: an infinity below wins, then NaN, then the smaller value.\<close>

definition fmin :: "gofloat \<Rightarrow> gofloat \<Rightarrow> gofloat" where
  "fmin x y =
     (if x = NegInf \<or> y = NegInf then NegInf
      else if x = NaN \<or> y = NaN then NaN
      else if fless x y then x else y)"

record float_ops =
  f_mul :: "gofloat \<Rightarrow> gofloat \<Rightarrow> gofloat"
  f_pow :: "gofloat \<Rightarrow> gofloat \<Rightarrow> gofloat"
  f_of_int :: "int \<Rightarrow> gofloat"
  f_to_int :: "gofloat \<Rightarrow> int"

text \<open>
  Integers up to \<open>2 ^ 53\<close> convert exactly; scaling a positive value by a factor from the
  interval from 0 to 1 stays between 0 and that value; conversion to an integer truncates;
  powers and products of positive values are not NaN (they may overflow to infinity).
\<close>

definition float_ok :: "float_ops \<Rightarrow> bool" where
  "float_ok F \<longleftrightarrow>
     (\<forall>n. \<bar>n\<bar> \<le> 2 ^ 53 \<longrightarrow> f_of_int F n = Fin (of_int n)) \<and>
     (\<forall>r q. 0 \<le> r \<and> r < 1 \<and> 0 < q \<longrightarrow> (\<exists>x. f_mul F (Fin r) (Fin q) = Fin x \<and> 0 \<le> x \<and> x \<le> q)) \<and>
     (\<forall>x. 0 \<le> x \<and> x \<le> 2 ^ 53 \<longrightarrow> f_to_int F (Fin x) = \<lfloor>x\<rfloor>) \<and>
     (\<forall>a n. 0 < a \<and> 0 \<le> n \<longrightarrow> f_pow F (Fin a) (Fin n) = PosInf \<or> (\<exists>x \<ge> 0. f_pow F (Fin a) (Fin n) = Fin x)) \<and>
     (\<forall>b. 0 < b \<longrightarrow> f_mul F (Fin b) PosInf = PosInf \<and> (\<forall>x \<ge> 0. f_mul F (Fin b) (Fin x) \<noteq> NaN))"

text \<open>Exact arithmetic on the finite values satisfies it.\<close>

fun exact_mul :: "gofloat \<Rightarrow> gofloat \<Rightarrow> gofloat" where
  "exact_mul (Fin a) (Fin b) = Fin (a * b)"
| "exact_mul (Fin a) PosInf = (if 0 < a then PosInf else NaN)"
| "exact_mul _ _ = NaN"

fun exact_pow :: "gofloat \<Rightarrow> gofloat \<Rightarrow> gofloat" where
  "exact_pow (Fin a) (Fin b) = Fin (a ^ nat \<lfloor>b\<rfloor>)"
| "exact_pow _ _ = NaN"

fun exact_to_int :: "gofloat \<Rightarrow> int" where
  "exact_to_int (Fin x) = (if 0 \<le> x then \<lfloor>x\<rfloor> else \<lceil>x\<rceil>)"
| "exact_to_int _ = 0"

definition exact_ops :: float_ops where
  "exact_ops = \<lparr>f_mul = exact_mul, f_pow = exact_pow, f_of_int = (\<lambda>n. Fin (of_int n)), f_to_int = exact_to_int\<rparr>"

lemma float_ok_exact: "float_ok exact_ops"
  by (simp add: float_ok_def exact_ops_def mult_le_cancel_right1)

lemma float_of_int: "float_ok F \<Longrightarrow> \<bar>n\<bar> \<le> 2 ^ 53 \<Longrightarrow> f_of_int F n = Fin (of_int n)"
  by (simp add: float_ok_def)

lemma float_scale:
  assumes "float_ok F" "0 \<le> r" "r < 1" "0 < q"
  obtains x where "f_mul F (Fin r) (Fin q) = Fin x" "0 \<le> x" "x \<le> q"
  using assms unfolding float_ok_def by metis

lemma float_power_product:
  assumes "float_ok F" "0 < a" "0 \<le> n" "0 < b"
  shows "f_mul F (Fin b) (f_pow F (Fin a) (Fin n)) \<noteq> NaN"
  using assms unfolding float_ok_def by (metis gofloat.distinct(1))

lemma float_to_int: "float_ok F \<Longrightarrow> 0 \<le> x \<Longrightarrow> x \<le> 2 ^ 53 \<Longrightarrow> f_to_int F (Fin x) = \<lfloor>x\<rfloor>"
  by (simp add: float_ok_def)

text \<open>The capped value is NaN, not positive, or a finite number below the cap.\<close>

lemma fmin_capped:
  assumes "\<not> fle (fmin x (Fin c)) (Fin 0)"
  shows "fmin x (Fin c) = NaN \<or> (\<exists>q. fmin x (Fin c) = Fin q \<and> 0 < q \<and> q \<le> c)"
  using assms by (cases x) (auto simp: fmin_def)

lemma fmin_not_NaN: "x \<noteq> NaN \<Longrightarrow> fmin x (Fin c) \<noteq> NaN"
  by (cases x) (auto simp: fmin_def)

section \<open>Exponential backoff with full jitter\<close>

text \<open>
  The common reference for the delays of the retry engine and of the webhook worker: the
  base delay times the multiplier to the attempt, capped, times a random factor.
\<close>

definition backoff_delay :: "float_ops \<Rightarrow> duration \<Rightarrow> gofloat \<Rightarrow> duration \<Rightarrow> int \<Rightarrow> gofloat \<Rightarrow> duration" where
  "backoff_delay F base mult cap attempt rnd =
     (let exp = f_mul F (f_of_int F base) (f_pow F mult (f_of_int F attempt));
          capped = fmin exp (f_of_int F cap)
      in if fle capped (Fin 0) then 0 else f_to_int F (f_mul F rnd capped))"

lemma backoff_delay_bounds:
  assumes F: "float_ok F" and cap: "0 \<le> cap" "cap \<le> 2 ^ 53"
    and base: "0 < base" "base \<le> 2 ^ 53" and mult: "mult = Fin m" "0 < m"
    and attempt: "0 \<le> attempt" "attempt \<le> 2 ^ 53" and rnd: "rnd = Fin r" "0 \<le> r" "r < 1"
  shows "0 \<le> backoff_delay F base mult cap attempt rnd \<and> backoff_delay F base mult cap attempt rnd \<le> cap"
proof -
  let ?e = "f_mul F (f_of_int F base) (f_pow F mult (f_of_int F attempt))"
  let ?c = "fmin ?e (f_of_int F cap)"
  have ints: "f_of_int F cap = Fin (of_int cap)" "f_of_int F base = Fin (of_int base)"
    "f_of_int F attempt = Fin (of_int attempt)"
    using F cap base attempt by (auto intro!: float_of_int)
  have "?c \<noteq> NaN"
    unfolding ints mult using F base attempt mult(2) by (intro fmin_not_NaN float_power_product) auto
  show ?thesis
  proof (cases "fle ?c (Fin 0)")
    case True
    with cap show ?thesis by (simp add: backoff_delay_def)
  next
    case False
    with \<open>?c \<noteq> NaN\<close> obtain q where q: "?c = Fin q" "0 < q" "q \<le> of_int cap"
      using fmin_capped ints(1) by metis
    obtain x where x: "f_mul F (Fin r) (Fin q) = Fin x" "0 \<le> x" "x \<le> q"
      using float_scale F rnd(2,3) q(2) by metis
    have "of_int cap \<le> (2 ^ 53 :: rat)"
      using cap(2) by (metis of_int_le_iff of_int_numeral of_int_power)
    with x q have "x \<le> 2 ^ 53" by linarith
    with x have "backoff_delay F base mult cap attempt rnd = \<lfloor>x\<rfloor>"
      using False q(1) F rnd(1) by (simp add: backoff_delay_def Let_def float_to_int)
    moreover have "0 \<le> \<lfloor>x\<rfloor>" and "\<lfloor>x\<rfloor> \<le> cap"
      using x q(3) by (auto simp: floor_le_iff)
    ultimately show ?thesis by simp
  qed
qed

end
