(* ===== verification/Retry.thy ===== *)
theory Retry
  imports Psp_Adapter Go_Float
begin

text \<open>
  The retry engine (\<open>internal/retry/retry.go\<close>). The operation is a function on a state \<open>'s\<close>;
  the context and the random source answer through a record of oracles indexed by the
  attempt. The loop ends after at most \<open>MaxAttempts\<close> rounds by its measure, and returns
  the outcomes handed to the observer and the delays slept along with the result.
\<close>

section \<open>Configuration\<close>

record retry_config =
  MaxAttempts :: int
  BaseDelay :: duration
  MaxDelay :: duration
  Multiplier :: gofloat

definition DefaultConfig :: retry_config where
  "DefaultConfig = \<lparr>MaxAttempts = 3, BaseDelay = 100 * Millisecond, MaxDelay = 10 * Second, Multiplier = Fin 2\<rparr>"

definition withDefaults :: "retry_config \<Rightarrow> retry_config" where
  "withDefaults c0 =
     (let c1 = (if MaxAttempts c0 \<le> 0 then c0\<lparr>MaxAttempts := 3\<rparr> else c0);
          c2 = (if BaseDelay c1 \<le> 0 then c1\<lparr>BaseDelay := 100 * Millisecond\<rparr> else c1);
          c3 = (if MaxDelay c2 \<le> 0 then c2\<lparr>MaxDelay := 10 * Second\<rparr> else c2);
          c4 = (if fle (Multiplier c3) (Fin 0) then c3\<lparr>Multiplier := Fin 2\<rparr> else c3)
      in c4)"

lemma withDefaults_fields:
  "MaxAttempts (withDefaults c) = (if MaxAttempts c \<le> 0 then 3 else MaxAttempts c)"
  "BaseDelay (withDefaults c) = (if BaseDelay c \<le> 0 then 100 * Millisecond else BaseDelay c)"
  "MaxDelay (withDefaults c) = (if MaxDelay c \<le> 0 then 10 * Second else MaxDelay c)"
  "Multiplier (withDefaults c) = (if fle (Multiplier c) (Fin 0) then Fin 2 else Multiplier c)"
  by (simp_all add: withDefaults_def Let_def)

lemma withDefaults_positive:
  "0 < MaxAttempts (withDefaults c)" "0 < BaseDelay (withDefaults c)" "0 < MaxDelay (withDefaults c)"
  by (simp_all add: withDefaults_fields duration_defs)

section \<open>Classification and delay\<close>

definition isNetworkError :: "go_error \<Rightarrow> bool" where
  "isNetworkError err = errors_As_net err"

text \<open>\<open>retry.IsRetryable\<close>: the flag of a PSP error decides; otherwise deadlines and network errors.\<close>

definition IsRetryable :: "go_error option \<Rightarrow> bool" where
  "IsRetryable e =
     (case e of
        None \<Rightarrow> False
      | Some err \<Rightarrow>
          (case errors_As_PSP err of
             Some (_, _, retryable) \<Rightarrow> retryable
           | None \<Rightarrow> if errors_Is err DeadlineExceeded then True else isNetworkError err))"

definition calculateDelayWithJitter :: "float_ops \<Rightarrow> retry_config \<Rightarrow> int \<Rightarrow> gofloat \<Rightarrow> duration" where
  "calculateDelayWithJitter F cfg attempt rnd =
     (let exp = f_mul F (f_of_int F (BaseDelay cfg)) (f_pow F (Multiplier cfg) (f_of_int F attempt));
          capped = fmin exp (f_of_int F (MaxDelay cfg))
      in if fle capped (Fin 0) then 0 else f_to_int F (f_mul F rnd capped))"

lemma calculateDelay_backoff:
  "calculateDelayWithJitter F cfg attempt rnd
     = backoff_delay F (BaseDelay cfg) (Multiplier cfg) (MaxDelay cfg) attempt rnd"
  by (simp add: calculateDelayWithJitter_def backoff_delay_def)

section \<open>The loop\<close>

text \<open>
  Oracles of one run: \<open>ctx.Err()\<close> at the top of an attempt, the context winning the
  \<open>select\<close> against the timer after an attempt, and \<open>rand.Float64()\<close>.
\<close>

record retry_env =
  re_ctx_err :: "int \<Rightarrow> go_error option"
  re_ctx_done :: "int \<Rightarrow> go_error option"
  re_rand :: "int \<Rightarrow> gofloat"

function retry_loop :: "float_ops \<Rightarrow> retry_env \<Rightarrow> retry_config \<Rightarrow> ('s \<Rightarrow> 'a result \<times> 's)
    \<Rightarrow> int \<Rightarrow> go_error \<Rightarrow> 's \<Rightarrow> 'a result \<times> 's \<times> string list \<times> duration list" where
  "retry_loop F R cfg op attempt lastErr s =
     (if attempt < MaxAttempts cfg then
        (case re_ctx_err R attempt of
           Some e \<Rightarrow> (Inl e, s, [], [])
         | None \<Rightarrow>
             (case op s of
                (Inr x, s') \<Rightarrow> (Inr x, s', [], [])
              | (Inl err, s') \<Rightarrow>
                  if \<not> IsRetryable (Some err) then (Inl err, s', [''nonretryable_error''], [])
                  else if attempt = MaxAttempts cfg - 1 then
                    (Inl (wrap_pre ''max retries exceeded'' err), s', [''retryable_error''], [])
                  else
                    (let delay = calculateDelayWithJitter F cfg attempt (re_rand R attempt) in
                     case re_ctx_done R attempt of
                       Some e \<Rightarrow> (Inl e, s', [''retryable_error''], [])
                     | None \<Rightarrow>
                         (case retry_loop F R cfg op (attempt + 1) err s' of
                            (r, s'', outs, ds) \<Rightarrow> (r, s'', ''retryable_error'' # outs, delay # ds)))))
      else (Inl (wrap_pre ''max retries exceeded'' lastErr), s, [], []))"
  by pat_completeness auto
termination
  by (relation "measure (\<lambda>(F, R, cfg, op, attempt, lastErr, s). nat (MaxAttempts cfg - attempt))") auto

declare retry_loop.simps [simp del]

text \<open>The initial \<open>lastErr\<close> is nil; formatting it with \<open>%w\<close> gives this text.\<close>

definition DoWithObserver :: "float_ops \<Rightarrow> retry_env \<Rightarrow> retry_config \<Rightarrow> ('s \<Rightarrow> 'a result \<times> 's)
    \<Rightarrow> 's \<Rightarrow> 'a result \<times> 's \<times> string list \<times> duration list" where
  "DoWithObserver F R cfg op s = retry_loop F R (withDefaults cfg) op 0 (OtherError ''%!w(<nil>)'') s"

definition Do :: "float_ops \<Rightarrow> retry_env \<Rightarrow> retry_config \<Rightarrow> ('s \<Rightarrow> 'a result \<times> 's) \<Rightarrow> 's \<Rightarrow> 'a result \<times> 's" where
  "Do F R cfg op s = (case DoWithObserver F R cfg op s of (r, s', _, _) \<Rightarrow> (r, s'))"

section \<open>What the loop computes\<close>

text \<open>The state before the \<open>n\<close>-th call of the operation, and what that call answers.\<close>

definition op_state :: "('s \<Rightarrow> 'a result \<times> 's) \<Rightarrow> 's \<Rightarrow> nat \<Rightarrow> 's" where
  "op_state op s n = ((snd \<circ> op) ^^ n) s"

definition op_answer :: "('s \<Rightarrow> 'a result \<times> 's) \<Rightarrow> 's \<Rightarrow> nat \<Rightarrow> 'a result" where
  "op_answer op s n = fst (op (op_state op s n))"

text \<open>An answer that makes the engine go on to another attempt.\<close>

definition again :: "'a result \<Rightarrow> bool" where
  "again r = (case r of Inr _ \<Rightarrow> False | Inl e \<Rightarrow> IsRetryable (Some e))"

lemma op_state_0 [simp]: "op_state op s 0 = s"
  by (simp add: op_state_def)

lemma op_state_Suc: "op_state op s (Suc n) = op_state op (snd (op s)) n"
  by (simp add: op_state_def funpow_swap1)

lemma op_answer_Suc: "op_answer op s (Suc n) = op_answer op (snd (op s)) n"
  by (simp add: op_answer_def op_state_Suc)

lemma op_answer_0: "op_answer op s 0 = fst (op s)"
  by (simp add: op_answer_def)

text \<open>
  Every run makes some number \<open>n\<close> of calls, at most the attempts that are left; all but
  the last of them answered with a retryable error, and the result is the last answer, that
  answer wrapped after the last permitted attempt, or the error of the context.
\<close>

definition run_spec :: "retry_env \<Rightarrow> nat \<Rightarrow> ('s \<Rightarrow> 'a result \<times> 's) \<Rightarrow> 's
    \<Rightarrow> 'a result \<times> 's \<times> string list \<times> duration list \<Rightarrow> nat \<Rightarrow> bool" where
  "run_spec R left op s out n \<longleftrightarrow>
     (case out of (r, s', outs, ds) \<Rightarrow>
        n \<le> left \<and> s' = op_state op s n \<and> (\<forall>i. Suc i < n \<longrightarrow> again (op_answer op s i)) \<and>
        length ds < left \<and> length outs = (case r of Inr _ \<Rightarrow> n - 1 | Inl _ \<Rightarrow> n) \<and>
        (case r of
           Inr x \<Rightarrow> 0 < n \<and> op_answer op s (n - 1) = Inr x
         | Inl e \<Rightarrow>
             (0 < n \<and> op_answer op s (n - 1) = Inl e \<and> \<not> IsRetryable (Some e)) \<or>
             (n = left \<and> 0 < n \<and> again (op_answer op s (n - 1)) \<and>
                (\<exists>err. op_answer op s (n - 1) = Inl err \<and> e = wrap_pre ''max retries exceeded'' err)) \<or>
             (\<exists>k. re_ctx_err R k = Some e \<or> re_ctx_done R k = Some e)))"

lemma run_spec_step:
  assumes "run_spec R left op (snd (op s)) (r, s'', outs, ds) n" and "again (fst (op s))"
  shows "run_spec R (Suc left) op s (r, s'', o1 # outs, d1 # ds) (Suc n)"
proof -
  have "again (op_answer op s i)" if "i < n" for i
    using assms that by (cases i) (auto simp: run_spec_def op_answer_0 op_answer_Suc)
  moreover have "op_answer op s n = op_answer op (snd (op s)) (n - 1)" if "0 < n"
    using that by (metis Suc_diff_1 op_answer_Suc)
  ultimately show ?thesis
    using assms by (auto simp: run_spec_def op_state_Suc split: sum.splits)
qed

lemma run_spec_one:
  assumes "attempt < MaxAttempts cfg" and "op s = (a, s')" and "length outs = (case r of Inr _ \<Rightarrow> 0 | Inl _ \<Rightarrow> 1)"
    and "case r of Inr x \<Rightarrow> a = Inr x | Inl e \<Rightarrow> (a = Inl e \<and> \<not> IsRetryable (Some e))
      \<or> (attempt = MaxAttempts cfg - 1 \<and> again a \<and> (\<exists>err. a = Inl err \<and> e = wrap_pre ''max retries exceeded'' err))
      \<or> (\<exists>k. re_ctx_err R k = Some e \<or> re_ctx_done R k = Some e)"
  shows "run_spec R (nat (MaxAttempts cfg - attempt)) op s (r, s', outs, []) 1"
proof -
  have "op_answer op s 0 = a" "op_state op s 1 = s'" using assms(2) by (simp_all add: op_answer_0 op_state_Suc)
  with assms show ?thesis by (auto simp: run_spec_def split: sum.splits)
qed

text \<open>The loop goes round again after a retryable error, with attempts left and the context alive.\<close>

definition goes_on :: "retry_env \<Rightarrow> retry_config \<Rightarrow> int \<Rightarrow> 'a result \<Rightarrow> bool" where
  "goes_on R cfg attempt a \<longleftrightarrow> again a \<and> attempt \<noteq> MaxAttempts cfg - 1 \<and> re_ctx_done R attempt = None"

lemma retry_loop_stops:
  assumes "attempt < MaxAttempts cfg" and "re_ctx_err R attempt = None" and "op s = (a, s')" and "\<not> goes_on R cfg attempt a"
  shows "run_spec R (nat (MaxAttempts cfg - attempt)) op s (retry_loop F R cfg op attempt lastErr s) 1"
proof -
  note go = assms(1-3) retry_loop.simps [of F R cfg op attempt lastErr s]
  note one = run_spec_one [where op = op and s = s and R = R, OF assms(1,3)]
  consider (ok) x where "a = Inr x" | (fatal) e where "a = Inl e" "\<not> IsRetryable (Some e)"
    | (last) e where "a = Inl e" "IsRetryable (Some e)" "attempt = MaxAttempts cfg - 1"
    | (cancelled) e c where "a = Inl e" "IsRetryable (Some e)" "attempt \<noteq> MaxAttempts cfg - 1" "re_ctx_done R attempt = Some c"
    using assms(4) by (cases a; cases "re_ctx_done R attempt") (auto simp: goes_on_def again_def)
  then show ?thesis
  proof cases
    case (ok x)
    with go have "retry_loop F R cfg op attempt lastErr s = (Inr x, s', [], [])" by simp
    then show ?thesis using one [of "[]" "Inr x"] ok by simp
  next
    case (fatal e)
    with go have "retry_loop F R cfg op attempt lastErr s = (Inl e, s', [''nonretryable_error''], [])" by simp
    then show ?thesis using one [of "[''nonretryable_error'']" "Inl e"] fatal by simp
  next
    case (last e)
    with go have "retry_loop F R cfg op attempt lastErr s = (Inl (wrap_pre ''max retries exceeded'' e), s', [''retryable_error''], [])"
      by simp
    then show ?thesis using one [of "[''retryable_error'']" "Inl (wrap_pre ''max retries exceeded'' e)"] last by (simp add: again_def)
  next
    case (cancelled e c)
    with go have "retry_loop F R cfg op attempt lastErr s = (Inl c, s', [''retryable_error''], [])" by simp
    then show ?thesis using one [of "[''retryable_error'']" "Inl c"] cancelled by auto
  qed
qed

lemma retry_loop_spec:
  assumes "attempt < MaxAttempts cfg"
  shows "\<exists>n. run_spec R (nat (MaxAttempts cfg - attempt)) op s (retry_loop F R cfg op attempt lastErr s) n"
  using assms
proof (induction F R cfg op attempt lastErr s rule: retry_loop.induct)
  case (1 F R cfg op attempt lastErr s)
  obtain a s' where op: "op s = (a, s')" by fastforce
  show ?case
  proof (cases "re_ctx_err R attempt = None \<and> goes_on R cfg attempt a")
    case False
    then show ?thesis
    proof (cases "re_ctx_err R attempt")
      case None
      with False show ?thesis using retry_loop_stops [where op = op and s = s, OF "1.prems" None op] by blast
    next
      case (Some e)
      then have "run_spec R (nat (MaxAttempts cfg - attempt)) op s (retry_loop F R cfg op attempt lastErr s) 0"
        using "1.prems" by (auto simp: retry_loop.simps [of F R cfg op attempt] run_spec_def)
      then show ?thesis ..
    qed
  next
    case True
    then obtain e where e: "a = Inl e" "IsRetryable (Some e)" "attempt \<noteq> MaxAttempts cfg - 1" "re_ctx_done R attempt = None"
        "re_ctx_err R attempt = None"
      by (cases a) (auto simp: goes_on_def again_def)
    let ?rec = "retry_loop F R cfg op (attempt + 1) e s'"
    obtain r s'' outs ds where rec: "?rec = (r, s'', outs, ds)" by (metis prod.exhaust)
    have less: "attempt + 1 < MaxAttempts cfg" using e(3) "1.prems" by simp
    then obtain n where n: "run_spec R (nat (MaxAttempts cfg - (attempt + 1))) op s' ?rec n"
      using "1.IH" e op "1.prems" by metis
    have left: "nat (MaxAttempts cfg - attempt) = Suc (nat (MaxAttempts cfg - (attempt + 1)))" using less by simp
    have "retry_loop F R cfg op attempt lastErr s = (r, s'', ''retryable_error'' # outs,
        calculateDelayWithJitter F cfg attempt (re_rand R attempt) # ds)"
      using retry_loop.simps [of F R cfg op attempt lastErr s] "1.prems" e op rec by (simp add: Let_def)
    then have "run_spec R (nat (MaxAttempts cfg - attempt)) op s (retry_loop F R cfg op attempt lastErr s) (Suc n)"
      unfolding left using n rec op e by (auto simp: again_def intro: run_spec_step)
    then show ?thesis ..
  qed
qed

lemma DoWithObserver_spec:
  "\<exists>n. run_spec R (nat (MaxAttempts (withDefaults cfg))) op s (DoWithObserver F R cfg op s) n"
  unfolding DoWithObserver_def
  by (rule retry_loop_spec [where attempt = 0, simplified]) (rule withDefaults_positive)

text \<open>
  A run of the retry engine makes at most \<open>MaxAttempts\<close> calls and sleeps fewer times than
  that; every call but the last answered with a retryable error. A success is the answer of the last
  call; an error is the last call's non-retryable error, the last permitted call's error
  wrapped, or the error of the context. The observer hears of every failed call.
\<close>

theorem retry_outcome:
  "\<exists>n. case DoWithObserver F R cfg op s of (r, s', outs, ds) \<Rightarrow>
     int n \<le> MaxAttempts (withDefaults cfg) \<and> int (length ds) < MaxAttempts (withDefaults cfg) \<and>
     s' = op_state op s n \<and> (\<forall>i. Suc i < n \<longrightarrow> again (op_answer op s i)) \<and>
     length outs = (case r of Inr _ \<Rightarrow> n - 1 | Inl _ \<Rightarrow> n) \<and>
     (case r of
        Inr x \<Rightarrow> 0 < n \<and> op_answer op s (n - 1) = Inr x
      | Inl e \<Rightarrow>
          (0 < n \<and> op_answer op s (n - 1) = Inl e \<and> \<not> IsRetryable (Some e)) \<or>
          (int n = MaxAttempts (withDefaults cfg) \<and> again (op_answer op s (n - 1)) \<and>
             (\<exists>err. op_answer op s (n - 1) = Inl err \<and> e = wrap_pre ''max retries exceeded'' err)) \<or>
          (\<exists>k. re_ctx_err R k = Some e \<or> re_ctx_done R k = Some e))"
proof -
  obtain n where n: "run_spec R (nat (MaxAttempts (withDefaults cfg))) op s (DoWithObserver F R cfg op s) n"
    using DoWithObserver_spec [where F = F and R = R and cfg = cfg and op = op and s = s] by (elim exE)
  obtain r s' outs ds where out: "DoWithObserver F R cfg op s = (r, s', outs, ds)"
    by (cases "DoWithObserver F R cfg op s") auto
  have pos: "0 < MaxAttempts (withDefaults cfg)" by (rule withDefaults_positive)
  show ?thesis
    unfolding out using n [unfolded out] pos
    by (intro exI [of _ n]) (auto simp: run_spec_def split: sum.splits)
qed

definition flaky :: "nat \<Rightarrow> nat result \<times> nat" where
  "flaky n = (if n < 2 then Inl (NetError ''reset'') else Inr n, Suc n)"

definition calm :: retry_env where
  "calm = \<lparr>re_ctx_err = \<lambda>_. None, re_ctx_done = \<lambda>_. None, re_rand = \<lambda>_. Fin 0\<rparr>"

theorem retry_outcome_witness:
  "fst (DoWithObserver exact_ops calm DefaultConfig flaky 0) = Inr 2 \<and>
   (\<exists>n. case DoWithObserver exact_ops calm DefaultConfig flaky 0 of (r, s', outs, ds) \<Rightarrow>
      int n \<le> 3 \<and> s' = op_state flaky 0 n)"
proof -
  have "fst (DoWithObserver exact_ops calm DefaultConfig flaky 0) = Inr 2"
    by (simp add: DoWithObserver_def retry_loop.simps calm_def DefaultConfig_def flaky_def
        IsRetryable_def isNetworkError_def withDefaults_fields)
  moreover have "MaxAttempts (withDefaults DefaultConfig) = 3" by (simp add: DefaultConfig_def withDefaults_fields)
  ultimately show ?thesis
    using retry_outcome [where F = exact_ops and R = calm and cfg = DefaultConfig and op = flaky and s = 0]
    by (auto split: prod.splits)
qed

section \<open>Reference and delays\<close>

text \<open>
  The reference: look for the first answer, among the permitted attempts, that is not a
  retryable error.
\<close>

definition retry_ref :: "nat \<Rightarrow> ('s \<Rightarrow> 'a result \<times> 's) \<Rightarrow> 's \<Rightarrow> 'a result" where
  "retry_ref m op s =
     (case find (\<lambda>i. \<not> again (op_answer op s i)) [0..<m] of
        Some i \<Rightarrow> op_answer op s i
      | None \<Rightarrow> (case op_answer op s (m - 1) of
                   Inl e \<Rightarrow> Inl (wrap_pre ''max retries exceeded'' e) | Inr x \<Rightarrow> Inr x))"

lemma find_first_upt:
  assumes "i < m" "P i" "\<And>j. j < i \<Longrightarrow> \<not> P j"
  shows "find P [0..<m] = Some i"
  using assms by (auto simp: find_Some_iff intro!: exI [of _ i])

text \<open>
  C24: when the context stays alive, the engine returns what the reference returns: the first
  answer among the permitted attempts that is a success or a non-retryable error, and
  otherwise the last error wrapped.
\<close>

theorem retry_equals_reference:
  assumes "\<forall>k. re_ctx_err R k = None" and "\<forall>k. re_ctx_done R k = None"
  shows "fst (DoWithObserver F R cfg op s) = retry_ref (nat (MaxAttempts (withDefaults cfg))) op s"
proof -
  let ?m = "nat (MaxAttempts (withDefaults cfg))"
  obtain n where n: "run_spec R ?m op s (DoWithObserver F R cfg op s) n"
    using DoWithObserver_spec [where F = F and R = R and cfg = cfg and op = op and s = s] by (elim exE)
  obtain r s' outs ds where out: "DoWithObserver F R cfg op s = (r, s', outs, ds)"
    by (cases "DoWithObserver F R cfg op s") auto
  have before: "again (op_answer op s j)" if "j < n - 1" for j
    using n that by (auto simp: run_spec_def out)
  consider (stop) "0 < n" "n \<le> ?m" "op_answer op s (n - 1) = r" "\<not> again r"
    | (spent) e where "n = ?m" "0 < n" "again (op_answer op s (n - 1))" "op_answer op s (n - 1) = Inl e"
        "r = Inl (wrap_pre ''max retries exceeded'' e)"
    using n assms by (auto simp: run_spec_def out again_def split: sum.splits)
  then show ?thesis
  proof cases
    case stop
    then have "find (\<lambda>i. \<not> again (op_answer op s i)) [0..<?m] = Some (n - 1)"
      using before by (intro find_first_upt) auto
    with stop out show ?thesis by (simp add: retry_ref_def)
  next
    case spent
    then have "again (op_answer op s j)" if "j < ?m" for j
      using before that by (cases "j = n - 1") auto
    then have "find (\<lambda>i. \<not> again (op_answer op s i)) [0..<?m] = None"
      by (auto simp: find_None_iff)
    with spent out show ?thesis by (simp add: retry_ref_def)
  qed
qed

theorem retry_equals_reference_witness:
  "fst (DoWithObserver exact_ops calm DefaultConfig flaky 1) = retry_ref 3 flaky 1"
  using retry_equals_reference [where F = exact_ops and R = calm and cfg = DefaultConfig and op = flaky and s = 1]
  by (simp add: calm_def DefaultConfig_def withDefaults_fields)

lemma retry_loop_delays:
  "d \<in> set (snd (snd (snd (retry_loop F R cfg op attempt lastErr s)))) \<Longrightarrow>
     \<exists>k. attempt \<le> k \<and> k < MaxAttempts cfg \<and> d = calculateDelayWithJitter F cfg k (re_rand R k)"
proof (induction F R cfg op attempt lastErr s rule: retry_loop.induct)
  case (1 F R cfg op attempt lastErr s)
  obtain a s1 where op: "op s = (a, s1)" by fastforce
  show ?case
  proof (cases "\<exists>e. attempt < MaxAttempts cfg \<and> re_ctx_err R attempt = None \<and> a = Inl e
      \<and> IsRetryable (Some e) \<and> attempt \<noteq> MaxAttempts cfg - 1 \<and> re_ctx_done R attempt = None")
    case True
    then obtain e where e: "attempt < MaxAttempts cfg" "re_ctx_err R attempt = None" "a = Inl e"
      "IsRetryable (Some e)" "attempt \<noteq> MaxAttempts cfg - 1" "re_ctx_done R attempt = None"
      by blast
    let ?ds = "snd (snd (snd (retry_loop F R cfg op (attempt + 1) e s1)))"
    have rec: "\<exists>k. attempt + 1 \<le> k \<and> k < MaxAttempts cfg \<and> d = calculateDelayWithJitter F cfg k (re_rand R k)"
      if "d \<in> set ?ds"
      using "1.IH" e op that by metis
    have "d = calculateDelayWithJitter F cfg attempt (re_rand R attempt) \<or> d \<in> set ?ds"
      using "1.prems" e op
      by (auto simp: retry_loop.simps [of F R cfg op attempt lastErr s] Let_def split: prod.splits)
    then show ?thesis
    proof
      assume "d \<in> set ?ds"
      from rec [OF this] obtain k where "attempt + 1 \<le> k" "k < MaxAttempts cfg"
        "d = calculateDelayWithJitter F cfg k (re_rand R k)" by blast
      then show ?thesis by (intro exI [of _ k]) simp
    qed (use e(1) in auto)
  next
    case False
    then show ?thesis
      using op "1.prems"
      by (auto simp: retry_loop.simps [of F R cfg op attempt lastErr s] Let_def split: option.splits sum.splits if_splits)
  qed
qed

lemma sum_list_bound: "(\<And>x. x \<in> set xs \<Longrightarrow> x \<le> (c :: int)) \<Longrightarrow> sum_list xs \<le> int (length xs) * c"
  by (induction xs) (auto simp: algebra_simps intro: add_mono)



end
