(* ===== verification/Webhook_Worker.thy ===== *)
theory Webhook_Worker
  imports Ledger Retry
begin

text \<open>
  The webhook worker (\<open>internal/worker/webhook_worker.go\<close>): it polls the outbox, claims due
  events, posts each of them to the merchant and marks it delivered, for retry or dead.

  A round handles the claimed events in goroutines. Each of them runs one statement on the
  database, so that the order in which these statements reach it is an order of the events;
  the oracle \<open>wk_sched\<close> chooses it. The other oracles are the HTTP client, the context, the
  random source and HMAC-SHA256. Spans are left out.
\<close>

section \<open>Configuration\<close>

record worker_config =
  wc_PollInterval :: duration
  wc_BatchSize :: int
  wc_MaxAttempts :: int
  wc_WorkerPool :: int
  wc_HTTPTimeout :: duration
  wc_StaleReclaimMul :: int
  wc_BaseDelay :: duration
  wc_MaxBackoff :: duration
  wc_BackoffMultiplier :: gofloat

definition worker_DefaultConfig :: worker_config where
  "worker_DefaultConfig = \<lparr>wc_PollInterval = 5 * Second, wc_BatchSize = 20, wc_MaxAttempts = 10, wc_WorkerPool = 8,
     wc_HTTPTimeout = 10 * Second, wc_StaleReclaimMul = 2, wc_BaseDelay = 100 * Millisecond, wc_MaxBackoff = 10 * Minute,
     wc_BackoffMultiplier = Fin 2\<rparr>"

definition worker_withDefaults :: "worker_config \<Rightarrow> worker_config" where
  "worker_withDefaults c =
     \<lparr>wc_PollInterval = (if wc_PollInterval c \<le> 0 then 5 * Second else wc_PollInterval c),
      wc_BatchSize = (if wc_BatchSize c \<le> 0 then 20 else wc_BatchSize c),
      wc_MaxAttempts = (if wc_MaxAttempts c \<le> 0 then 10 else wc_MaxAttempts c),
      wc_WorkerPool = (if wc_WorkerPool c \<le> 0 then 8 else wc_WorkerPool c),
      wc_HTTPTimeout = (if wc_HTTPTimeout c \<le> 0 then 10 * Second else wc_HTTPTimeout c),
      wc_StaleReclaimMul = (if wc_StaleReclaimMul c \<le> 0 then 2 else wc_StaleReclaimMul c),
      wc_BaseDelay = (if wc_BaseDelay c \<le> 0 then 100 * Millisecond else wc_BaseDelay c),
      wc_MaxBackoff = (if wc_MaxBackoff c \<le> 0 then 10 * Minute else wc_MaxBackoff c),
      wc_BackoffMultiplier = (if fle (wc_BackoffMultiplier c) (Fin 0) then Fin 2 else wc_BackoffMultiplier c)\<rparr>"

record worker =
  wk_registry :: "registry option"
  wk_clientTimeout :: duration
  wk_pollEvery :: duration
  wk_batchSize :: int
  wk_maxAttempts :: int
  wk_poolSize :: int
  wk_cfg :: worker_config

definition worker_New :: "registry option \<Rightarrow> worker_config \<Rightarrow> worker" where
  "worker_New registry cfg0 =
     (let cfg = worker_withDefaults cfg0 in
      \<lparr>wk_registry = registry, wk_clientTimeout = wc_HTTPTimeout cfg, wk_pollEvery = wc_PollInterval cfg,
       wk_batchSize = wc_BatchSize cfg, wk_maxAttempts = wc_MaxAttempts cfg, wk_poolSize = wc_WorkerPool cfg, wk_cfg = cfg\<rparr>)"

text \<open>
  \<open>wk_build\<close>: the error of \<open>http.NewRequestWithContext\<close> for a URL; \<open>wk_do\<close>: the error of the client
  or the status code of the answer; \<open>wk_text\<close>: the text of a \<open>JSONB\<close> payload; \<open>wk_done\<close>: the
  context wins the \<open>select\<close> against the ticker.
\<close>

record worker_env =
  wk_build :: "string \<Rightarrow> go_error option"
  wk_do :: "nat \<Rightarrow> string \<Rightarrow> (string \<times> string) list \<Rightarrow> string \<Rightarrow> int result"
  wk_ctx :: "nat \<Rightarrow> go_error option"
  wk_done :: "nat \<Rightarrow> bool"
  wk_rand :: "nat \<Rightarrow> gofloat"
  wk_hmac :: "string \<Rightarrow> string \<Rightarrow> string"
  wk_text :: "json \<Rightarrow> string"
  wk_sched :: "nat \<Rightarrow> outbox_event list \<Rightarrow> outbox_event list"

section \<open>Delivering one event\<close>

definition nextBackoffDelay :: "float_ops \<Rightarrow> worker \<Rightarrow> int \<Rightarrow> gofloat \<Rightarrow> duration" where
  "nextBackoffDelay F wk attempt rnd =
     (let exp = f_mul F (f_of_int F (wc_BaseDelay (wk_cfg wk))) (f_pow F (wc_BackoffMultiplier (wk_cfg wk)) (f_of_int F attempt));
          capped = fmin exp (f_of_int F (wc_MaxBackoff (wk_cfg wk)))
      in if fle capped (Fin 0) then 0 else f_to_int F (f_mul F rnd capped))"

definition signPayload :: "worker_env \<Rightarrow> worker \<Rightarrow> uuid \<Rightarrow> string \<Rightarrow> string" where
  "signPayload W wk merchantID payload =
     (case wk_registry wk of
        None \<Rightarrow> []
      | Some reg \<Rightarrow>
          (case reg_Secret reg merchantID of (secret, ok) \<Rightarrow>
             if \<not> ok \<or> TrimSpace secret = [] then [] else ''sha256='' @ wk_hmac W secret payload))"

definition webhook_headers :: "env \<Rightarrow> worker_env \<Rightarrow> worker \<Rightarrow> outbox_event \<Rightarrow> (string \<times> string) list" where
  "webhook_headers E W wk evt =
     (let sig = signPayload W wk (oe_MerchantID evt) (wk_text W (oe_Payload evt)) in
      [(''Content-Type'', ''application/json''), (''X-PayFlow-Event-Id'', uuid_str E (oe_ID evt)),
       (''X-PayFlow-Event-Type'', oe_EventType evt), (''Idempotency-Key'', uuid_str E (oe_ID evt))]
      @ (if sig \<noteq> [] then [(''X-PayFlow-Signature'', sig)] else []))"

definition deliver :: "env \<Rightarrow> worker_env \<Rightarrow> worker \<Rightarrow> outbox_event \<Rightarrow> world \<Rightarrow> (int \<times> go_error option) \<times> world" where
  "deliver E W wk evt w =
     (let url = TrimSpace (oe_WebhookURL evt) in
      case wk_build W url of
        Some err \<Rightarrow> ((0, Some (wrap_pre ''build request'' err)), w)
      | None \<Rightarrow>
          (let hs = webhook_headers E W wk evt; body = wk_text W (oe_Payload evt);
               w1 = tickw (observe (HttpPost url hs body) w)
           in case wk_do W (tick w) url hs body of
                Inl err \<Rightarrow> ((0, Some err), w1)
              | Inr code \<Rightarrow>
                  if 200 \<le> code \<and> code < 300 then ((code, None), w1)
                  else ((code, Some (OtherError (''http status '' @ Itoa code))), w1)))"

definition worker_log :: "env \<Rightarrow> outbox_event \<Rightarrow> string \<Rightarrow> (string \<times> string) list \<Rightarrow> string \<Rightarrow> world \<Rightarrow> world" where
  "worker_log E evt level extra msg =
     observe (LogLine level ([(''event_id'', uuid_str E (oe_ID evt)), (''payment_id'', uuid_str E (oe_PaymentID evt)),
       (''merchant_id'', uuid_str E (oe_MerchantID evt)), (''event_type'', oe_EventType evt),
       (''attempt'', Itoa (oe_AttemptCount evt + 1))] @ extra) msg)"

definition count_attempt :: "string \<Rightarrow> world \<Rightarrow> world" where
  "count_attempt outcome = observe (Inc ''payflow_webhook_delivery_attempts_total'' [outcome])"

definition observe_latency :: "world \<Rightarrow> world" where
  "observe_latency = observe (Observe ''payflow_webhook_delivery_latency_seconds'' [])"

definition err_field :: "go_error \<Rightarrow> (string \<times> string) list" where
  "err_field e = [(''error'', Error_text e)]"

definition handleOne :: "env \<Rightarrow> float_ops \<Rightarrow> worker_env \<Rightarrow> worker \<Rightarrow> outbox_event \<Rightarrow> world \<Rightarrow> world" where
  "handleOne E F W wk evt w =
     (case Now E w of (start, w0) \<Rightarrow>
      if TrimSpace (oe_WebhookURL evt) = [] then
        (case MarkDead E (oe_ID evt) ''no_webhook_url_for_merchant'' w0 of (res, w1) \<Rightarrow>
          (let w2 = (case res of Inl err \<Rightarrow> worker_log E evt ''error'' (err_field err) ''mark dead (no webhook url)'' w1 | Inr _ \<Rightarrow> w1)
           in observe_latency (snd (Now E (count_attempt ''dead'' w2)))))
      else
        (case deliver E W wk evt w0 of ((httpStatus, err), w1) \<Rightarrow>
        (case Now E w1 of (end_time, w2) \<Rightarrow>
         let latency = (''latency_ms'', Itoa ((end_time - start) div Millisecond)); status = (''http_status'', Itoa httpStatus) in
         if wk_ctx W (tick w2) \<noteq> None then w2
         else (case err of
           None \<Rightarrow>
             (case MarkDelivered E (oe_ID evt) w2 of
                (Inl derr, w3) \<Rightarrow>
                  observe_latency (count_attempt ''error'' (worker_log E evt ''error'' (err_field derr @ [status, latency]) ''mark delivered'' w3))
              | (Inr _, w3) \<Rightarrow>
                  observe_latency (count_attempt ''success'' (worker_log E evt ''info'' [status, latency] ''webhook delivered'' w3)))
         | Some e \<Rightarrow>
             (let lastErr = Error_text e;
                  w3 = worker_log E evt ''warn'' (err_field e @ [latency] @ (if 0 < httpStatus then [status] else []))
                         ''webhook delivery failed'' w2
              in if wk_maxAttempts wk \<le> oe_AttemptCount evt + 1 then
                   (case MarkDead E (oe_ID evt) lastErr w3 of
                      (Inl derr, w4) \<Rightarrow>
                        observe_latency (count_attempt ''error'' (worker_log E evt ''error'' (err_field derr) ''mark dead'' w4))
                    | (Inr _, w4) \<Rightarrow> observe_latency (count_attempt ''dead'' w4))
                 else
                   (case Now E w3 of (now, w4) \<Rightarrow>
                     (let nextAt = now + nextBackoffDelay F wk (oe_AttemptCount evt) (wk_rand W (tick w4)) in
                      case MarkRetry E (oe_ID evt) nextAt lastErr w4 of
                        (Inl derr, w5) \<Rightarrow>
                          observe_latency (count_attempt ''error''
                            (worker_log E evt ''error'' (err_field derr @ [(''next_retry_at'', rfc3339 E nextAt)]) ''mark retry'' w5))
                      | (Inr _, w5) \<Rightarrow> observe_latency (count_attempt ''retry'' w5))))))))"

section \<open>Rounds\<close>

definition plain_log :: "string \<Rightarrow> go_error \<Rightarrow> world \<Rightarrow> world" where
  "plain_log msg err = observe (LogLine ''error'' (err_field err) msg)"

definition runOnce :: "env \<Rightarrow> float_ops \<Rightarrow> worker_env \<Rightarrow> worker \<Rightarrow> duration \<Rightarrow> world \<Rightarrow> world" where
  "runOnce E F W wk staleAfter w =
     (let w1 = (case CountPending E w of
                  (Inl err, v) \<Rightarrow> plain_log ''outbox pending count'' err v
                | (Inr pending, v) \<Rightarrow> observe (SetGauge ''payflow_outbox_pending'' [] pending) v);
          w2 = (case ReclaimStaleProcessing E staleAfter w1 of
                  (Inl err, v) \<Rightarrow> plain_log ''outbox reclaim stale processing'' err v
                | (Inr _, v) \<Rightarrow> v)
      in case ClaimBatch E (wk_batchSize wk) w2 of
           (Inl err, w3) \<Rightarrow> plain_log ''outbox claim batch'' err w3
         | (Inr events, w3) \<Rightarrow> fold (handleOne E F W wk) (wk_sched W (tick w3) events) w3)"

definition stale_after :: "worker \<Rightarrow> duration" where
  "stale_after wk = wrap64 (wc_StaleReclaimMul (wk_cfg wk) * wk_pollEvery wk)"

text \<open>The loop may run forever: \<open>None\<close> is a run that does not return.\<close>

partial_function (option) Run :: "env \<Rightarrow> float_ops \<Rightarrow> worker_env \<Rightarrow> worker \<Rightarrow> world \<Rightarrow> world option" where
  "Run E F W wk w =
     (if wk_ctx W (tick w) \<noteq> None then Some w
      else (let w1 = runOnce E F W wk (stale_after wk) w in
            if wk_done W (tick w1) then Some w1 else Run E F W wk (tickw w1)))"

section \<open>What one delivery does\<close>

text \<open>
  The statement that \<open>handleOne\<close> runs, if any: none when the context was cancelled during
  the delivery.
\<close>

definition delivery_op :: "env \<Rightarrow> float_ops \<Rightarrow> worker_env \<Rightarrow> worker \<Rightarrow> outbox_event \<Rightarrow> world \<Rightarrow> outbox_op option" where
  "delivery_op E F W wk evt w =
     (if TrimSpace (oe_WebhookURL evt) = [] then Some (OpDead (oe_ID evt) ''no_webhook_url_for_merchant'')
      else (case deliver E W wk evt (tickw w) of ((_, err), w1) \<Rightarrow>
        if wk_ctx W (Suc (tick w1)) \<noteq> None then None
        else Some (case err of
            None \<Rightarrow> OpDelivered (oe_ID evt)
          | Some e \<Rightarrow>
              if wk_maxAttempts wk \<le> oe_AttemptCount evt + 1 then OpDead (oe_ID evt) (Error_text e)
              else OpRetry (oe_ID evt) (time_at E (Suc (tick w1)) +
                nextBackoffDelay F wk (oe_AttemptCount evt) (wk_rand W (Suc (Suc (tick w1))))) (Error_text e))))"

lemma log_tables [simp]:
  "tables (worker_log E evt l x m w) = tables w" "tables (count_attempt s w) = tables w"
  "tables (observe_latency w) = tables w" "tables (plain_log m e w) = tables w"
  "tick (worker_log E evt l x m w) = tick w" "tick (count_attempt s w) = tick w"
  "tick (observe_latency w) = tick w" "tick (plain_log m e w) = tick w"
  by (simp_all add: worker_log_def count_attempt_def observe_latency_def plain_log_def)

lemma deliver_world:
  "tables (snd (deliver E W wk evt w)) = tables w" "tick w \<le> tick (snd (deliver E W wk evt w))"
  by (auto simp: deliver_def Let_def split: option.splits sum.splits)

lemma mark_tick: "tick (snd (db_call E (\<lambda>w. mark_stmt i (f w) w) w)) = Suc (tick w)"
  by (cases rule: db_call_cases [of E "\<lambda>w. mark_stmt i (f w) w" w]) (simp_all add: mark_stmt_def Let_def)

lemma mark_ticks:
  "MarkDead E i m w = (res, w') \<Longrightarrow> tick w' = Suc (tick w)" "MarkDelivered E i w = (res, w') \<Longrightarrow> tick w' = Suc (tick w)"
  "MarkRetry E i t m w = (res, w') \<Longrightarrow> tick w' = Suc (tick w)"
  unfolding MarkDead_def MarkDelivered_def MarkRetry_def by (drule arg_cong [where f = "tick \<circ> snd"], simp add: mark_tick)+

lemma handleOne_runs:
  "\<exists>v. tables v = tables w \<and> tick w < tick v \<and> tick w < tick (handleOne E F W wk evt w) \<and>
     tables (handleOne E F W wk evt w) =
       (case delivery_op E F W wk evt w of None \<Rightarrow> tables w | Some op \<Rightarrow> tables (run_op E op v))"
proof (cases "TrimSpace (oe_WebhookURL evt) = []")
  case True
  obtain res w1 where m: "MarkDead E (oe_ID evt) ''no_webhook_url_for_merchant'' (tickw w) = (res, w1)" by fastforce
  have "tick w1 = Suc (Suc (tick w))" using mark_ticks(1) [OF m] by simp
  with True m show ?thesis
    by (intro exI [of _ "tickw w"]) (simp add: handleOne_def delivery_op_def Now_def Let_def split: sum.split)
next
  case False
  obtain st err w1 where d: "deliver E W wk evt (tickw w) = ((st, err), w1)" by (metis prod.collapse)
  have t1: "tables w1 = tables w" "Suc (tick w) \<le> tick w1" using deliver_world [where E = E and W = W and wk = wk and evt = evt and w = "tickw w"] d by simp_all
  note go = handleOne_def delivery_op_def Now_def Let_def False d
  show ?thesis
  proof (cases "wk_ctx W (Suc (tick w1))")
    case (Some c)
    with t1 show ?thesis by (intro exI [of _ "tickw w"]) (simp add: go)
  next
    case alive: None
    show ?thesis
    proof (cases err)
      case None
      obtain res w3 where m: "MarkDelivered E (oe_ID evt) (tickw w1) = (res, w3)" by fastforce
      have "tick w3 = Suc (Suc (tick w1))" using mark_ticks(2) [OF m] by simp
      with t1 alive None m show ?thesis
        by (intro exI [of _ "tickw w1"]) (simp add: go split: sum.split)
    next
      case (Some e)
      let ?w3 = "worker_log E evt ''warn'' (err_field e @ [(''latency_ms'', Itoa ((time_at E (tick w1) - time_at E (tick w)) div Millisecond))]
        @ (if 0 < st then [(''http_status'', Itoa st)] else [])) ''webhook delivery failed'' (tickw w1)"
      show ?thesis
      proof (cases "wk_maxAttempts wk \<le> oe_AttemptCount evt + 1")
        case True
        obtain res w4 where m: "MarkDead E (oe_ID evt) (Error_text e) ?w3 = (res, w4)" by fastforce
        have "tick w4 = Suc (Suc (tick w1))" using mark_ticks(1) [OF m] by simp
        with t1 alive Some True m show ?thesis
          by (intro exI [of _ ?w3]) (simp add: go split: sum.split)
      next
        case again: False
        let ?at = "time_at E (Suc (tick w1)) +
          nextBackoffDelay F wk (oe_AttemptCount evt) (wk_rand W (Suc (Suc (tick w1))))"
        obtain res w5 where m: "MarkRetry E (oe_ID evt) ?at (Error_text e) (tickw ?w3) = (res, w5)" by fastforce
        have "tick w5 = Suc (Suc (Suc (tick w1)))"
          using mark_ticks(3) [OF m] by simp
        with t1 alive Some again m show ?thesis
          by (intro exI [of _ "tickw ?w3"]) (simp add: go split: sum.split)
      qed
    qed
  qed
qed

lemma delivery_op_not_enqueue: "delivery_op E F W wk evt w = Some op \<Longrightarrow> op \<noteq> OpEnqueue e"
  by (auto simp: delivery_op_def split: if_splits prod.splits option.splits)

section \<open>What a worker keeps\<close>

text \<open>The world in which a round claims its batch.\<close>

definition before_claim :: "env \<Rightarrow> duration \<Rightarrow> world \<Rightarrow> world" where
  "before_claim E staleAfter w =
     (let w1 = (case CountPending E w of
                  (Inl err, v) \<Rightarrow> plain_log ''outbox pending count'' err v
                | (Inr pending, v) \<Rightarrow> observe (SetGauge ''payflow_outbox_pending'' [] pending) v)
      in case ReclaimStaleProcessing E staleAfter w1 of
           (Inl err, v) \<Rightarrow> plain_log ''outbox reclaim stale processing'' err v
         | (Inr _, v) \<Rightarrow> v)"

lemma runOnce_split:
  "runOnce E F W wk staleAfter w =
     (case ClaimBatch E (wk_batchSize wk) (before_claim E staleAfter w) of
        (Inl err, w3) \<Rightarrow> plain_log ''outbox claim batch'' err w3
      | (Inr events, w3) \<Rightarrow> fold (handleOne E F W wk) (wk_sched W (tick w3) events) w3)"
  by (simp add: runOnce_def before_claim_def Let_def)

lemma CountPending_tables: "tables (snd (CountPending E w)) = tables w"
  unfolding CountPending_def by (rule db_call_read) simp

lemma CountPending_tick: "tick (snd (CountPending E w)) = Suc (tick w)"
  by (cases rule: db_call_cases [of E "\<lambda>w. (Inr (int (sql_count (\<lambda>r. ob_status r = ''PENDING'') (outbox w))), w)" w])
    (simp_all add: CountPending_def)

lemma ReclaimStaleProcessing_tick: "tick w \<le> tick (snd (ReclaimStaleProcessing E d w))"
  by (cases rule: db_call_cases [of E "reclaim_stmt E (d div 1000)" w])
    (simp_all add: ReclaimStaleProcessing_def Let_def reclaim_stmt_def)

lemma ClaimBatch_tick: "tick (snd (ClaimBatch E n w)) = Suc (tick w)"
  by (cases rule: db_call_cases [of E "claim_stmt E (nat (if n \<le> 0 then 1 else n))" w])
    (simp_all add: ClaimBatch_def Let_def claim_stmt_def)

lemma before_claim_reclaims:
  "\<exists>v. tables v = tables w \<and> tick w < tick v \<and> tick (before_claim E d w) = tick (run_op E (OpReclaim d) v) \<and>
     tables (before_claim E d w) = tables (run_op E (OpReclaim d) v)"
proof -
  obtain r1 v1 where c: "CountPending E w = (r1, v1)" by fastforce
  let ?v = "case r1 of Inl err \<Rightarrow> plain_log ''outbox pending count'' err v1
    | Inr pending \<Rightarrow> observe (SetGauge ''payflow_outbox_pending'' [] pending) v1"
  have "tables ?v = tables w" "tick ?v = Suc (tick w)"
    using CountPending_tables [of E w] CountPending_tick [of E w] c by (simp_all split: sum.split)
  moreover have "tables (before_claim E d w) = tables (run_op E (OpReclaim d) ?v)"
    "tick (before_claim E d w) = tick (run_op E (OpReclaim d) ?v)"
    using c by (auto simp: before_claim_def split: prod.splits sum.splits)
  ultimately show ?thesis by (intro exI [of _ ?v]) simp
qed

text \<open>
  A worker works on the database through the calls of the outbox repository alone, and never
  inserts. A predicate that these calls keep and that depends on the tables only therefore
  outlives any delivery, any round and any run, whatever faults occur and in whatever order
  the events of a round are handled.
\<close>

locale outbox_kept =
  fixes E :: env and P :: "world \<Rightarrow> bool"
  assumes kept_tables: "P v \<Longrightarrow> tables v' = tables v \<Longrightarrow> P v'"
    and kept_op: "P v \<Longrightarrow> (\<forall>e. op \<noteq> OpEnqueue e) \<Longrightarrow> P (run_op E op v)"
begin

lemma op_kept: "P w \<Longrightarrow> tables v = tables w \<Longrightarrow> (\<forall>e. op \<noteq> OpEnqueue e) \<Longrightarrow> tables w' = tables (run_op E op v) \<Longrightarrow> P w'"
  using kept_tables kept_op by blast

lemma handleOne_kept:
  assumes "P w"
  shows "P (handleOne E F W wk evt w)"
proof -
  obtain v where v: "tables v = tables w" "tables (handleOne E F W wk evt w) =
      (case delivery_op E F W wk evt w of None \<Rightarrow> tables w | Some op \<Rightarrow> tables (run_op E op v))"
    using handleOne_runs by blast
  show ?thesis
  proof (cases "delivery_op E F W wk evt w")
    case None
    with v kept_tables [OF assms] show ?thesis by simp
  next
    case (Some op)
    with v delivery_op_not_enqueue show ?thesis by (intro op_kept [OF assms v(1)]) auto
  qed
qed

lemma fold_kept: "P w \<Longrightarrow> P (fold (handleOne E F W wk) es w)"
  by (induction es arbitrary: w) (simp_all add: handleOne_kept)

lemma runOnce_kept:
  assumes "P w"
  shows "P (runOnce E F W wk staleAfter w)"
proof -
  let ?v = "before_claim E staleAfter w"
  obtain v where "tables v = tables w" "tables ?v = tables (run_op E (OpReclaim staleAfter) v)"
    using before_claim_reclaims by blast
  then have "P ?v" by (intro op_kept [OF assms, where op = "OpReclaim staleAfter"]) auto
  obtain r3 w3 where c: "ClaimBatch E (wk_batchSize wk) ?v = (r3, w3)" by fastforce
  have "P w3" using kept_op [OF \<open>P ?v\<close>, of "OpClaim (wk_batchSize wk)"] c by simp
  with c show ?thesis
    by (cases r3) (auto simp: runOnce_split fold_kept intro: kept_tables)
qed

lemma Run_kept:
  assumes "Run E F W wk w = Some w'" and "P w"
  shows "P w'"
proof -
  have "E' = E \<longrightarrow> P v \<longrightarrow> P v'" if "Run E' F' W' wk' v = Some v'" for E' F' W' wk' v v'
    using _ that
  proof (rule Run.raw_induct)
    fix run E' F' W' wk' v v'
    assume ih: "\<And>E' F' W' wk' v v'. run E' F' W' wk' v = Some v' \<Longrightarrow> E' = E \<longrightarrow> P v \<longrightarrow> P v'"
      and body: "(if wk_ctx W' (tick v) \<noteq> None then Some v
         else let w1 = runOnce E' F' W' wk' (stale_after wk') v
              in if wk_done W' (tick w1) then Some w1 else run E' F' W' wk' (tickw w1)) = Some v'"
    let ?w1 = "runOnce E' F' W' wk' (stale_after wk') v"
    consider "Some v = Some v'" | "Some ?w1 = Some v'" | "run E' F' W' wk' (tickw ?w1) = Some v'"
      using body unfolding Let_def by (metis (no_types, lifting))
    then show "E' = E \<longrightarrow> P v \<longrightarrow> P v'"
    proof cases
      case 3
      from ih [OF this] show ?thesis using runOnce_kept kept_tables by (metis tables_simps(1))
    qed (use runOnce_kept in auto)
  qed
  with assms show ?thesis by blast
qed

end

interpretation ledger_run: outbox_kept E "\<lambda>v. (ledger_step E)\<^sup>*\<^sup>* w v" for E w
proof (unfold_locales)
  show "(ledger_step E)\<^sup>*\<^sup>* w v'" if "(ledger_step E)\<^sup>*\<^sup>* w v" "tables v' = tables v" for v v'
    using that by (meson ledger_step.silent rtranclp.rtrancl_into_rtrancl)
  show "(ledger_step E)\<^sup>*\<^sup>* w (run_op E op v)" if "(ledger_step E)\<^sup>*\<^sup>* w v" "\<forall>e. op \<noteq> OpEnqueue e" for v op
    using that by (meson ledger_step.deliver rtranclp.rtrancl_into_rtrancl)
qed

text \<open>The outbox of \<open>w\<close> with its events moved along their lives, and nothing else changed.\<close>

definition only_moved :: "world \<Rightarrow> world \<Rightarrow> bool" where
  "only_moved w v \<longleftrightarrow> distinct (map ob_id (outbox v)) \<and> payments v = payments w \<and> refunds v = refunds w \<and>
     map event_of (outbox v) = map event_of (outbox w) \<and> rows_evolve (outbox w) (outbox v)"

interpretation moved: outbox_kept E "only_moved w" for E w
proof (unfold_locales)
  show "only_moved w v'" if "only_moved w v" "tables v' = tables v" for v v'
    using that by (simp add: only_moved_def tables_def)
  show "only_moved w (run_op E op v)" if "only_moved w v" "\<forall>e. op \<noteq> OpEnqueue e" for v op
    using that run_op_distinct [of v E op] run_op_payments [of E op v] run_op_events [of op E v] run_op_evolve [of v E op]
    unfolding only_moved_def by (metis rows_evolve_trans)
qed

text \<open>
  Whatever the merchants answer, whatever faults hit the database and in whatever order the
  goroutines of a round reach it, a run of the worker keeps the ledger invariant: payments and
  refunds are untouched, no event is added, lost or altered, and every event only moves along
  its life. The worker's run is a run of the ledger's steps.
\<close>

theorem worker_keeps_ledger:
  assumes "ledger_inv w" and "Run E F W wk w = Some w'"
  shows "(ledger_step E)\<^sup>*\<^sup>* w w' \<and> ledger_inv w' \<and> payments w' = payments w \<and> refunds w' = refunds w \<and>
    map event_of (outbox w') = map event_of (outbox w) \<and> rows_evolve (outbox w) (outbox w')"
proof -
  have steps: "(ledger_step E)\<^sup>*\<^sup>* w w'" by (rule ledger_run.Run_kept [OF assms(2)]) simp
  have "only_moved w w" using assms(1) by (simp add: only_moved_def ledger_inv_def)
  from moved.Run_kept [OF assms(2) this] show ?thesis
    using steps ledger_steps_inv [OF steps assms(1)] by (simp add: only_moved_def)
qed

section \<open>The polling loop\<close>

lemma fold_handleOne_tick: "tick w \<le> tick (fold (handleOne E F W wk) es w)"
proof (induction es arbitrary: w)
  case (Cons evt es)
  have "tick w < tick (handleOne E F W wk evt w)" using handleOne_runs by blast
  also have "\<dots> \<le> tick (fold (handleOne E F W wk) es (handleOne E F W wk evt w))" by (rule Cons.IH)
  finally show ?case by simp
qed simp

lemma runOnce_tick: "tick w < tick (runOnce E F W wk d w)"
proof -
  let ?v = "before_claim E d w"
  obtain v where "tick w < tick v" "tick ?v = tick (run_op E (OpReclaim d) v)" using before_claim_reclaims by blast
  then have v: "tick w < tick ?v" using ReclaimStaleProcessing_tick [of v E d] by simp
  obtain r3 w3 where c: "ClaimBatch E (wk_batchSize wk) ?v = (r3, w3)" by fastforce
  have "tick w3 = Suc (tick ?v)" using ClaimBatch_tick [of E "wk_batchSize wk" ?v] c by simp
  then have "tick w < tick (fold (handleOne E F W wk) es w3)" for es
    using v by (intro less_le_trans [OF _ fold_handleOne_tick]) simp
  with v c \<open>tick w3 = _\<close> show ?thesis by (cases r3) (simp_all add: runOnce_split)
qed

lemma Run_returns:
  assumes "\<forall>t \<ge> N. wk_ctx W t \<noteq> None"
  shows "\<exists>w'. Run E F W wk w = Some w'"
proof (induction "N - tick w" arbitrary: w rule: less_induct)
  case less
  let ?w1 = "runOnce E F W wk (stale_after wk) w"
  show ?case
  proof (cases "wk_ctx W (tick w) = None \<and> \<not> wk_done W (tick ?w1)")
    case True
    then have "tick w < N" using assms by (meson not_le)
    then have "N - tick (tickw ?w1) < N - tick w" using runOnce_tick [of w E F W wk "stale_after wk"] by simp
    from less.hyps [OF this] True show ?thesis by (simp add: Run.simps [of E F W wk w] Let_def)
  next
    case False
    then show ?thesis by (auto simp: Run.simps [of E F W wk w] Let_def)
  qed
qed

lemma Run_forever:
  assumes "\<forall>t. wk_ctx W t = None \<and> \<not> wk_done W t"
  shows "Run E F W wk w = None"
proof -
  have "W' \<noteq> W" if "Run E' F' W' wk' v = Some v'" for E' F' W' wk' v v'
    using _ that
  proof (rule Run.raw_induct)
    fix run E' F' W' wk' v v'
    assume ih: "\<And>E' F' W' wk' v v'. run E' F' W' wk' v = Some v' \<Longrightarrow> W' \<noteq> W"
      and body: "(if wk_ctx W' (tick v) \<noteq> None then Some v
         else let w1 = runOnce E' F' W' wk' (stale_after wk') v
              in if wk_done W' (tick w1) then Some w1 else run E' F' W' wk' (tickw w1)) = Some v'"
    show "W' \<noteq> W" using body assms ih unfolding Let_def by (metis (no_types, lifting))
  qed
  then show ?thesis by fastforce
qed

text \<open>
  C23: the polling loop stops. Once the context is done, for good, \<open>Run\<close> returns, whatever the
  rounds met; and it returns for no other reason: with a context that is never done it polls
  forever.
\<close>

theorem worker_stops:
  "((\<exists>N. \<forall>t \<ge> N. wk_ctx W t \<noteq> None) \<longrightarrow> (\<exists>w'. Run E F W wk w = Some w')) \<and>
   ((\<forall>t. wk_ctx W t = None \<and> \<not> wk_done W t) \<longrightarrow> Run E F W wk w = None)"
  using Run_returns Run_forever by blast

text \<open>For concrete runs: a merchant that answers with the given code until the context ends at step \<open>n\<close>.\<close>

definition answering :: "int \<Rightarrow> nat \<Rightarrow> worker_env" where
  "answering code n = \<lparr>wk_build = (\<lambda>_. None), wk_do = (\<lambda>_ _ _ _. Inr code),
     wk_ctx = (\<lambda>t. if t < n then None else Some (Sentinel Canceled)), wk_done = (\<lambda>_. False), wk_rand = (\<lambda>_. Fin 0),
     wk_hmac = (\<lambda>_ _. ''ab''), wk_text = (\<lambda>_. ''{}''), wk_sched = (\<lambda>_ es. es)\<rparr>"

definition sample_worker :: worker where
  "sample_worker = worker_New None worker_DefaultConfig"

lemma answering_stops: "\<exists>w'. Run steady exact_ops (answering code n) sample_worker w = Some w'"
  by (rule Run_returns [where N = n]) (simp add: answering_def)

theorem worker_keeps_ledger_witness:
  "\<exists>w'. Run steady exact_ops (answering 200 20) sample_worker sample_settled = Some w' \<and>
     ledger_inv w' \<and> payments w' = payments sample_settled"
  using worker_keeps_ledger [OF sample_settled_inv] answering_stops by blast

theorem worker_stops_witness:
  "\<exists>w'. Run steady exact_ops (answering 500 20) sample_worker sample_outbox = Some w'"
proof -
  have "\<forall>t \<ge> 20. wk_ctx (answering 500 20) t \<noteq> None" by (simp add: answering_def)
  with worker_stops [of "answering 500 20" steady exact_ops sample_worker sample_outbox] show ?thesis by blast
qed

section \<open>The request and the backoff\<close>

text \<open>The webhook requests among what the program has done.\<close>

definition posts :: "world \<Rightarrow> obs list" where
  "posts w = filter (\<lambda>x. case x of HttpPost _ _ _ \<Rightarrow> True | _ \<Rightarrow> False) (obs w)"

lemma posts_simps [simp]:
  "posts (tickw w) = posts w" "posts (observe (LogLine l x m) w) = posts w" "posts (observe (Inc n ls) w) = posts w"
  "posts (observe (Observe n ls) w) = posts w" "posts (observe (HttpPost u h b) w) = posts w @ [HttpPost u h b]"
  "posts (worker_log E evt lv y m w) = posts w" "posts (count_attempt s w) = posts w" "posts (observe_latency w) = posts w"
  by (simp_all add: posts_def tickw_def observe_def worker_log_def count_attempt_def observe_latency_def)

lemma mark_posts: "posts (snd (db_call E (\<lambda>w. mark_stmt i (f w) w) w)) = posts w"
  by (cases rule: db_call_cases [of E "\<lambda>w. mark_stmt i (f w) w" w]) (simp_all add: mark_stmt_def Let_def posts_def)

lemma marks_posts:
  "MarkDead E i m w = (res, w') \<Longrightarrow> posts w' = posts w" "MarkDelivered E i w = (res, w') \<Longrightarrow> posts w' = posts w"
  "MarkRetry E i t m w = (res, w') \<Longrightarrow> posts w' = posts w"
  unfolding MarkDead_def MarkDelivered_def MarkRetry_def by (drule arg_cong [where f = "posts \<circ> snd"], simp add: mark_posts)+

lemma handleOne_posts:
  "posts (handleOne E F W wk evt w) =
     (if TrimSpace (oe_WebhookURL evt) = [] then posts w else posts (snd (deliver E W wk evt (tickw w))))"
  by (auto simp: handleOne_def Now_def Let_def dest!: marks_posts split: prod.splits sum.splits option.splits)

text \<open>
  C38: one delivery makes one request at most, and it makes it to the merchant's URL with the
  event's payload as body. The request names the event in its idempotency key, so that every
  attempt for one event carries the same key. It is signed with the HMAC of exactly the
  bytes sent when the merchant has a secret, and carries no signature when it has none.
\<close>

theorem webhook_request:
  "posts (handleOne E F W wk evt w) = posts w @
     (if TrimSpace (oe_WebhookURL evt) = [] then []
      else (case wk_build W (TrimSpace (oe_WebhookURL evt)) of
        Some _ \<Rightarrow> []
      | None \<Rightarrow> [HttpPost (TrimSpace (oe_WebhookURL evt)) (webhook_headers E W wk evt) (wk_text W (oe_Payload evt))])) \<and>
   map_of (webhook_headers E W wk evt) ''Idempotency-Key'' = Some (uuid_str E (oe_ID evt)) \<and>
   map_of (webhook_headers E W wk evt) ''X-PayFlow-Event-Type'' = Some (oe_EventType evt) \<and>
   map_of (webhook_headers E W wk evt) ''X-PayFlow-Signature'' =
     (case wk_registry wk of
        None \<Rightarrow> None
      | Some reg \<Rightarrow>
          (case reg_Secret reg (oe_MerchantID evt) of (secret, ok) \<Rightarrow>
             if ok \<and> TrimSpace secret \<noteq> [] then Some (''sha256='' @ wk_hmac W secret (wk_text W (oe_Payload evt))) else None))"
  by (auto simp: handleOne_posts deliver_def webhook_headers_def signPayload_def Let_def split: option.splits sum.splits prod.splits)

text \<open>The worker's configuration read as one of the retry engine.\<close>

definition retry_of :: "worker_config \<Rightarrow> retry_config" where
  "retry_of c = \<lparr>MaxAttempts = wc_MaxAttempts c, BaseDelay = wc_BaseDelay c, MaxDelay = wc_MaxBackoff c,
     Multiplier = wc_BackoffMultiplier c\<rparr>"

lemma nextBackoffDelay_retry: "nextBackoffDelay F wk attempt rnd = calculateDelayWithJitter F (retry_of (wk_cfg wk)) attempt rnd"
  by (simp add: nextBackoffDelay_def calculateDelayWithJitter_def retry_of_def)

text \<open>
  The worker computes its delays with the formula of the retry engine, as its comment
  says. For a worker built by \<open>New\<close>, whatever was configured (times up to \<open>2 ^ 53\<close>
  nanoseconds, about a hundred days), every delay lies between 0 and the maximal backoff,
  which is positive.
\<close>

theorem webhook_backoff:
  assumes "float_ok F" and "wk = worker_New reg cfg"
    and "wc_BaseDelay cfg \<le> 2 ^ 53" and "wc_MaxBackoff cfg \<le> 2 ^ 53" and "wc_BackoffMultiplier cfg = Fin m"
    and "0 \<le> attempt" and "attempt \<le> 2 ^ 53" and "0 \<le> r" and "r < 1"
  shows "nextBackoffDelay F wk attempt (Fin r) = calculateDelayWithJitter F (retry_of (wk_cfg wk)) attempt (Fin r) \<and>
    0 < wc_MaxBackoff (wk_cfg wk) \<and> 0 \<le> nextBackoffDelay F wk attempt (Fin r) \<and>
    nextBackoffDelay F wk attempt (Fin r) \<le> wc_MaxBackoff (wk_cfg wk)"
proof -
  have cfg: "wk_cfg wk = worker_withDefaults cfg" using assms(2) by (simp add: worker_New_def Let_def)
  obtain m' where m': "wc_BackoffMultiplier (wk_cfg wk) = Fin m'" "0 < m'"
    using assms(5) by (cases "fle (wc_BackoffMultiplier cfg) (Fin 0)") (auto simp: cfg worker_withDefaults_def)
  have le: "0 < wc_BaseDelay (wk_cfg wk)" "wc_BaseDelay (wk_cfg wk) \<le> 2 ^ 53"
    "0 < wc_MaxBackoff (wk_cfg wk)" "wc_MaxBackoff (wk_cfg wk) \<le> 2 ^ 53"
    using assms(3,4) by (simp_all add: cfg worker_withDefaults_def duration_defs)
  have "0 \<le> nextBackoffDelay F wk attempt (Fin r) \<and> nextBackoffDelay F wk attempt (Fin r) \<le> wc_MaxBackoff (wk_cfg wk)"
    unfolding nextBackoffDelay_retry calculateDelay_backoff
    using backoff_delay_bounds [OF assms(1) _ le(4) le(1,2) m' assms(6,7) refl assms(8,9)] le(3) by (simp add: retry_of_def)
  with le(3) show ?thesis by (simp add: nextBackoffDelay_retry)
qed

theorem webhook_backoff_witness:
  "0 \<le> nextBackoffDelay exact_ops sample_worker 4 (Fin (1 / 2)) \<and>
   nextBackoffDelay exact_ops sample_worker 4 (Fin (1 / 2)) \<le> 10 * Minute"
proof -
  have "wc_MaxBackoff (wk_cfg sample_worker) = 10 * Minute"
    by (simp add: sample_worker_def worker_New_def worker_withDefaults_def worker_DefaultConfig_def duration_defs)
  with webhook_backoff [OF float_ok_exact, of sample_worker None worker_DefaultConfig 2 4 "1 / 2"] show ?thesis
    by (simp add: sample_worker_def worker_DefaultConfig_def duration_defs)
qed

end
