(* ===== verification/Webhook_Delivery.thy ===== *)
theory Webhook_Delivery
  imports Webhook_Worker "HOL-Library.Multiset"
begin

text \<open>
  What the webhook worker achieves when the database answers and the context stays alive: the
  outcome of one delivery on every branch, of one round over the whole outbox, and of as many
  rounds as an event has attempts.
\<close>

section \<open>One delivery\<close>

text \<open>What a marking statement makes of a row.\<close>

fun mark_of :: "outbox_op \<Rightarrow> time \<Rightarrow> outbox_row \<Rightarrow> outbox_row" where
  "mark_of (OpDelivered i) now = set_delivered now"
| "mark_of (OpRetry i nextAt lastErr) now = set_retry now nextAt lastErr"
| "mark_of (OpDead i lastErr) now = set_dead now lastErr"
| "mark_of _ now = (\<lambda>r. r)"

definition marks :: "uuid \<Rightarrow> outbox_op \<Rightarrow> bool" where
  "marks i op \<longleftrightarrow> op = OpDelivered i \<or> (\<exists>t m. op = OpRetry i t m) \<or> (\<exists>m. op = OpDead i m)"

lemma mark_of_event: "event_of (mark_of op now r) = event_of r"
  by (cases op) (simp_all add: outbox_set_defs event_of_def)

lemma mark_of_id: "ob_id (mark_of op now r) = ob_id r"
  using mark_of_event [of op now r] by (simp add: event_of_def)

lemma run_mark:
  assumes "marks i op" and "no_faults E" and "distinct (map ob_id (outbox w))" and "processing i w"
  shows "outbox (run_op E op w) = sql_update (\<lambda>r. ob_id r = i) (mark_of op (db_now E (tickw w))) (outbox w)"
proof -
  have f: "fault_at E (tick w) = None" using assms(2) by (simp add: no_faults_def)
  have m: "outbox (snd (rows_or_not_found (db_call E (\<lambda>w. mark_stmt i (f (db_now E w)) w) w))) =
      sql_update (\<lambda>r. ob_id r = i) (f (db_now E (tickw w))) (outbox w)" if "\<And>now r. ob_id (f now r) = ob_id r" for f
    unfolding mark_answer [where f = f, OF assms(3) f that]
    using assms(4) by (simp add: processing_def split: option.splits)
  show ?thesis
    using assms(1) m [of set_delivered] m [of "\<lambda>now. set_retry now _ _"] m [of "\<lambda>now. set_dead now _"]
    by (auto simp: marks_def MarkDelivered_def MarkRetry_def MarkDead_def outbox_set_defs [abs_def])
qed

lemma processing_tables: "tables v = tables w \<Longrightarrow> processing i v = processing i w"
  by (simp add: processing_def event_row_def tables_def)

lemma delivery_op_marks: "delivery_op E F W wk evt w = Some op \<Longrightarrow> marks (oe_ID evt) op"
  by (auto simp: delivery_op_def marks_def split: if_splits prod.splits option.splits)

lemma delivery_op_alive: "\<forall>t. wk_ctx W t = None \<Longrightarrow> delivery_op E F W wk evt w \<noteq> None"
  by (simp add: delivery_op_def split: prod.split)

text \<open>
  C13: what handling one claimed event does when the database answers and the context is alive.
  The event's row alone changes. An event without a URL is dead at once; one whose request
  was built and answered with a status between 200 and 299 is delivered; any other is dead
  when this was its last attempt, and otherwise pending again with one more attempt counted
  and its next attempt after the current time plus the backoff.
\<close>

theorem handle_one:
  assumes "no_faults E" and "\<forall>t. wk_ctx W t = None" and "distinct (map ob_id (outbox w))"
    and "processing (oe_ID evt) w"
  shows "\<exists>now t k. payments (handleOne E F W wk evt w) = payments w \<and> refunds (handleOne E F W wk evt w) = refunds w \<and>
    outbox (handleOne E F W wk evt w) = sql_update (\<lambda>r. ob_id r = oe_ID evt)
      (if TrimSpace (oe_WebhookURL evt) = [] then set_dead now ''no_webhook_url_for_merchant''
       else case wk_build W (TrimSpace (oe_WebhookURL evt)) of
           None \<Rightarrow> (case wk_do W (Suc (tick w)) (TrimSpace (oe_WebhookURL evt)) (webhook_headers E W wk evt) (wk_text W (oe_Payload evt)) of
               Inr code \<Rightarrow> if 200 \<le> code \<and> code < 300 then set_delivered now
                 else if wk_maxAttempts wk \<le> oe_AttemptCount evt + 1 then set_dead now (''http status '' @ Itoa code)
                 else set_retry now (time_at E t + nextBackoffDelay F wk (oe_AttemptCount evt) (wk_rand W k)) (''http status '' @ Itoa code)
             | Inl e \<Rightarrow> if wk_maxAttempts wk \<le> oe_AttemptCount evt + 1 then set_dead now (Error_text e)
                 else set_retry now (time_at E t + nextBackoffDelay F wk (oe_AttemptCount evt) (wk_rand W k)) (Error_text e))
         | Some e \<Rightarrow> if wk_maxAttempts wk \<le> oe_AttemptCount evt + 1 then set_dead now (Error_text (wrap_pre ''build request'' e))
             else set_retry now (time_at E t + nextBackoffDelay F wk (oe_AttemptCount evt) (wk_rand W k)) (Error_text (wrap_pre ''build request'' e)))
      (outbox w)"
proof -
  obtain op where op: "delivery_op E F W wk evt w = Some op" "marks (oe_ID evt) op"
    using delivery_op_alive [OF assms(2)] delivery_op_marks by blast
  obtain v where v: "tables v = tables w" "tables (handleOne E F W wk evt w) = tables (run_op E op v)"
    using handleOne_runs [of w E F W wk evt] op(1) by auto
  have same: "payments (run_op E op v) = payments w" "refunds (run_op E op v) = refunds w" "outbox v = outbox w"
    using run_op_payments [of E op v] v(1) by (simp_all add: tables_def)
  let ?now = "db_now E (tickw v)" and ?d = "deliver E W wk evt (tickw w)"
  have rows: "outbox (handleOne E F W wk evt w) = sql_update (\<lambda>r. ob_id r = oe_ID evt) (mark_of op ?now) (outbox w)"
    using run_mark [OF op(2) assms(1), of v] assms(3,4) v same(3) processing_tables [OF v(1)] by (simp add: tables_def)
  show ?thesis
    using rows v(2) same op(1) assms(2)
    by (intro exI [of _ ?now] exI [of _ "Suc (tick (snd ?d))"] exI [of _ "Suc (Suc (tick (snd ?d)))"])
      (auto simp: delivery_op_def deliver_def Let_def tables_def split: if_splits option.splits sum.splits prod.splits)
qed

section \<open>One round\<close>

definition unsettled :: "outbox_row \<Rightarrow> bool" where
  "unsettled r \<longleftrightarrow> ob_status r = OutboxStatusPending \<or> ob_status r = OutboxStatusProcessing"

text \<open>A row after a delivery: settled for good, or waiting with one more attempt counted.\<close>

definition attempted :: "worker \<Rightarrow> outbox_row \<Rightarrow> outbox_row \<Rightarrow> bool" where
  "attempted wk r r' \<longleftrightarrow> event_of r' = event_of r \<and>
     (ob_status r' = OutboxStatusDelivered \<or> ob_status r' = OutboxStatusDead \<or>
      ob_status r' = OutboxStatusPending \<and> ob_attempt_count r' = ob_attempt_count r + 1 \<and>
        ob_attempt_count r' < wk_maxAttempts wk)"

text \<open>The claimed events as the worker holds them.\<close>

definition claimed_row :: "world \<Rightarrow> outbox_event \<Rightarrow> bool" where
  "claimed_row w evt \<longleftrightarrow> (\<exists>r \<in> set (outbox w). ob_id r = oe_ID evt \<and> ob_status r = OutboxStatusProcessing \<and>
     ob_attempt_count r = oe_AttemptCount evt)"

lemma claimed_processing:
  assumes "distinct (map ob_id (outbox w))" and "claimed_row w evt"
  shows "processing (oe_ID evt) w"
proof -
  obtain r where "r \<in> set (outbox w)" "ob_id r = oe_ID evt" "ob_status r = OutboxStatusProcessing"
    using assms(2) by (auto simp: claimed_row_def)
  then show ?thesis
    using find_key_unique [OF assms(1), of r] by (simp add: processing_def event_row_def)
qed

lemma delivery_op_attempt: "delivery_op E F W wk evt w = Some (OpRetry i t m) \<Longrightarrow> oe_AttemptCount evt + 1 < wk_maxAttempts wk"
  by (auto simp: delivery_op_def split: if_splits prod.splits option.splits)

lemma handleOne_attempted:
  assumes "no_faults E" and "\<forall>t. wk_ctx W t = None" and "distinct (map ob_id (outbox w))" and "claimed_row w evt"
  shows "list_all2 (\<lambda>r r'. if ob_id r = oe_ID evt then attempted wk r r' else r' = r)
    (outbox w) (outbox (handleOne E F W wk evt w))"
proof -
  obtain op where op: "delivery_op E F W wk evt w = Some op" using delivery_op_alive [OF assms(2)] by blast
  obtain v where v: "tables v = tables w" "tables (handleOne E F W wk evt w) = tables (run_op E op v)"
    using handleOne_runs [of w E F W wk evt] op by auto
  have out: "outbox v = outbox w" using v(1) by (simp add: tables_def)
  have rows: "outbox (handleOne E F W wk evt w) = sql_update (\<lambda>r. ob_id r = oe_ID evt) (mark_of op (db_now E (tickw v))) (outbox w)"
    using run_mark [OF delivery_op_marks [OF op] assms(1), of v] claimed_processing [OF assms(3,4)]
      assms(3) v out processing_tables [OF v(1)] by (simp add: tables_def)
  have "attempted wk r (mark_of op now r)" if r: "r \<in> set (outbox w)" "ob_id r = oe_ID evt" for r now
  proof -
    have "ob_attempt_count r = oe_AttemptCount evt"
      using assms(4) r unfolding claimed_row_def by (metis id_unique [OF assms(3)])
    with delivery_op_attempt [of E F W wk evt w] delivery_op_marks [OF op] op mark_of_event [of op now r] show ?thesis
      by (auto simp: attempted_def marks_def outbox_set_defs)
  qed
  then show ?thesis unfolding rows by (simp add: list_all2_conv_all_nth sql_update_def)
qed

lemma rows_keep_ids:
  assumes "list_all2 R t t'" and "\<And>r r'. R r r' \<Longrightarrow> event_of r' = event_of r"
  shows "map ob_id t' = map ob_id t"
  using assms(1)
proof (induction rule: list_all2_induct)
  case (Cons x xs y ys)
  with assms(2) [of x y] show ?case by (simp add: event_of_def)
qed simp

lemma rows_row: "list_all2 R t t' \<Longrightarrow> r \<in> set t \<Longrightarrow> \<exists>r' \<in> set t'. R r r'"
  by (induction rule: list_all2_induct) auto

lemma attempted_event: "attempted wk r r' \<Longrightarrow> event_of r' = event_of r"
  by (simp add: attempted_def)

lemma fold_attempted:
  assumes "no_faults E" and "\<forall>t. wk_ctx W t = None" and "distinct (map ob_id (outbox w))"
    and "distinct (map oe_ID es)" and "\<forall>e \<in> set es. claimed_row w e"
  shows "list_all2 (\<lambda>r r'. if ob_id r \<in> oe_ID ` set es then attempted wk r r' else r' = r)
    (outbox w) (outbox (fold (handleOne E F W wk) es w))"
  using assms(3-5)
proof (induction es arbitrary: w)
  case Nil
  then show ?case by (simp add: list_all2_refl)
next
  case (Cons e es)
  let ?v = "handleOne E F W wk e w"
  have step: "list_all2 (\<lambda>r r'. if ob_id r = oe_ID e then attempted wk r r' else r' = r) (outbox w) (outbox ?v)"
    by (rule handleOne_attempted [OF assms(1,2)]) (use Cons.prems in auto)
  have ids: "map ob_id (outbox ?v) = map ob_id (outbox w)"
    by (rule rows_keep_ids [OF step]) (auto dest: attempted_event split: if_splits)
  have "claimed_row ?v e'" if e': "e' \<in> set es" for e'
  proof -
    obtain r where r: "r \<in> set (outbox w)" "ob_id r = oe_ID e'" "ob_status r = OutboxStatusProcessing"
      "ob_attempt_count r = oe_AttemptCount e'"
      using Cons.prems(3) e' by (auto simp: claimed_row_def)
    have "oe_ID e' \<noteq> oe_ID e" using Cons.prems(2) e' by (metis distinct.simps(2) image_eqI list.set_map list.simps(9))
    with step r have "r \<in> set (outbox ?v)" by (fastforce simp: list_all2_conv_all_nth in_set_conv_nth)
    with r show ?thesis by (auto simp: claimed_row_def)
  qed
  then have rest: "list_all2 (\<lambda>r r'. if ob_id r \<in> oe_ID ` set es then attempted wk r r' else r' = r)
      (outbox ?v) (outbox (fold (handleOne E F W wk) es ?v))"
    using Cons.prems ids by (intro Cons.IH) auto
  have "list_all2 (\<lambda>r r'. if ob_id r \<in> oe_ID ` set (e # es) then attempted wk r r' else r' = r)
      (outbox w) (outbox (fold (handleOne E F W wk) es ?v))"
  proof (rule list_all2_trans [OF _ step rest])
    fix r s r'
    assume rs: "if ob_id r = oe_ID e then attempted wk r s else s = r"
      and sr: "if ob_id s \<in> oe_ID ` set es then attempted wk s r' else r' = s"
    have "ob_id s = ob_id r" using rs attempted_event [of wk r s] by (auto simp: event_of_def split: if_splits)
    moreover have "oe_ID e \<notin> oe_ID ` set es" using Cons.prems(2) by simp
    ultimately show "if ob_id r \<in> oe_ID ` set (e # es) then attempted wk r r' else r' = r"
      using rs sr by (auto split: if_splits)
  qed
  then show ?case by simp
qed

text \<open>Reclaiming leaves a row alone or gives it back.\<close>

definition given_back :: "outbox_row \<Rightarrow> outbox_row \<Rightarrow> bool" where
  "given_back r r' \<longleftrightarrow> ob_status r = OutboxStatusProcessing \<and> ob_status r' = OutboxStatusPending \<and>
     ob_attempt_count r' = ob_attempt_count r \<and> event_of r' = event_of r"

lemma reclaim_rows:
  "list_all2 (\<lambda>r r'. r' = r \<or> given_back r r') (outbox v) (outbox (run_op E (OpReclaim d) v))"
  by (rule run_op_inv [where P = "list_all2 (\<lambda>r r'. r' = r \<or> given_back r r') (outbox v)"])
    (auto simp: reclaim_stmt_def Let_def sql_update_def list_all2_conv_all_nth is_stale_def given_back_def
      outbox_status_defs event_of_def)

lemma before_claim_rows:
  "list_all2 (\<lambda>r r'. r' = r \<or> given_back r r') (outbox w) (outbox (before_claim E d w))"
proof -
  obtain v where "tables v = tables w" "tables (before_claim E d w) = tables (run_op E (OpReclaim d) v)"
    using before_claim_reclaims by blast
  with reclaim_rows [of v E d] show ?thesis by (simp add: tables_def)
qed

lemma given_back_event: "r' = r \<or> given_back r r' \<Longrightarrow> event_of r' = event_of r"
  by (auto simp: given_back_def)

lemma ClaimBatch_answers:
  assumes "no_faults E"
  obtains es w' where "ClaimBatch E n w = (Inr es, w')"
  using assms by (simp add: ClaimBatch_def db_call_def no_faults_def claim_stmt_def Let_def)

text \<open>The batch: its events are the due rows of the outbox, which are processing now.\<close>

lemma claim_round:
  assumes "distinct (map ob_id (outbox v))" and "ClaimBatch E n v = (Inr es, w3)"
  shows "distinct (map oe_ID es)" and "\<forall>e \<in> set es. claimed_row w3 e"
    and "list_all2 (\<lambda>r r'. if ob_id r \<in> oe_ID ` set es
        then ob_status r = OutboxStatusPending \<and> (\<exists>now. r' = mark_claimed now r) else r' = r) (outbox v) (outbox w3)"
proof -
  let ?now = "db_now E (tickw v)" and ?due = "due_rows E (nat (max 1 n)) (tickw v)"
  have es: "es = map (scanOutboxEvent \<circ> mark_claimed ?now) ?due"
    and w3: "outbox w3 = sql_update (\<lambda>r. ob_id r \<in> ob_id ` set ?due) (mark_claimed ?now) (outbox v)"
    using ClaimBatch_success [OF assms(2)] by simp_all
  have due: "r \<in> set (outbox v)" "ob_status r = OutboxStatusPending" if "r \<in> set ?due" for r
    using due_rows_subset [OF that] by (simp_all add: is_due_def OutboxStatusPending_def)
  show "distinct (map oe_ID es)" using distinct_due [of "tickw v"] assms(1) by (simp add: es comp_def)
  show "\<forall>e \<in> set es. claimed_row w3 e"
  proof
    fix e assume "e \<in> set es"
    then obtain r where r: "r \<in> set ?due" "e = scanOutboxEvent (mark_claimed ?now r)" using es by auto
    have "mark_claimed ?now r \<in> set (outbox w3)"
      unfolding w3 set_sql_update using due(1) [OF r(1)] r(1) by (intro bexI [of _ r]) auto
    then show "claimed_row w3 e"
      unfolding claimed_row_def by (rule bexI [rotated]) (simp add: r(2) scanOutboxEvent_def mark_claimed_def OutboxStatusProcessing_def)
  qed
  have ids: "oe_ID ` set es = ob_id ` set ?due" unfolding es by (rule claimed_ids)
  have "ob_status r = OutboxStatusPending" if "r \<in> set (outbox v)" "ob_id r \<in> ob_id ` set ?due" for r
    using due_ids [of "tickw v" r E "nat (max 1 n)"] assms(1) that due(2) by simp
  then show "list_all2 (\<lambda>r r'. if ob_id r \<in> oe_ID ` set es
      then ob_status r = OutboxStatusPending \<and> (\<exists>now. r' = mark_claimed now r) else r' = r) (outbox v) (outbox w3)"
    unfolding w3 ids by (auto simp: list_all2_conv_all_nth sql_update_def)
qed

lemma claim_all_due:
  assumes "ClaimBatch E n v = (Inr es, w3)" and "length (filter (\<lambda>r. ob_status r = OutboxStatusPending) (outbox v)) \<le> nat (max 1 n)"
    and "r \<in> set (outbox v)" and "is_due (db_now E (tickw v)) r" and "\<not> locked_at E (Suc (tick v)) (ob_id r)"
  shows "ob_id r \<in> oe_ID ` set es"
proof -
  let ?Q = "\<lambda>r. is_due (db_now E (tickw v)) r \<and> \<not> locked_at E (tick (tickw v)) (ob_id r)"
  have "length (filter ?Q (outbox v)) = length (filter ?Q (filter (\<lambda>r. ob_status r = OutboxStatusPending) (outbox v)))"
    by (simp add: conj_commute, rule arg_cong [where f = length], rule filter_cong)
      (auto simp: is_due_def OutboxStatusPending_def)
  also have "\<dots> \<le> nat (max 1 n)" using length_filter_le [of ?Q] assms(2) le_trans by blast
  finally have "due_rows E (nat (max 1 n)) (tickw v) = sort_key ob_next_retry_at (filter ?Q (outbox v))"
    by (simp add: due_rows_def)
  then have "r \<in> set (due_rows E (nat (max 1 n)) (tickw v))" using assms(3-5) by simp
  then show ?thesis unfolding claim_ids [OF assms(1)] by blast
qed

text \<open>What a round makes of a row.\<close>

definition after_round :: "worker \<Rightarrow> outbox_row \<Rightarrow> outbox_row \<Rightarrow> bool" where
  "after_round wk r r' \<longleftrightarrow> r' = r \<or> given_back r r' \<or> (unsettled r \<and> attempted wk r r')"

text \<open>A row that a round has to attempt: pending, due and unlocked from its start on.\<close>

definition ready :: "env \<Rightarrow> nat \<Rightarrow> outbox_row \<Rightarrow> bool" where
  "ready E n r \<longleftrightarrow> ob_status r = OutboxStatusPending \<and>
     (\<forall>t > n. ob_next_retry_at r \<le> pg_ts (now_at E t) \<and> \<not> locked_at E t (ob_id r))"

definition batch_fits :: "worker \<Rightarrow> world \<Rightarrow> bool" where
  "batch_fits wk w \<longleftrightarrow> length (filter unsettled (outbox w)) \<le> nat (max 1 (wk_batchSize wk))"

lemma length_filter_rows:
  assumes "list_all2 R xs ys" and "\<And>x y. R x y \<Longrightarrow> Q y \<Longrightarrow> P x"
  shows "length (filter Q ys) \<le> length (filter P xs)"
  using assms(1)
proof (induction rule: list_all2_induct)
  case (Cons x xs y ys)
  with assms(2) [of x y] show ?case by auto
qed simp

lemma attempted_claimed: "attempted wk (mark_claimed now s) r' = attempted wk s r'"
  by (simp add: attempted_def mark_claimed_def event_of_def)

lemma attempted_given_back: "given_back r s \<Longrightarrow> attempted wk s r' = attempted wk r r'"
  by (simp add: attempted_def given_back_def)

lemma before_claim_tick: "tick w < tick (before_claim E d w)"
proof -
  obtain v where "tick w < tick v" "tick (before_claim E d w) = tick (run_op E (OpReclaim d) v)"
    using before_claim_reclaims by blast
  then show ?thesis using ReclaimStaleProcessing_tick [of v E d] by simp
qed

lemma round_rows:
  assumes "no_faults E" and "\<forall>t. wk_ctx W t = None" and "\<forall>t es. mset (wk_sched W t es) = mset es"
    and "distinct (map ob_id (outbox w))"
  shows "list_all2 (\<lambda>r r'. after_round wk r r' \<and> (batch_fits wk w \<and> ready E (tick w) r \<longrightarrow> attempted wk r r'))
    (outbox w) (outbox (runOnce E F W wk d w))"
proof -
  let ?v = "before_claim E d w"
  have first: "list_all2 (\<lambda>r s. s \<in> set (outbox ?v) \<and> (s = r \<or> given_back r s)) (outbox w) (outbox ?v)"
    using before_claim_rows [of w E d] by (auto simp: list_all2_conv_all_nth)
  have ids: "map ob_id (outbox ?v) = map ob_id (outbox w)"
    by (rule rows_keep_ids [OF before_claim_rows]) (rule given_back_event)
  then have dv: "distinct (map ob_id (outbox ?v))" using assms(4) by simp
  obtain es w3 where c: "ClaimBatch E (wk_batchSize wk) ?v = (Inr es, w3)" using assms(1) by (rule ClaimBatch_answers)
  note claim = claim_round [OF dv c]
  let ?es = "wk_sched W (tick w3) es"
  have perm: "set ?es = set es" "distinct (map oe_ID ?es)"
    using assms(3) claim(1) by (metis mset_eq_setD, metis mset_eq_imp_distinct_iff mset_map)
  have "map ob_id (outbox w3) = map ob_id (outbox ?v)"
    by (rule rows_keep_ids [OF claim(3)]) (auto simp: mark_claimed_def event_of_def split: if_splits)
  then have last: "list_all2 (\<lambda>r r'. if ob_id r \<in> oe_ID ` set es then attempted wk r r' else r' = r)
      (outbox w3) (outbox (runOnce E F W wk d w))"
    using fold_attempted [OF assms(1,2) _ perm(2), of w3 wk F] claim(2) dv c perm(1) by (simp add: runOnce_split)
  have due: "ob_id r \<in> oe_ID ` set es" if "batch_fits wk w" "ready E (tick w) r" "r \<in> set (outbox ?v)" for r
  proof (rule claim_all_due [OF c])
    have "length (filter (\<lambda>r. ob_status r = OutboxStatusPending) (outbox ?v)) \<le> length (filter unsettled (outbox w))"
      by (rule length_filter_rows [OF before_claim_rows]) (auto simp: given_back_def unsettled_def)
    then show "length (filter (\<lambda>r. ob_status r = OutboxStatusPending) (outbox ?v)) \<le> nat (max 1 (wk_batchSize wk))"
      using that(1) by (simp add: batch_fits_def)
    show "is_due (db_now E (tickw ?v)) r" and "\<not> locked_at E (Suc (tick ?v)) (ob_id r)"
      using that(2) before_claim_tick [of w E d] by (simp_all add: ready_def is_due_def db_now_def OutboxStatusPending_def)
  qed (fact that(3))
  have mid: "list_all2 (\<lambda>r t. if ob_id r \<in> oe_ID ` set es
      then (unsettled r \<and> ob_id t = ob_id r \<and> (\<forall>r'. attempted wk t r' \<longrightarrow> attempted wk r r'))
      else (t = r \<or> given_back r t) \<and> ob_id t = ob_id r \<and> \<not> (batch_fits wk w \<and> ready E (tick w) r)) (outbox w) (outbox w3)"
  proof (rule list_all2_trans [OF _ first claim(3)])
    fix r s t
    assume rs: "s \<in> set (outbox ?v) \<and> (s = r \<or> given_back r s)"
      and st: "if ob_id s \<in> oe_ID ` set es then ob_status s = OutboxStatusPending \<and> (\<exists>now. t = mark_claimed now s) else t = s"
    have same_id: "ob_id s = ob_id r" using rs given_back_event [of s r] by (auto simp: event_of_def)
    have "\<not> (batch_fits wk w \<and> ready E (tick w) r)" if "ob_id r \<notin> oe_ID ` set es"
      using due [of r] that rs by (auto simp: ready_def given_back_def outbox_status_defs)
    with rs st same_id show "if ob_id r \<in> oe_ID ` set es
      then (unsettled r \<and> ob_id t = ob_id r \<and> (\<forall>r'. attempted wk t r' \<longrightarrow> attempted wk r r'))
      else (t = r \<or> given_back r t) \<and> ob_id t = ob_id r \<and> \<not> (batch_fits wk w \<and> ready E (tick w) r)"
      by (auto simp: attempted_claimed attempted_given_back unsettled_def given_back_def split: if_splits)
  qed
  show ?thesis
    by (rule list_all2_trans [OF _ mid last]) (auto simp: after_round_def split: if_splits)
qed

lemma after_round_event: "after_round wk r r' \<Longrightarrow> event_of r' = event_of r"
  by (auto simp: after_round_def attempted_def given_back_def)

lemma after_round_unsettled: "after_round wk r r' \<Longrightarrow> unsettled r' \<Longrightarrow> unsettled r"
  by (auto simp: after_round_def given_back_def unsettled_def)

text \<open>
  C12: a round finishes what it claims. When the database answers, the context is alive and the
  goroutines handle the claimed events in any order, no event is left in processing by the
  round (such a row was there before, and is untouched), no settled event changes, and when
  the batch has room for every open event, each event that is due and not locked by others
  has been attempted: it is delivered or dead, or pending with one more attempt counted and
  attempts left.
\<close>

theorem round_settles:
  assumes "no_faults E" and "\<forall>t. wk_ctx W t = None" and "\<forall>t es. mset (wk_sched W t es) = mset es"
    and "distinct (map ob_id (outbox w))"
  shows "list_all2 (\<lambda>r r'. event_of r' = event_of r \<and>
      (ob_status r' = OutboxStatusProcessing \<longrightarrow> r' = r) \<and>
      (ob_status r = OutboxStatusDelivered \<or> ob_status r = OutboxStatusDead \<longrightarrow> r' = r) \<and>
      (batch_fits wk w \<and> ready E (tick w) r \<longrightarrow>
         ob_status r' = OutboxStatusDelivered \<or> ob_status r' = OutboxStatusDead \<or>
         ob_status r' = OutboxStatusPending \<and> ob_attempt_count r' = ob_attempt_count r + 1 \<and>
           ob_attempt_count r' < wk_maxAttempts wk))
    (outbox w) (outbox (runOnce E F W wk d w))"
  by (rule list_all2_mono [OF round_rows [OF assms]])
    (auto simp: after_round_def attempted_def given_back_def unsettled_def outbox_status_defs)

section \<open>As many rounds as attempts\<close>

definition round_step :: "env \<Rightarrow> float_ops \<Rightarrow> worker_env \<Rightarrow> worker \<Rightarrow> world \<Rightarrow> world" where
  "round_step E F W wk w = tickw (runOnce E F W wk (stale_after wk) w)"

definition rounds :: "env \<Rightarrow> float_ops \<Rightarrow> worker_env \<Rightarrow> worker \<Rightarrow> nat \<Rightarrow> world \<Rightarrow> world" where
  "rounds E F W wk n w = (round_step E F W wk ^^ n) w"

lemma rounds_simps [simp]:
  "rounds E F W wk 0 w = w" "rounds E F W wk (Suc n) w = rounds E F W wk n (round_step E F W wk w)"
  by (simp_all add: rounds_def funpow_swap1)

lemma round_step_rows:
  assumes "no_faults E" and "\<forall>t. wk_ctx W t = None" and "\<forall>t es. mset (wk_sched W t es) = mset es"
    and "distinct (map ob_id (outbox w))" and "batch_fits wk w"
  shows "distinct (map ob_id (outbox (round_step E F W wk w)))" and "batch_fits wk (round_step E F W wk w)"
    and "r \<in> set (outbox w) \<Longrightarrow> \<exists>r' \<in> set (outbox (round_step E F W wk w)). after_round wk r r' \<and>
      (ready E (tick w) r \<longrightarrow> attempted wk r r')"
proof -
  have rows: "list_all2 (\<lambda>r r'. after_round wk r r' \<and> (ready E (tick w) r \<longrightarrow> attempted wk r r'))
      (outbox w) (outbox (round_step E F W wk w))"
    using round_rows [OF assms(1-4), of wk F "stale_after wk"] assms(5) by (simp add: round_step_def)
  have "map ob_id (outbox (round_step E F W wk w)) = map ob_id (outbox w)"
    by (rule rows_keep_ids [OF rows]) (blast dest: after_round_event)
  then show "distinct (map ob_id (outbox (round_step E F W wk w)))" using assms(4) by simp
  have "length (filter unsettled (outbox (round_step E F W wk w))) \<le> length (filter unsettled (outbox w))"
    by (rule length_filter_rows [OF rows]) (auto dest: after_round_unsettled)
  then show "batch_fits wk (round_step E F W wk w)" using assms(5) by (simp add: batch_fits_def)
  show "\<exists>r' \<in> set (outbox (round_step E F W wk w)). after_round wk r r' \<and> (ready E (tick w) r \<longrightarrow> attempted wk r r')"
    if "r \<in> set (outbox w)"
    using rows that by (rule rows_row)
qed

lemma rounds_settle:
  assumes "no_faults E" and "\<forall>t. wk_ctx W t = None" and "\<forall>t es. mset (wk_sched W t es) = mset es"
    and "distinct (map ob_id (outbox w))" and "batch_fits wk w" and "r \<in> set (outbox w)"
    and "\<forall>k < n. \<forall>s \<in> set (outbox (rounds E F W wk k w)). ob_id s = ob_id r \<and> ob_status s = OutboxStatusPending \<longrightarrow>
      ready E (tick (rounds E F W wk k w)) s"
    and "ob_status r = OutboxStatusDelivered \<or> ob_status r = OutboxStatusDead \<or>
      ob_status r = OutboxStatusPending \<and> 0 < n \<and> wk_maxAttempts wk \<le> ob_attempt_count r + int n"
  shows "\<exists>r' \<in> set (outbox (rounds E F W wk n w)). event_of r' = event_of r \<and>
    (ob_status r' = OutboxStatusDelivered \<or> ob_status r' = OutboxStatusDead)"
  using assms(4-8)
proof (induction n arbitrary: w r)
  case 0
  then show ?case by (intro bexI [of _ r]) auto
next
  case (Suc n)
  let ?v = "round_step E F W wk w"
  note round = round_step_rows [OF assms(1-3) Suc.prems(1,2), where F = F]
  obtain s where s: "s \<in> set (outbox ?v)" "after_round wk r s" "ready E (tick w) r \<longrightarrow> attempted wk r s"
    using round(3) [OF Suc.prems(3)] by blast
  have ev: "event_of s = event_of r" using s(2) by (rule after_round_event)
  have "ready E (tick w) r" if "ob_status r = OutboxStatusPending"
    using Suc.prems(3,4) that by (metis rounds_simps(1) zero_less_Suc)
  with s Suc.prems(5) have st: "ob_status s = OutboxStatusDelivered \<or> ob_status s = OutboxStatusDead \<or>
      ob_status s = OutboxStatusPending \<and> 0 < n \<and> wk_maxAttempts wk \<le> ob_attempt_count s + int n"
    by (auto simp: after_round_def attempted_def given_back_def unsettled_def outbox_status_defs)
  have "\<forall>k < n. \<forall>x \<in> set (outbox (rounds E F W wk k ?v)). ob_id x = ob_id s \<and> ob_status x = OutboxStatusPending \<longrightarrow>
      ready E (tick (rounds E F W wk k ?v)) x"
    using Suc.prems(4) [rule_format, of "Suc _"] ev by (simp add: event_of_def)
  from Suc.IH [OF round(1,2) s(1) this st] ev show ?case by simp
qed

text \<open>
  C7: every event is settled in the end. When the database answers, the context is alive, the
  batch has room for the open events and the event is due and unlocked whenever a round
  finds it pending, then after as many rounds as it has attempts left (one at least) it is
  delivered or dead, whatever the merchant answers.
\<close>

theorem delivery_settles:
  assumes "no_faults E" and "\<forall>t. wk_ctx W t = None" and "\<forall>t es. mset (wk_sched W t es) = mset es"
    and "distinct (map ob_id (outbox w))" and "batch_fits wk w" and "r \<in> set (outbox w)"
    and "ob_status r = OutboxStatusPending" and "n = max 1 (nat (wk_maxAttempts wk - ob_attempt_count r))"
    and "\<forall>k < n. \<forall>s \<in> set (outbox (rounds E F W wk k w)). ob_id s = ob_id r \<and> ob_status s = OutboxStatusPending \<longrightarrow>
      ready E (tick (rounds E F W wk k w)) s"
  shows "\<exists>r' \<in> set (outbox (rounds E F W wk n w)). event_of r' = event_of r \<and>
    (ob_status r' = OutboxStatusDelivered \<or> ob_status r' = OutboxStatusDead)"
  by (rule rounds_settle [OF assms(1-6,9)]) (use assms(7,8) in auto)

section \<open>Concrete runs\<close>

text \<open>A merchant that answers with the given code, and a worker that tries twice.\<close>

definition always :: "int \<Rightarrow> worker_env" where
  "always code = (answering code 0)\<lparr>wk_ctx := \<lambda>_. None\<rparr>"

definition impatient :: worker where
  "impatient = worker_New None (worker_DefaultConfig\<lparr>wc_MaxAttempts := 2\<rparr>)"

lemma always_alive: "\<forall>t. wk_ctx (always code) t = None" "\<forall>t es. mset (wk_sched (always code) t es) = mset es"
  by (simp_all add: always_def answering_def)

lemma impatient_fields: "wk_maxAttempts impatient = 2" "wk_batchSize impatient = 20"
  by (simp_all add: impatient_def worker_New_def worker_withDefaults_def worker_DefaultConfig_def Let_def)

lemma sample_outbox_ok: "distinct (map ob_id (outbox sample_outbox))" "batch_fits impatient sample_outbox"
  "sample_row \<in> set (outbox sample_outbox)" "ob_status sample_row = OutboxStatusPending" "ready steady n sample_row"
  by (simp_all add: sample_outbox_def sample_row_def batch_fits_def impatient_fields empty_world_def ready_def steady_def
      outbox_status_defs pg_ts_def)

theorem handle_one_witness:
  "\<exists>now t k. outbox (handleOne steady exact_ops (always 503) impatient (scanOutboxEvent (mark_claimed 0 sample_row))
       (sample_outbox\<lparr>outbox := [mark_claimed 0 sample_row]\<rparr>)) =
     [set_retry now (time_at steady t + nextBackoffDelay exact_ops impatient 0 (wk_rand (always 503) k))
        (''http status '' @ Itoa 503) (mark_claimed 0 sample_row)]"
proof -
  let ?w = "sample_outbox\<lparr>outbox := [mark_claimed 0 sample_row]\<rparr>" and ?e = "scanOutboxEvent (mark_claimed 0 sample_row)"
  have "distinct (map ob_id (outbox ?w))" "processing (oe_ID ?e) ?w"
    by (simp_all add: processing_def event_row_def)
  note go = handle_one [OF steady_ok(2) always_alive(1) [of 503] this, where F = exact_ops and wk = impatient]
  have url: "TrimSpace ''http://m'' = ''http://m''" by (simp add: TrimSpace_fixed asciiSpace_def)
  have f: "oe_WebhookURL ?e = ''http://m''" "oe_AttemptCount ?e = 0" "oe_ID ?e = 7" "ob_id (mark_claimed 0 sample_row) = 7"
    by (simp_all add: scanOutboxEvent_def mark_claimed_def sample_row_def)
  have W: "wk_build (always 503) u = None" "wk_do (always 503) t u h b = Inr 503" for t u h b
    by (simp_all add: always_def answering_def)
  from go show ?thesis unfolding f url W impatient_fields by (simp add: f(4) [simplified])
qed

theorem round_settles_witness:
  "\<exists>r'. outbox (runOnce steady exact_ops (always 503) impatient (10 * Second) sample_outbox) = [r'] \<and>
     event_of r' = event_of sample_row \<and> ob_status r' \<noteq> OutboxStatusProcessing"
proof -
  have "outbox sample_outbox = [sample_row]" by (simp add: sample_outbox_def)
  with round_settles [OF steady_ok(2) always_alive [of 503] sample_outbox_ok(1), where F = exact_ops and wk = impatient and d = "10 * Second"]
    sample_outbox_ok(2) sample_outbox_ok(5) show ?thesis
    by (auto simp: list_all2_Cons1 outbox_status_defs)
qed

lemma sample_retry_times:
  "map ob_next_retry_at (outbox (rounds steady exact_ops (always 503) impatient 1 sample_outbox)) = [1000000000]"
  by code_simp

lemma sample_retry_due:
  assumes "s \<in> set (outbox (rounds steady exact_ops (always 503) impatient 1 sample_outbox))"
  shows "ob_next_retry_at s \<le> 1000000000"
  using arg_cong [OF sample_retry_times, of set] imageI [OF assms, of ob_next_retry_at] by (simp del: rounds_simps One_nat_def)

theorem delivery_settles_witness:
  "\<exists>r' \<in> set (outbox (rounds steady exact_ops (always 503) impatient 2 sample_outbox)).
     event_of r' = event_of sample_row \<and> (ob_status r' = OutboxStatusDelivered \<or> ob_status r' = OutboxStatusDead)"
proof (rule delivery_settles [OF steady_ok(2) always_alive sample_outbox_ok(1-4)])
  show "2 = max 1 (nat (wk_maxAttempts impatient - ob_attempt_count sample_row))"
    by (simp add: impatient_fields sample_row_def)
  show "\<forall>k < 2. \<forall>s \<in> set (outbox (rounds steady exact_ops (always 503) impatient k sample_outbox)).
      ob_id s = ob_id sample_row \<and> ob_status s = OutboxStatusPending \<longrightarrow>
      ready steady (tick (rounds steady exact_ops (always 503) impatient k sample_outbox)) s"
  proof (intro allI impI ballI)
    fix k s assume k: "k < (2 :: nat)" and s: "s \<in> set (outbox (rounds steady exact_ops (always 503) impatient k sample_outbox))"
      and st: "ob_id s = ob_id sample_row \<and> ob_status s = OutboxStatusPending"
    have "ob_next_retry_at s \<le> 1000000000"
    proof (cases "k = 0")
      case True
      with s show ?thesis by (simp add: sample_outbox_def sample_row_def)
    next
      case False
      with k s sample_retry_due show ?thesis by (metis One_nat_def less_2_cases)
    qed
    with st show "ready steady (tick (rounds steady exact_ops (always 503) impatient k sample_outbox)) s"
      by (simp add: ready_def steady_def pg_ts_def)
  qed
qed

end
