(* ===== verification/Psp_Mocks.thy ===== *)
theory Psp_Mocks
  imports Psp_Adapter Go_Float
begin

text \<open>
  The two bundled providers (\<open>internal/psp/stripe_mock.go\<close>, \<open>internal/psp/razorpay_mock.go\<close>).
  The random source and the timer answer through the oracle record \<open>psp_env\<close>, indexed by
  the step counter of the provider state; \<open>rand_ok\<close> says what \<open>math/rand/v2\<close> promises.
  Amounts of latency are nanoseconds; after the constructors they satisfy
  \<open>0 \<le> MinLatency \<le> MaxLatency\<close>, so their difference does not overflow.
\<close>

section \<open>State and oracles\<close>

record 'b psp_state =
  ps_tick :: nat
  ps_obs :: "obs list"
  ps_breaker :: "string \<Rightarrow> 'b"

record psp_env =
  pe_float :: "nat \<Rightarrow> gofloat"
  pe_int :: "nat \<Rightarrow> int \<Rightarrow> int"
  pe_sleep :: "nat \<Rightarrow> sentinel option"

definition rand_ok :: "psp_env \<Rightarrow> bool" where
  "rand_ok E \<longleftrightarrow>
     (\<forall>t. \<exists>r. pe_float E t = Fin r \<and> 0 \<le> r \<and> r < 1) \<and>
     (\<forall>t n. 0 < n \<longrightarrow> 0 \<le> pe_int E t n \<and> pe_int E t n < n)"

definition pstep :: "'b psp_state \<Rightarrow> 'b psp_state" where
  "pstep s = s\<lparr>ps_tick := Suc (ps_tick s)\<rparr>"

lemma pstep_fields [simp]:
  "ps_tick (pstep s) = Suc (ps_tick s)" "ps_obs (pstep s) = ps_obs s" "ps_breaker (pstep s) = ps_breaker s"
  by (simp_all add: pstep_def)

section \<open>Latency\<close>

text \<open>\<open>rand.Int64N\<close> panics when its argument is not positive.\<close>

definition stripeMockLatency :: "psp_env \<Rightarrow> duration \<Rightarrow> duration \<Rightarrow> 'b psp_state \<Rightarrow> duration result \<times> 'b psp_state" where
  "stripeMockLatency E minD maxD0 s =
     (if minD = 0 \<and> maxD0 = 0 then (Inr 0, s)
      else let maxD = (if maxD0 = 0 then minD else maxD0) in
        if minD = maxD then (Inr minD, s)
        else let delta = maxD - minD in
          if delta \<le> 0 then (Inl (GoPanic ''invalid argument to Int64N''), s)
          else let ns = pe_int E (ps_tick s) delta in (Inr (minD + ns), pstep s))"

definition sleepStripeMock :: "psp_env \<Rightarrow> duration \<Rightarrow> duration \<Rightarrow> 'b psp_state \<Rightarrow> unit result \<times> 'b psp_state" where
  "sleepStripeMock E minD maxD s =
     (case stripeMockLatency E minD maxD s of
        (Inl p, s1) \<Rightarrow> (Inl p, s1)
      | (Inr d, s1) \<Rightarrow>
          if d \<le> 0 then (Inr (), s1)
          else (case pe_sleep E (ps_tick s1) of
                  Some e \<Rightarrow> (Inl (Sentinel e), pstep s1)
                | None \<Rightarrow> (Inr (), pstep s1)))"

definition clamp01 :: "gofloat \<Rightarrow> gofloat" where
  "clamp01 x =
     (if x = NaN then Fin 0
      else if fless x (Fin 0) then Fin 0
      else if fless (Fin 1) x then Fin 1
      else x)"

lemma clamp01_range: "\<exists>q. clamp01 x = Fin q \<and> 0 \<le> q \<and> q \<le> 1"
  by (cases x) (auto simp: clamp01_def)

definition suffix_alphabet :: string where
  "suffix_alphabet = ''abcdefghijklmnopqrstuvwxyz0123456789''"

text \<open>The loop of \<open>randomStripeSuffix\<close> and of \<open>randomRazorpaySuffix\<close>.\<close>

fun random_suffix :: "psp_env \<Rightarrow> nat \<Rightarrow> 'b psp_state \<Rightarrow> string \<times> 'b psp_state" where
  "random_suffix E 0 s = ([], s)"
| "random_suffix E (Suc n) s =
     (let c = suffix_alphabet ! nat (pe_int E (ps_tick s) (int (length suffix_alphabet)));
          (cs, s') = random_suffix E n (pstep s)
      in (c # cs, s'))"

lemma random_suffix_length [simp]: "length (fst (random_suffix E n s)) = n"
  by (induction n arbitrary: s) (simp_all split: prod.splits add: prod.case_eq_if)

lemma random_suffix_alphabet:
  assumes "rand_ok E"
  shows "set (fst (random_suffix E n s)) \<subseteq> set suffix_alphabet"
proof (induction n arbitrary: s)
  case (Suc n)
  let ?i = "pe_int E (ps_tick s) (int (length suffix_alphabet))"
  have "0 < int (length suffix_alphabet)" by (simp add: suffix_alphabet_def)
  then have "nat ?i < length suffix_alphabet"
    using assms unfolding rand_ok_def by (metis nat_int nat_less_le nat_mono_iff zless_nat_conj of_nat_0_less_iff)
  then show ?case using Suc [of "pstep s"] by (auto simp: prod.case_eq_if Let_def)
qed simp

section \<open>Stripe\<close>

definition stripeMockName :: string where "stripeMockName = ''stripe_mock''"

definition stripeSupportedCurrencies :: "string list" where
  "stripeSupportedCurrencies = [''USD'', ''EUR'', ''GBP'']"

record stripe_config =
  sm_MinLatency :: duration
  sm_MaxLatency :: duration
  sm_ChargeFailureRate :: gofloat
  sm_RefundFailureRate :: gofloat
  sm_RetryableFailureFraction :: gofloat
  sm_DeclinedFraction :: gofloat

definition DefaultStripeMockConfig :: stripe_config where
  "DefaultStripeMockConfig =
     \<lparr>sm_MinLatency = 0, sm_MaxLatency = 0, sm_ChargeFailureRate = Fin 0, sm_RefundFailureRate = Fin 0,
      sm_RetryableFailureFraction = Fin (4 / 10), sm_DeclinedFraction = Fin (7 / 10)\<rparr>"

definition NewStripeMock :: "stripe_config \<Rightarrow> stripe_config" where
  "NewStripeMock c0 =
     (let c1 = c0\<lparr>sm_ChargeFailureRate := clamp01 (sm_ChargeFailureRate c0),
                  sm_RefundFailureRate := clamp01 (sm_RefundFailureRate c0),
                  sm_RetryableFailureFraction := clamp01 (sm_RetryableFailureFraction c0),
                  sm_DeclinedFraction := clamp01 (sm_DeclinedFraction c0)\<rparr>;
          c2 = (if sm_MinLatency c1 < 0 then c1\<lparr>sm_MinLatency := 0\<rparr> else c1);
          c3 = (if sm_MaxLatency c2 < 0 then c2\<lparr>sm_MaxLatency := 0\<rparr> else c2);
          c4 = (if sm_MaxLatency c3 < sm_MinLatency c3 then c3\<lparr>sm_MaxLatency := sm_MinLatency c3\<rparr> else c3)
      in c4)"

definition newStripeChargeID :: "psp_env \<Rightarrow> 'b psp_state \<Rightarrow> string \<times> 'b psp_state" where
  "newStripeChargeID E s = (case random_suffix E 24 s of (x, s') \<Rightarrow> (''ch_'' @ x, s'))"

definition newStripeRefundID :: "psp_env \<Rightarrow> 'b psp_state \<Rightarrow> string \<times> 'b psp_state" where
  "newStripeRefundID E s = (case random_suffix E 24 s of (x, s') \<Rightarrow> (''re_'' @ x, s'))"

text \<open>The three draws of \<open>simulateChargeFailure\<close>; the code is picked from a list of three.\<close>

definition transient_codes :: "string list" where
  "transient_codes = [CodeNetworkError, CodeRateLimited, CodeServiceUnavailable]"

definition stripe_declined_raw :: json where
  "stripe_declined_raw =
     JObj [(''failure_code'', JStr CodeCardDeclined),
       (''failure_message'', JStr ''Your card was declined.''), (''object'', JStr ''charge''),
       (''outcome_network_status'', JStr ''declined_by_network''), (''status'', JStr ''failed'')]"

definition stripe_simulateChargeFailure :: "psp_env \<Rightarrow> stripe_config \<Rightarrow> 'b psp_state
    \<Rightarrow> charge_response option result \<times> 'b psp_state" where
  "stripe_simulateChargeFailure E m s =
     (if fless (pe_float E (ps_tick s)) (sm_RetryableFailureFraction m) then
        (let code = transient_codes ! nat (pe_int E (Suc (ps_tick s)) 3)
         in (Inl (NewError code ''simulated stripe transient failure'' True), pstep (pstep s)))
      else if fless (pe_float E (Suc (ps_tick s))) (sm_DeclinedFraction m) then
        (Inr (Some \<lparr>c_PSPReferenceID = [], c_Status = ChargeStatusDeclined,
           c_RawResponse = stripe_declined_raw\<rparr>),
         pstep (pstep s))
      else (Inl (NewError CodeInsufficientFunds ''simulated insufficient funds'' False), pstep (pstep s)))"

text \<open>
  Raw responses: the keys of a marshalled Go map come out sorted. The currency is one of the
  supported codes here, so lowering its ASCII letters is \<open>strings.ToLower\<close>.
\<close>

definition stripe_charge_raw :: "charge_request \<Rightarrow> string \<Rightarrow> string \<Rightarrow> json" where
  "stripe_charge_raw req cur refID =
     JObj [(''amount'', JInt (q_Amount req)), (''captured'', JBool True),
       (''currency'', JStr (map ascii_lower cur)), (''id'', JStr refID),
       (''object'', JStr ''charge''), (''status'', JStr ''succeeded'')]"

definition stripe_refund_raw :: "psp_refund_request \<Rightarrow> string \<Rightarrow> string \<Rightarrow> json" where
  "stripe_refund_raw req cur refundID =
     JObj [(''amount'', JInt (f_Amount req)), (''charge'', JStr (f_PSPReferenceID req)),
       (''currency'', JStr (map ascii_lower cur)), (''id'', JStr refundID),
       (''object'', JStr ''refund''), (''status'', JStr ''succeeded'')]"

definition StripeMock_Charge :: "psp_env \<Rightarrow> (string \<Rightarrow> string) \<Rightarrow> (string \<Rightarrow> string) \<Rightarrow> stripe_config
    \<Rightarrow> charge_request \<Rightarrow> 'b psp_state \<Rightarrow> charge_response option result \<times> 'b psp_state" where
  "StripeMock_Charge E U Q m req s =
     (case sleepStripeMock E (sm_MinLatency m) (sm_MaxLatency m) s of
        (Inl e, s1) \<Rightarrow> (Inl e, s1)
      | (Inr _, s1) \<Rightarrow>
          (let cur = ToUpper U (TrimSpace (q_Currency req)) in
           if cur \<notin> set stripeSupportedCurrencies then
             (Inl (NewError CodeInvalidRequest
                (''unsupported currency for stripe mock: '' @ Quote Q (q_Currency req)) False), s1)
           else if fless (pe_float E (ps_tick s1)) (sm_ChargeFailureRate m) then
             stripe_simulateChargeFailure E m (pstep s1)
           else
             (case newStripeChargeID E (pstep s1) of
                (refID, s2) \<Rightarrow>
                  (Inr (Some \<lparr>c_PSPReferenceID = refID, c_Status = ChargeStatusCaptured,
                     c_RawResponse = stripe_charge_raw req cur refID\<rparr>), s2))))"

definition StripeMock_Refund :: "psp_env \<Rightarrow> (string \<Rightarrow> string) \<Rightarrow> (string \<Rightarrow> string) \<Rightarrow> stripe_config
    \<Rightarrow> psp_refund_request \<Rightarrow> 'b psp_state \<Rightarrow> psp_refund_response option result \<times> 'b psp_state" where
  "StripeMock_Refund E U Q m req s =
     (case sleepStripeMock E (sm_MinLatency m) (sm_MaxLatency m) s of
        (Inl e, s1) \<Rightarrow> (Inl e, s1)
      | (Inr _, s1) \<Rightarrow>
          (let cur = ToUpper U (TrimSpace (f_Currency req)) in
           if cur \<notin> set stripeSupportedCurrencies then
             (Inl (NewError CodeInvalidRequest
                (''unsupported currency for stripe mock: '' @ Quote Q (f_Currency req)) False), s1)
           else if fless (pe_float E (ps_tick s1)) (sm_RefundFailureRate m) then
             (if fless (pe_float E (Suc (ps_tick s1))) (Fin (1 / 2)) then
                (Inl (NewError CodeNetworkError ''simulated stripe refund transient failure'' True), pstep (pstep s1))
              else (Inl (NewError CodeInvalidRequest ''simulated stripe refund rejected'' False), pstep (pstep s1)))
           else
             (case newStripeRefundID E (pstep s1) of
                (refundID, s2) \<Rightarrow>
                  (Inr (Some \<lparr>g_PSPRefundID = refundID, g_Status = RefundStatusSucceeded,
                     g_RawResponse = stripe_refund_raw req cur refundID\<rparr>), s2))))"

definition StripeMock :: "psp_env \<Rightarrow> (string \<Rightarrow> string) \<Rightarrow> (string \<Rightarrow> string) \<Rightarrow> stripe_config \<Rightarrow> 'b psp_state adapter" where
  "StripeMock E U Q m = \<lparr>a_Name = stripeMockName, a_Charge = StripeMock_Charge E U Q m, a_Refund = StripeMock_Refund E U Q m\<rparr>"

section \<open>Razorpay\<close>

definition razorpayMockName :: string where "razorpayMockName = ''razorpay_mock''"

definition razorpaySupportedCurrencies :: "string list" where
  "razorpaySupportedCurrencies = [''INR'']"

record razorpay_config =
  rz_MinLatency :: duration
  rz_MaxLatency :: duration
  rz_ChargeFailureRate :: gofloat
  rz_RefundFailureRate :: gofloat
  rz_RetryableFailureFraction :: gofloat
  rz_DeclinedFraction :: gofloat

definition DefaultRazorpayMockConfig :: razorpay_config where
  "DefaultRazorpayMockConfig =
     \<lparr>rz_MinLatency = 0, rz_MaxLatency = 0, rz_ChargeFailureRate = Fin 0, rz_RefundFailureRate = Fin 0,
      rz_RetryableFailureFraction = Fin (4 / 10), rz_DeclinedFraction = Fin (7 / 10)\<rparr>"

definition NewRazorpayMock :: "razorpay_config \<Rightarrow> razorpay_config" where
  "NewRazorpayMock c0 =
     (let c1 = c0\<lparr>rz_ChargeFailureRate := clamp01 (rz_ChargeFailureRate c0),
                  rz_RefundFailureRate := clamp01 (rz_RefundFailureRate c0),
                  rz_RetryableFailureFraction := clamp01 (rz_RetryableFailureFraction c0),
                  rz_DeclinedFraction := clamp01 (rz_DeclinedFraction c0)\<rparr>;
          c2 = (if rz_MinLatency c1 < 0 then c1\<lparr>rz_MinLatency := 0\<rparr> else c1);
          c3 = (if rz_MaxLatency c2 < 0 then c2\<lparr>rz_MaxLatency := 0\<rparr> else c2);
          c4 = (if rz_MaxLatency c3 < rz_MinLatency c3 then c3\<lparr>rz_MaxLatency := rz_MinLatency c3\<rparr> else c3)
      in c4)"

definition newRazorpayPaymentID :: "psp_env \<Rightarrow> 'b psp_state \<Rightarrow> string \<times> 'b psp_state" where
  "newRazorpayPaymentID E s = (case random_suffix E 14 s of (x, s') \<Rightarrow> (''pay_'' @ x, s'))"

definition newRazorpayOrderID :: "psp_env \<Rightarrow> 'b psp_state \<Rightarrow> string \<times> 'b psp_state" where
  "newRazorpayOrderID E s = (case random_suffix E 14 s of (x, s') \<Rightarrow> (''order_'' @ x, s'))"

definition newRazorpayRefundID :: "psp_env \<Rightarrow> 'b psp_state \<Rightarrow> string \<times> 'b psp_state" where
  "newRazorpayRefundID E s = (case random_suffix E 14 s of (x, s') \<Rightarrow> (''rfnd_'' @ x, s'))"

definition razorpay_declined_raw :: json where
  "razorpay_declined_raw =
     JObj [(''error'', JObj [(''code'', JStr ''BAD_REQUEST_ERROR''),
       (''description'', JStr ''Payment failed''), (''reason'', JStr ''payment_failed''),
       (''source'', JStr ''customer''), (''step'', JStr ''payment_authorization'')])]"

definition razorpay_charge_raw :: "charge_request \<Rightarrow> string \<Rightarrow> string \<Rightarrow> json" where
  "razorpay_charge_raw req payID orderID =
     JObj [(''amount'', JInt (q_Amount req)), (''captured'', JBool True),
       (''currency'', JStr ''INR''), (''description'', JStr ''mock razorpay capture''),
       (''entity'', JStr ''payment''), (''id'', JStr payID), (''method'', JStr ''card''),
       (''order_id'', JStr orderID), (''status'', JStr ''captured'')]"

definition razorpay_refund_raw :: "psp_refund_request \<Rightarrow> string \<Rightarrow> json" where
  "razorpay_refund_raw req refundID =
     JObj [(''amount'', JInt (f_Amount req)), (''currency'', JStr ''INR''),
       (''entity'', JStr ''refund''), (''id'', JStr refundID), (''notes'', JObj []),
       (''payment_id'', JStr (f_PSPReferenceID req)), (''status'', JStr ''processed'')]"

definition razorpay_simulateChargeFailure :: "psp_env \<Rightarrow> razorpay_config \<Rightarrow> 'b psp_state
    \<Rightarrow> charge_response option result \<times> 'b psp_state" where
  "razorpay_simulateChargeFailure E m s =
     (if fless (pe_float E (ps_tick s)) (rz_RetryableFailureFraction m) then
        (let code = transient_codes ! nat (pe_int E (Suc (ps_tick s)) 3)
         in (Inl (NewError code ''simulated razorpay transient failure'' True), pstep (pstep s)))
      else if fless (pe_float E (Suc (ps_tick s))) (rz_DeclinedFraction m) then
        (Inr (Some \<lparr>c_PSPReferenceID = [], c_Status = ChargeStatusDeclined,
           c_RawResponse = razorpay_declined_raw\<rparr>),
         pstep (pstep s))
      else (Inl (NewError CodeInsufficientFunds ''simulated insufficient funds'' False), pstep (pstep s)))"

definition RazorpayMock_Charge :: "psp_env \<Rightarrow> (string \<Rightarrow> string) \<Rightarrow> (string \<Rightarrow> string) \<Rightarrow> razorpay_config
    \<Rightarrow> charge_request \<Rightarrow> 'b psp_state \<Rightarrow> charge_response option result \<times> 'b psp_state" where
  "RazorpayMock_Charge E U Q m req s =
     (case sleepStripeMock E (rz_MinLatency m) (rz_MaxLatency m) s of
        (Inl e, s1) \<Rightarrow> (Inl e, s1)
      | (Inr _, s1) \<Rightarrow>
          (let cur = ToUpper U (TrimSpace (q_Currency req)) in
           if cur \<notin> set razorpaySupportedCurrencies then
             (Inl (NewError CodeInvalidRequest
                (''unsupported currency for razorpay mock (INR only): '' @ Quote Q (q_Currency req)) False), s1)
           else if fless (pe_float E (ps_tick s1)) (rz_ChargeFailureRate m) then
             razorpay_simulateChargeFailure E m (pstep s1)
           else
             (case newRazorpayPaymentID E (pstep s1) of
                (payID, s2) \<Rightarrow>
                  (case newRazorpayOrderID E s2 of
                     (orderID, s3) \<Rightarrow>
                       (Inr (Some \<lparr>c_PSPReferenceID = payID, c_Status = ChargeStatusCaptured,
                          c_RawResponse = razorpay_charge_raw req payID orderID\<rparr>), s3)))))"

definition RazorpayMock_Refund :: "psp_env \<Rightarrow> (string \<Rightarrow> string) \<Rightarrow> (string \<Rightarrow> string) \<Rightarrow> razorpay_config
    \<Rightarrow> psp_refund_request \<Rightarrow> 'b psp_state \<Rightarrow> psp_refund_response option result \<times> 'b psp_state" where
  "RazorpayMock_Refund E U Q m req s =
     (case sleepStripeMock E (rz_MinLatency m) (rz_MaxLatency m) s of
        (Inl e, s1) \<Rightarrow> (Inl e, s1)
      | (Inr _, s1) \<Rightarrow>
          (let cur = ToUpper U (TrimSpace (f_Currency req)) in
           if cur \<notin> set razorpaySupportedCurrencies then
             (Inl (NewError CodeInvalidRequest
                (''unsupported currency for razorpay mock (INR only): '' @ Quote Q (f_Currency req)) False), s1)
           else if fless (pe_float E (ps_tick s1)) (rz_RefundFailureRate m) then
             (if fless (pe_float E (Suc (ps_tick s1))) (Fin (1 / 2)) then
                (Inl (NewError CodeNetworkError ''simulated razorpay refund transient failure'' True), pstep (pstep s1))
              else (Inl (NewError CodeInvalidRequest ''simulated razorpay refund rejected'' False), pstep (pstep s1)))
           else
             (case newRazorpayRefundID E (pstep s1) of
                (refundID, s2) \<Rightarrow>
                  (Inr (Some \<lparr>g_PSPRefundID = refundID, g_Status = RefundStatusSucceeded,
                     g_RawResponse = razorpay_refund_raw req refundID\<rparr>), s2))))"

definition RazorpayMock :: "psp_env \<Rightarrow> (string \<Rightarrow> string) \<Rightarrow> (string \<Rightarrow> string) \<Rightarrow> razorpay_config \<Rightarrow> 'b psp_state adapter" where
  "RazorpayMock E U Q m = \<lparr>a_Name = razorpayMockName, a_Charge = RazorpayMock_Charge E U Q m, a_Refund = RazorpayMock_Refund E U Q m\<rparr>"

section \<open>Lemmas on the mocks\<close>

lemma NewStripeMock_norm:
  "0 \<le> sm_MinLatency (NewStripeMock c)" "sm_MinLatency (NewStripeMock c) \<le> sm_MaxLatency (NewStripeMock c)"
  by (simp_all add: NewStripeMock_def Let_def)

lemma NewRazorpayMock_norm:
  "0 \<le> rz_MinLatency (NewRazorpayMock c)" "rz_MinLatency (NewRazorpayMock c) \<le> rz_MaxLatency (NewRazorpayMock c)"
  by (simp_all add: NewRazorpayMock_def Let_def)

lemma latency_cases:
  assumes "0 \<le> minD" "minD \<le> maxD"
  shows "stripeMockLatency E minD maxD s =
    (if minD = maxD then (Inr minD, s) else (Inr (minD + pe_int E (ps_tick s) (maxD - minD)), pstep s))"
  using assms by (simp add: stripeMockLatency_def Let_def)

text \<open>After the constructors, sleeping succeeds or fails with the context's error.\<close>

lemma sleep_cases:
  assumes "0 \<le> minD" "minD \<le> maxD"
  shows "\<exists>s'. sleepStripeMock E minD maxD s = (Inr (), s') \<or>
    (\<exists>e. sleepStripeMock E minD maxD s = (Inl (Sentinel e), s'))"
  unfolding sleepStripeMock_def latency_cases [OF assms] by (auto split: option.splits)

lemmas stripe_sleep = sleep_cases [OF NewStripeMock_norm]
lemmas razorpay_sleep = sleep_cases [OF NewRazorpayMock_norm]

text \<open>The ways a charge of a mock can end.\<close>

definition charge_ends :: "psp_env \<Rightarrow> charge_response option result \<Rightarrow> bool" where
  "charge_ends E r \<longleftrightarrow>
     (\<exists>e. r = Inl (Sentinel e)) \<or>
     (\<exists>code msg. r = Inl (PSPError code msg False) \<and> (code = CodeInvalidRequest \<or> code = CodeInsufficientFunds)) \<or>
     (\<exists>t msg. r = Inl (PSPError (transient_codes ! nat (pe_int E t 3)) msg True)) \<or>
     (\<exists>resp. r = Inr (Some resp) \<and> c_Status resp = ChargeStatusCaptured) \<or>
     (\<exists>resp. r = Inr (Some resp) \<and> c_Status resp = ChargeStatusDeclined)"

lemma charge_endsI:
  "charge_ends E (Inl (Sentinel e))"
  "charge_ends E (Inl (NewError CodeInvalidRequest msg False))"
  "charge_ends E (Inl (NewError CodeInsufficientFunds msg False))"
  "charge_ends E (Inl (NewError (transient_codes ! nat (pe_int E t 3)) msg True))"
  "charge_ends E (Inr (Some \<lparr>c_PSPReferenceID = x, c_Status = ChargeStatusCaptured, c_RawResponse = j\<rparr>))"
  "charge_ends E (Inr (Some \<lparr>c_PSPReferenceID = x, c_Status = ChargeStatusDeclined, c_RawResponse = j\<rparr>))"
  unfolding charge_ends_def NewError_def by force+

lemma stripe_charge_ends: "charge_ends E (fst (StripeMock_Charge E U Q (NewStripeMock c) req s))"
  using stripe_sleep [of E c s]
  by (elim exE disjE)
    (simp_all add: StripeMock_Charge_def stripe_simulateChargeFailure_def Let_def charge_endsI split: prod.splits)

lemma razorpay_charge_ends: "charge_ends E (fst (RazorpayMock_Charge E U Q (NewRazorpayMock c) req s))"
  using razorpay_sleep [of E c s]
  by (elim exE disjE)
    (simp_all add: RazorpayMock_Charge_def razorpay_simulateChargeFailure_def Let_def charge_endsI split: prod.splits)

lemma charge_ends_answer:
  "charge_ends E (Inr r) \<Longrightarrow> \<exists>resp. r = Some resp \<and> c_Status resp \<in> {ChargeStatusCaptured, ChargeStatusDeclined}"
  by (auto simp: charge_ends_def)

lemma charge_ends_no_panic: "\<not> charge_ends E (Inl (GoPanic m))"
  by (simp add: charge_ends_def)

text \<open>An error of a mock charge: the context's, or a PSP error with its retry flag.\<close>

definition mock_error :: "go_error \<Rightarrow> bool" where
  "mock_error e \<longleftrightarrow> (\<exists>x. e = Sentinel x) \<or>
     (\<exists>code msg retryable. e = PSPError code msg retryable \<and> (retryable \<longrightarrow> code \<in> set transient_codes) \<and>
        (\<not> retryable \<longrightarrow> code = CodeInvalidRequest \<or> code = CodeInsufficientFunds))"

lemma transient_code: "rand_ok E \<Longrightarrow> transient_codes ! nat (pe_int E t 3) \<in> set transient_codes"
proof (rule nth_mem)
  assume "rand_ok E"
  then have "pe_int E t 3 < 3" by (simp add: rand_ok_def)
  then show "nat (pe_int E t 3) < length transient_codes" by (simp add: transient_codes_def)
qed

lemma charge_ends_error: "rand_ok E \<Longrightarrow> charge_ends E (Inl e) \<Longrightarrow> mock_error e"
  using transient_code [of E] unfolding charge_ends_def mock_error_def by blast

interpretation stripe: psp_provider "StripeMock_Charge E U Q (NewStripeMock c)" for E U Q c
proof unfold_locales
  fix req :: charge_request and s :: "'b psp_state" and r m
  note ends = stripe_charge_ends [of E U Q c req s]
  show "fst (StripeMock_Charge E U Q (NewStripeMock c) req s) = Inr r \<Longrightarrow>
      \<exists>resp. r = Some resp \<and> c_Status resp \<in> {ChargeStatusCaptured, ChargeStatusAuthorized,
        ChargeStatusDeclined, ChargeStatusError}"
    using ends charge_ends_answer [of E r] by auto
  show "fst (StripeMock_Charge E U Q (NewStripeMock c) req s) \<noteq> Inl (GoPanic m)"
    using ends charge_ends_no_panic [of E m] by metis
qed

interpretation razorpay: psp_provider "RazorpayMock_Charge E U Q (NewRazorpayMock c)" for E U Q c
proof unfold_locales
  fix req :: charge_request and s :: "'b psp_state" and r m
  note ends = razorpay_charge_ends [of E U Q c req s]
  show "fst (RazorpayMock_Charge E U Q (NewRazorpayMock c) req s) = Inr r \<Longrightarrow>
      \<exists>resp. r = Some resp \<and> c_Status resp \<in> {ChargeStatusCaptured, ChargeStatusAuthorized,
        ChargeStatusDeclined, ChargeStatusError}"
    using ends charge_ends_answer [of E r] by auto
  show "fst (RazorpayMock_Charge E U Q (NewRazorpayMock c) req s) \<noteq> Inl (GoPanic m)"
    using ends charge_ends_no_panic [of E m] by metis
qed

section \<open>Properties of the mocks\<close>

definition calm_psp :: psp_env where
  "calm_psp = \<lparr>pe_float = \<lambda>_. Fin 0, pe_int = \<lambda>_ _. 0, pe_sleep = \<lambda>_. None\<rparr>"

lemma rand_ok_calm: "rand_ok calm_psp"
  by (simp add: rand_ok_def calm_psp_def)

definition psp_start :: "unit psp_state" where
  "psp_start = \<lparr>ps_tick = 0, ps_obs = [], ps_breaker = \<lambda>_. ()\<rparr>"

text \<open>
  The latency a mock draws after its constructor never panics and is fixed when the two
  bounds agree; otherwise it is at least \<open>MinLatency\<close> and strictly below \<open>MaxLatency\<close>, which is
  therefore never reached, also when only \<open>MaxLatency\<close> was set.
\<close>

theorem mock_latency_bounds:
  assumes "rand_ok E" and "m = NewStripeMock c"
  shows "\<exists>d s'. stripeMockLatency E (sm_MinLatency m) (sm_MaxLatency m) s = (Inr d, s') \<and>
    sm_MinLatency m \<le> d \<and> d \<le> sm_MaxLatency m \<and>
    (sm_MinLatency m < sm_MaxLatency m \<longrightarrow> d < sm_MaxLatency m)"
proof -
  have "0 \<le> sm_MinLatency m" "sm_MinLatency m \<le> sm_MaxLatency m"
    unfolding assms(2) by (rule NewStripeMock_norm)+
  moreover have "0 \<le> pe_int E t n \<and> pe_int E t n < n" if "0 < n" for t n
    using assms(1) that by (simp add: rand_ok_def)
  from this [of "sm_MaxLatency m - sm_MinLatency m" "ps_tick s"]
  have "sm_MinLatency m < sm_MaxLatency m \<Longrightarrow>
      0 \<le> pe_int E (ps_tick s) (sm_MaxLatency m - sm_MinLatency m) \<and>
      pe_int E (ps_tick s) (sm_MaxLatency m - sm_MinLatency m) < sm_MaxLatency m - sm_MinLatency m"
    by simp
  ultimately show ?thesis by (cases "sm_MinLatency m = sm_MaxLatency m") (auto simp: latency_cases)
qed

theorem mock_latency_bounds_witness:
  "stripeMockLatency calm_psp 0 (5 * Millisecond) psp_start = (Inr 0, pstep psp_start) \<and>
   (let m = NewStripeMock (DefaultStripeMockConfig\<lparr>sm_MaxLatency := 5 * Millisecond\<rparr>) in
    \<exists>d s'. stripeMockLatency calm_psp (sm_MinLatency m) (sm_MaxLatency m) psp_start = (Inr d, s') \<and> d < 5 * Millisecond)"
  using mock_latency_bounds [OF rand_ok_calm refl,
      of "DefaultStripeMockConfig\<lparr>sm_MaxLatency := 5 * Millisecond\<rparr>" psp_start]
  by (auto simp: NewStripeMock_def DefaultStripeMockConfig_def Millisecond_def stripeMockLatency_def calm_psp_def Let_def)

text \<open>
  With their default configuration the two mocks capture every charge in a currency they
  support, with a reference of their own format, and refuse every other currency as an
  invalid request that is not to be retried.
\<close>

theorem default_mocks_capture:
  assumes "rand_ok E"
  shows "(if ToUpper U (TrimSpace (q_Currency req)) \<in> set stripeSupportedCurrencies
      then \<exists>resp. fst (StripeMock_Charge E U Q (NewStripeMock DefaultStripeMockConfig) req s) = Inr (Some resp)
        \<and> c_Status resp = ChargeStatusCaptured \<and> length (c_PSPReferenceID resp) = 27 \<and> take 3 (c_PSPReferenceID resp) = ''ch_''
      else \<exists>msg. StripeMock_Charge E U Q (NewStripeMock DefaultStripeMockConfig) req s
        = (Inl (PSPError CodeInvalidRequest msg False), s)) \<and>
    (if ToUpper U (TrimSpace (q_Currency req)) \<in> set razorpaySupportedCurrencies
      then \<exists>resp. fst (RazorpayMock_Charge E U Q (NewRazorpayMock DefaultRazorpayMockConfig) req s) = Inr (Some resp)
        \<and> c_Status resp = ChargeStatusCaptured \<and> length (c_PSPReferenceID resp) = 18 \<and> take 4 (c_PSPReferenceID resp) = ''pay_''
      else \<exists>msg. RazorpayMock_Charge E U Q (NewRazorpayMock DefaultRazorpayMockConfig) req s
        = (Inl (PSPError CodeInvalidRequest msg False), s))"
proof -
  have never: "\<not> fless (pe_float E t) (clamp01 (Fin 0))" for t
  proof -
    obtain x where "pe_float E t = Fin x" "0 \<le> x" using assms unfolding rand_ok_def by blast
    then show ?thesis by (simp add: clamp01_def)
  qed
  have stripe_default: "sleepStripeMock E 0 0 s = (Inr (), s)"
    by (simp add: sleepStripeMock_def stripeMockLatency_def)
  have len: "length (fst (random_suffix E n s)) = n" for n and s :: "'a psp_state"
    by (rule random_suffix_length)
  show ?thesis
    unfolding StripeMock_Charge_def RazorpayMock_Charge_def NewStripeMock_def NewRazorpayMock_def
      DefaultStripeMockConfig_def DefaultRazorpayMockConfig_def
    by (simp add: never stripe_default newStripeChargeID_def newRazorpayPaymentID_def newRazorpayOrderID_def
        NewError_def Let_def prod.case_eq_if len)
qed

theorem default_mocks_capture_witness:
  "\<exists>resp. fst (StripeMock_Charge calm_psp id id (NewStripeMock DefaultStripeMockConfig)
      \<lparr>q_PaymentID = 1, q_Amount = 100, q_Currency = ''USD'', q_IdempotencyKey = ''k''\<rparr> psp_start) = Inr (Some resp)
    \<and> c_Status resp = ChargeStatusCaptured"
  using default_mocks_capture [OF rand_ok_calm, where U = id and Q = id and s = psp_start and
      req = "\<lparr>q_PaymentID = 1, q_Amount = 100, q_Currency = ''USD'', q_IdempotencyKey = ''k''\<rparr>"]
  by (auto simp: stripeSupportedCurrencies_def)

text \<open>
  Whatever its configuration, a mock's charge ends in one of the documented ways: a
  captured or declined response, the error of the context, a PSP error marked retryable with
  one of the three transient codes, or a PSP error not marked so with the code of an invalid
  request or of insufficient funds. It never panics.
\<close>

theorem mock_charge_outcomes:
  assumes "rand_ok E"
    and "r \<in> {fst (StripeMock_Charge E U Q (NewStripeMock c) req s),
               fst (RazorpayMock_Charge E U Q (NewRazorpayMock d) req s)}"
  shows "case r of
      Inr resp \<Rightarrow> \<exists>x. resp = Some x \<and> c_Status x \<in> {ChargeStatusCaptured, ChargeStatusDeclined}
    | Inl e \<Rightarrow> mock_error e \<and> (\<forall>m. e \<noteq> GoPanic m)"
proof -
  have ends: "charge_ends E r"
    using assms(2) stripe_charge_ends [of E U Q c req s] razorpay_charge_ends [of E U Q d req s] by blast
  show ?thesis
  proof (cases r)
    case (Inl e)
    with ends assms(1) show ?thesis
      using charge_ends_error [of E e] charge_ends_no_panic [of E] by auto
  next
    case (Inr x)
    with ends show ?thesis using charge_ends_answer [of E x] by simp
  qed
qed

theorem mock_charge_outcomes_witness:
  "rand_ok calm_psp \<and> (case fst (StripeMock_Charge calm_psp id id
      (NewStripeMock (DefaultStripeMockConfig\<lparr>sm_ChargeFailureRate := Fin 1\<rparr>))
      \<lparr>q_PaymentID = 1, q_Amount = 100, q_Currency = ''USD'', q_IdempotencyKey = ''k''\<rparr> psp_start) of
     Inr resp \<Rightarrow> \<exists>x. resp = Some x \<and> c_Status x \<in> {ChargeStatusCaptured, ChargeStatusDeclined}
   | Inl e \<Rightarrow> mock_error e \<and> (\<forall>m. e \<noteq> GoPanic m))"
  using mock_charge_outcomes [OF rand_ok_calm insertI1, where U = id and Q = id and s = psp_start
      and c = "DefaultStripeMockConfig\<lparr>sm_ChargeFailureRate := Fin 1\<rparr>"
      and req = "\<lparr>q_PaymentID = 1, q_Amount = 100, q_Currency = ''USD'', q_IdempotencyKey = ''k''\<rparr>"]
    rand_ok_calm
  by simp

end
