(* ===== verification/Circuit_Breaker.thy ===== *)
theory Circuit_Breaker
  imports Psp_Mocks Retry
begin

text \<open>
  The circuit-breaker adapter (\<open>internal/psp/circuit_breaker.go\<close>). The breaker itself is the
  package \<open>gobreaker\<close>: its constructor, its method \<open>Execute\<close> and the names of its states are
  parameters (\<open>newb\<close>, \<open>exec\<close>, \<open>str\<close>), and \<open>breaker_ok\<close> states the documented behaviour of
  \<open>Execute\<close>: it runs the request once and returns its result, or rejects it at once with one of
  its two errors, and tells \<open>OnStateChange\<close> about its changes of state before and after.
  \<open>Execute\<close> returns an \<open>interface{}\<close>, so its results carry their dynamic type.
\<close>

datatype dynamic = DynCharge "charge_response option" | DynRefund "psp_refund_response option"

record breaker_counts =
  Requests :: nat
  TotalSuccesses :: nat
  TotalFailures :: nat
  ConsecutiveSuccesses :: nat
  ConsecutiveFailures :: nat

datatype breaker_st = StateClosed | StateHalfOpen | StateOpen | StateOther

record 'b breaker_settings =
  bs_Name :: string
  bs_MaxRequests :: nat
  bs_Interval :: duration
  bs_Timeout :: duration
  bs_ReadyToTrip :: "breaker_counts \<Rightarrow> bool"
  bs_OnStateChange :: "string \<Rightarrow> breaker_st \<Rightarrow> breaker_st \<Rightarrow> 'b psp_state \<Rightarrow> 'b psp_state"

definition circuitStateValue :: "breaker_st \<Rightarrow> int" where
  "circuitStateValue st =
     (case st of StateClosed \<Rightarrow> 0 | StateHalfOpen \<Rightarrow> 1 | StateOpen \<Rightarrow> 2 | StateOther \<Rightarrow> - 1)"

text \<open>The callback \<open>OnStateChange\<close> logs the change and publishes the new state on the gauge.\<close>

definition OnStateChange :: "(breaker_st \<Rightarrow> string) \<Rightarrow> string \<Rightarrow> breaker_st \<Rightarrow> breaker_st \<Rightarrow> 'b psp_state \<Rightarrow> 'b psp_state" where
  "OnStateChange str name from to s =
     s\<lparr>ps_obs := ps_obs s @
         [LogLine ''info'' [(''psp'', name), (''from'', str from), (''to'', str to)] ''circuit breaker state change'',
          SetGauge ''payflow_psp_circuit_state'' [name] (circuitStateValue to)]\<rparr>"

definition breaker_settings_for :: "(breaker_st \<Rightarrow> string) \<Rightarrow> string \<Rightarrow> 'b breaker_settings" where
  "breaker_settings_for str pspName =
     \<lparr>bs_Name = pspName, bs_MaxRequests = 3, bs_Interval = 60 * Second, bs_Timeout = 30 * Second,
      bs_ReadyToTrip = (\<lambda>counts. ConsecutiveFailures counts \<ge> 5), bs_OnStateChange = OnStateChange str\<rparr>"

text \<open>The constructor publishes the closed state and installs a new breaker under the PSP's name.\<close>

definition NewCircuitBreakerAdapter :: "(breaker_st \<Rightarrow> string) \<Rightarrow> ('b breaker_settings \<Rightarrow> 'b) \<Rightarrow> 'b psp_state adapter
    \<Rightarrow> 'b psp_state \<Rightarrow> 'b psp_state" where
  "NewCircuitBreakerAdapter str newb adapter s =
     (let pspName = a_Name adapter;
          s1 = s\<lparr>ps_obs := ps_obs s @ [SetGauge ''payflow_psp_circuit_state'' [pspName] (circuitStateValue StateClosed)]\<rparr>
      in s1\<lparr>ps_breaker := (ps_breaker s1)(pspName := newb (breaker_settings_for str pspName))\<rparr>)"

definition classifyOutcome :: "go_error option \<Rightarrow> string" where
  "classifyOutcome err =
     (case err of
        None \<Rightarrow> ''success''
      | Some e \<Rightarrow>
          if psp_IsRetryable e \<or> errors_Is e ErrOpenState \<or> errors_Is e ErrTooManyRequests
          then ''retryable_error'' else ''nonretryable_error'')"

type_synonym 'b breaker_exec =
  "'b \<Rightarrow> ('b psp_state \<Rightarrow> dynamic result \<times> 'b psp_state) \<Rightarrow> 'b psp_state \<Rightarrow> dynamic result \<times> 'b \<times> 'b psp_state"

text \<open>The callback of a breaker has been called some number of times.\<close>

definition changed :: "'b psp_state \<Rightarrow> 'b psp_state \<Rightarrow> bool" where
  "changed s s' \<longleftrightarrow> (\<exists>str name cs. s' = fold (\<lambda>(from, to). OnStateChange str name from to) cs s)"

definition breaker_ok :: "'b breaker_exec \<Rightarrow> bool" where
  "breaker_ok exec \<longleftrightarrow>
     (\<forall>b f s. \<exists>s1 b'. changed s s1 \<and>
        ((\<exists>e. (e = ErrOpenState \<or> e = ErrTooManyRequests) \<and> exec b f s = (Inl (Sentinel e), b', s1)) \<or>
         (\<exists>s2. changed (snd (f s1)) s2 \<and> exec b f s = (fst (f s1), b', s2))))"

text \<open>
  \<open>Execute\<close> on the breaker of this adapter; the state keeps the breaker under the PSP's name.
\<close>

definition breaker_Execute :: "'b breaker_exec \<Rightarrow> string \<Rightarrow> ('b psp_state \<Rightarrow> dynamic result \<times> 'b psp_state)
    \<Rightarrow> 'b psp_state \<Rightarrow> dynamic result \<times> 'b psp_state" where
  "breaker_Execute exec name f s =
     (case exec (ps_breaker s name) f s of
        (r, b', s') \<Rightarrow> (r, s'\<lparr>ps_breaker := (ps_breaker s')(name := b')\<rparr>))"

definition record_attempt :: "string \<Rightarrow> string \<Rightarrow> string \<Rightarrow> 'b psp_state \<Rightarrow> 'b psp_state" where
  "record_attempt name op outcome s =
     s\<lparr>ps_obs := ps_obs s @ [Inc ''payflow_psp_attempts_total'' [name, op, outcome],
                             Observe ''payflow_payment_latency_seconds'' [name]]\<rparr>"

text \<open>A panic of the request passes through \<open>Execute\<close>; the code after it does not run.\<close>

definition CB_Charge :: "'b breaker_exec \<Rightarrow> 'b psp_state adapter \<Rightarrow> charge_request \<Rightarrow> 'b psp_state
    \<Rightarrow> charge_response option result \<times> 'b psp_state" where
  "CB_Charge exec adapter req s =
     (case breaker_Execute exec (a_Name adapter)
             (\<lambda>s. case a_Charge adapter req s of (r, s') \<Rightarrow> (map_sum id DynCharge r, s')) s of
        (Inl (GoPanic m), s1) \<Rightarrow> (Inl (GoPanic m), s1)
      | (Inl err, s1) \<Rightarrow>
          (Inl err, record_attempt (a_Name adapter) ''charge'' (classifyOutcome (Some err)) s1)
      | (Inr result, s1) \<Rightarrow>
          (let s2 = record_attempt (a_Name adapter) ''charge'' (classifyOutcome None) s1 in
           case result of
             DynCharge resp \<Rightarrow> (Inr resp, s2)
           | DynRefund _ \<Rightarrow> (Inl (GoPanic ''interface conversion''), s2)))"

definition CB_Refund :: "'b breaker_exec \<Rightarrow> 'b psp_state adapter \<Rightarrow> psp_refund_request \<Rightarrow> 'b psp_state
    \<Rightarrow> psp_refund_response option result \<times> 'b psp_state" where
  "CB_Refund exec adapter req s =
     (case breaker_Execute exec (a_Name adapter)
             (\<lambda>s. case a_Refund adapter req s of (r, s') \<Rightarrow> (map_sum id DynRefund r, s')) s of
        (Inl (GoPanic m), s1) \<Rightarrow> (Inl (GoPanic m), s1)
      | (Inl err, s1) \<Rightarrow>
          (Inl err, record_attempt (a_Name adapter) ''refund'' (classifyOutcome (Some err)) s1)
      | (Inr result, s1) \<Rightarrow>
          (let s2 = record_attempt (a_Name adapter) ''refund'' (classifyOutcome None) s1 in
           case result of
             DynRefund resp \<Rightarrow> (Inr resp, s2)
           | DynCharge _ \<Rightarrow> (Inl (GoPanic ''interface conversion''), s2)))"

definition CircuitBreakerAdapter :: "'b breaker_exec \<Rightarrow> 'b psp_state adapter \<Rightarrow> 'b psp_state adapter" where
  "CircuitBreakerAdapter exec adapter =
     \<lparr>a_Name = a_Name adapter, a_Charge = CB_Charge exec adapter, a_Refund = CB_Refund exec adapter\<rparr>"

section \<open>Transparency\<close>

lemma changed_refl [simp]: "changed s s"
  unfolding changed_def by (intro exI [of _ "[]"] exI) simp

lemma changed_tick: "changed s s' \<Longrightarrow> ps_tick s' = ps_tick s"
proof -
  have "ps_tick (fold (\<lambda>(from, to). OnStateChange str name from to) cs v) = ps_tick v" for str name cs and v :: "'b psp_state"
    by (induction cs arbitrary: v) (auto simp: OnStateChange_def)
  then show "changed s s' \<Longrightarrow> ps_tick s' = ps_tick s" by (auto simp: changed_def)
qed

lemma breaker_ok_cases:
  assumes "breaker_ok exec"
  obtains (reject) s1 e b' where "changed s s1" "e = ErrOpenState \<or> e = ErrTooManyRequests"
      "exec b f s = (Inl (Sentinel e), b', s1)"
  | (run) s1 b' s2 where "changed s s1" "changed (snd (f s1)) s2" "exec b f s = (fst (f s1), b', s2)"
  using assms unfolding breaker_ok_def by metis

text \<open>The result of a charge through the breaker.\<close>

lemma CB_Charge_result:
  assumes "breaker_ok exec"
  shows "(\<exists>s1. fst (CB_Charge exec a req s) = fst (a_Charge a req s1)) \<or>
    (\<exists>e. (e = ErrOpenState \<or> e = ErrTooManyRequests) \<and> fst (CB_Charge exec a req s) = Inl (Sentinel e))"
  using assms
proof (cases rule: breaker_ok_cases
    [of exec s "ps_breaker s (a_Name a)" "\<lambda>s. case a_Charge a req s of (r, s') \<Rightarrow> (map_sum id DynCharge r, s')"])
  case (reject s1 e b')
  then show ?thesis by (auto simp: CB_Charge_def breaker_Execute_def)
next
  case (run s1 b' s2)
  obtain r s' where "a_Charge a req s1 = (r, s')" by fastforce
  with run(3) have "fst (CB_Charge exec a req s) = fst (a_Charge a req s1)"
    by (cases r) (auto simp: CB_Charge_def breaker_Execute_def Let_def split: go_error.splits)
  then show ?thesis by blast
qed

text \<open>Wrapping a provider that keeps the contract in a breaker gives a provider that keeps it.\<close>

lemma CB_provider:
  assumes "breaker_ok exec" and "psp_provider (a_Charge a)"
  shows "psp_provider (a_Charge (CircuitBreakerAdapter exec a))"
proof
  fix req s r m
  let ?r = "fst (a_Charge (CircuitBreakerAdapter exec a) req s)"
  have res: "(\<exists>s1. ?r = fst (a_Charge a req s1)) \<or> (\<exists>e. ?r = Inl (Sentinel e))"
    using CB_Charge_result [OF assms(1), of a req s] by (auto simp: CircuitBreakerAdapter_def)
  show "?r = Inr r \<Longrightarrow> \<exists>resp. r = Some resp \<and> c_Status resp \<in> {ChargeStatusCaptured,
      ChargeStatusAuthorized, ChargeStatusDeclined, ChargeStatusError}"
    using res psp_provider.charge_answers [OF assms(2)] by fastforce
  show "?r \<noteq> Inl (GoPanic m)"
    using res psp_provider.charge_no_panic [OF assms(2)] by fastforce
qed

text \<open>The two adapters as \<open>main\<close> wires them.\<close>

lemma wired_stripe_provider:
  "breaker_ok exec \<Longrightarrow> psp_provider (a_Charge (CircuitBreakerAdapter exec (StripeMock E U Q (NewStripeMock c))))"
  by (rule CB_provider) (simp_all add: StripeMock_def stripe.psp_provider_axioms)

lemma wired_razorpay_provider:
  "breaker_ok exec \<Longrightarrow> psp_provider (a_Charge (CircuitBreakerAdapter exec (RazorpayMock E U Q (NewRazorpayMock c))))"
  by (rule CB_provider) (simp_all add: RazorpayMock_def razorpay.psp_provider_axioms)

section \<open>Properties\<close>

definition open_exec :: "bool breaker_exec" where
  "open_exec b f s = (if b then (Inl (Sentinel ErrOpenState), b, s) else (fst (f s), b, snd (f s)))"

lemma breaker_ok_open_exec: "breaker_ok open_exec"
  unfolding breaker_ok_def
proof (intro allI)
  fix b and f :: "bool psp_state \<Rightarrow> dynamic result \<times> bool psp_state" and s
  show "\<exists>s1 b'. changed s s1 \<and> ((\<exists>e. (e = ErrOpenState \<or> e = ErrTooManyRequests) \<and> open_exec b f s = (Inl (Sentinel e), b', s1)) \<or>
      (\<exists>s2. changed (snd (f s1)) s2 \<and> open_exec b f s = (fst (f s1), b', s2)))"
    by (intro exI [of _ s] exI [of _ b]) (auto simp: open_exec_def intro: exI [of _ "snd (f s)"])
qed



text \<open>
  The breaker's rejections are labelled \<open>retryable_error\<close> in the attempts metric, but the
  retry engine does not retry them; an expired deadline is the other way round. On the errors of the mocks
  themselves (PSP errors) the two classifications agree.
\<close>

theorem outcome_label_versus_retry:
  "classifyOutcome (Some (Sentinel ErrOpenState)) = ''retryable_error'' \<and> \<not> IsRetryable (Some (Sentinel ErrOpenState)) \<and>
   classifyOutcome (Some (Sentinel ErrTooManyRequests)) = ''retryable_error'' \<and>
     \<not> IsRetryable (Some (Sentinel ErrTooManyRequests)) \<and>
   classifyOutcome (Some (Sentinel DeadlineExceeded)) = ''nonretryable_error'' \<and> IsRetryable (Some (Sentinel DeadlineExceeded)) \<and>
   (classifyOutcome (Some (PSPError code msg retryable)) = ''retryable_error'') = IsRetryable (Some (PSPError code msg retryable))"
  by (simp add: classifyOutcome_def IsRetryable_def psp_IsRetryable_def isNetworkError_def)

end
