(* ===== verification/Payment_Service.thy ===== *)
theory Payment_Service
  imports Ledger Retry Circuit_Breaker
begin

text \<open>
  The payment service (\<open>internal/service/payment_service.go\<close>): create, read and refund payments
  over a \<open>PaymentRepository\<close> and a PSP router. The state of a call is the database world and the
  state of the providers. Spans and their attributes leave no trace in results, database or
  metrics and are left out.
\<close>

section \<open>The service\<close>

text \<open>The interface \<open>PaymentRepository\<close>: one field per method.\<close>

record repository =
  r_CreatePayment :: "payment \<Rightarrow> world \<Rightarrow> payment result \<times> world"
  r_GetPaymentByID :: "uuid \<Rightarrow> world \<Rightarrow> payment result \<times> world"
  r_UpdatePaymentStatus :: "uuid \<Rightarrow> Status \<Rightarrow> Status \<Rightarrow> world \<Rightarrow> unit result \<times> world"
  r_UpdatePaymentStatusWithPSP :: "uuid \<Rightarrow> Status \<Rightarrow> Status \<Rightarrow> string \<Rightarrow> string \<Rightarrow> world \<Rightarrow> unit result \<times> world"
  r_UpdatePaymentFailed :: "uuid \<Rightarrow> Status \<Rightarrow> string \<Rightarrow> string \<Rightarrow> string \<Rightarrow> world \<Rightarrow> unit result \<times> world"
  r_RefundPaymentAtomic :: "uuid \<Rightarrow> int \<Rightarrow> string \<Rightarrow> world \<Rightarrow> uuid result \<times> world"

text \<open>\<open>*repository.PaymentRepo\<close> as that interface.\<close>

definition PaymentRepo :: "env \<Rightarrow> payment_repo option \<Rightarrow> repository" where
  "PaymentRepo E r =
     \<lparr>r_CreatePayment = (\<lambda>p. repo_CreatePayment E r (Some p)),
      r_GetPaymentByID = GetPaymentByID E r,
      r_UpdatePaymentStatus = UpdatePaymentStatus E r,
      r_UpdatePaymentStatusWithPSP = UpdatePaymentStatusWithPSP E r,
      r_UpdatePaymentFailed = UpdatePaymentFailed E r,
      r_RefundPaymentAtomic = RefundPaymentAtomic E r\<rparr>"

record 'p payment_service =
  svc_repo :: "repository option"
  svc_router :: "'p router option"
  svc_retryCfg :: retry_config

definition NewPaymentService :: "repository option \<Rightarrow> 'p router option \<Rightarrow> 'p payment_service option" where
  "NewPaymentService repo router =
     (if repo = None \<or> router = None then None
      else Some \<lparr>svc_repo = repo, svc_router = router, svc_retryCfg = DefaultConfig\<rparr>)"

section \<open>Validation\<close>

definition validation_error :: "string \<Rightarrow> go_error" where
  "validation_error msg = wrap_post (Sentinel ErrValidation) ('': '' @ msg)"

lemma validation_error_Is [simp]: "errors_Is (validation_error msg) s \<longleftrightarrow> s = ErrValidation"
  by (auto simp: validation_error_def)

text \<open>\<open>None\<close> is the nil error; the request is passed by address and is never nil.\<close>

definition validateCreatePaymentRequest :: "env \<Rightarrow> create_payment_request \<Rightarrow> go_error option" where
  "validateCreatePaymentRequest E req =
     (if cr_MerchantID req = uuid_Nil then Some (validation_error ''merchant_id is required'')
      else if cr_Amount req \<le> 0 then Some (validation_error ''amount must be positive'')
      else if \<not> IsInt64 (cr_Amount req) then Some (validation_error ''amount must fit in int64'')
      else let curr = TrimSpace (ToUpper (e_upper E) (cr_Currency req)) in
      if length curr \<noteq> 3 \<or> \<not> ValidCurrency curr then Some (validation_error ''invalid or unsupported currency'')
      else let key = TrimSpace (cr_IdempotencyKey req) in
      if key = [] then Some (validation_error ''idempotency_key is required'')
      else if length key > 255 then Some (validation_error ''idempotency_key too long'')
      else None)"

definition validateRefundRequest :: "env \<Rightarrow> refund_request \<Rightarrow> go_error option" where
  "validateRefundRequest E req =
     (if rr_Amount req \<le> 0 then Some (validation_error ''amount must be positive'')
      else let curr = TrimSpace (ToUpper (e_upper E) (rr_Currency req)) in
      if length curr \<noteq> 3 \<or> \<not> ValidCurrency curr then Some (validation_error ''invalid or unsupported currency'')
      else let key = TrimSpace (rr_IdempotencyKey req) in
      if key = [] then Some (validation_error ''idempotency_key is required'')
      else if length key > 255 then Some (validation_error ''idempotency_key too long'')
      else None)"

section \<open>Creating a payment\<close>

definition formatChargeFailureReason :: "go_error option \<Rightarrow> string" where
  "formatChargeFailureReason err =
     (case err of
        None \<Rightarrow> []
      | Some e \<Rightarrow>
          (case errors_As_PSP e of
             Some (code, msg, _) \<Rightarrow> if msg \<noteq> [] then code @ '': '' @ msg else code
           | None \<Rightarrow> Error_text e))"

definition chargeDeclineReason :: "charge_response option \<Rightarrow> string" where
  "chargeDeclineReason resp =
     (case resp of
        None \<Rightarrow> ''declined''
      | Some c \<Rightarrow> if c_Status c = ChargeStatusError then ''charge_error'' else ''declined'')"

text \<open>\<open>metrics.C().PaymentsTotal.WithLabelValues(status).Inc()\<close>.\<close>

definition count_payment :: "Status \<Rightarrow> world \<Rightarrow> world" where
  "count_payment st = observe (Inc ''payflow_payments_total'' [st])"

text \<open>The observer of the retry engine counts every failed attempt.\<close>

definition count_retries :: "string list \<Rightarrow> world \<Rightarrow> world" where
  "count_retries outs w = fold (\<lambda>x. observe (Inc ''payflow_psp_retry_attempts_total'' [x])) outs w"

text \<open>The end of every branch that fails the payment.\<close>

definition finish_failed :: "repository \<Rightarrow> uuid \<Rightarrow> string \<Rightarrow> string \<Rightarrow> string \<Rightarrow> world
    \<Rightarrow> create_payment_response result \<times> world" where
  "finish_failed repo i pspName ref reason w =
     (case r_UpdatePaymentFailed repo i StatusProcessing pspName ref reason w of
        (Inl err, w1) \<Rightarrow> (Inl err, w1)
      | (Inr _, w1) \<Rightarrow> (Inr \<lparr>cs_PaymentID = i, cs_Status = StatusFailed\<rparr>, count_payment StatusFailed w1))"

definition finish_success :: "repository \<Rightarrow> uuid \<Rightarrow> string \<Rightarrow> string \<Rightarrow> world
    \<Rightarrow> create_payment_response result \<times> world" where
  "finish_success repo i pspName ref w =
     (case r_UpdatePaymentStatusWithPSP repo i StatusProcessing StatusSuccess pspName ref w of
        (Inl err, w1) \<Rightarrow> (Inl err, w1)
      | (Inr _, w1) \<Rightarrow> (Inr \<lparr>cs_PaymentID = i, cs_Status = StatusSuccess\<rparr>, count_payment StatusSuccess w1))"

text \<open>From the result of the charge on. A nil response without an error would panic.\<close>

definition finish_charge :: "repository \<Rightarrow> uuid \<Rightarrow> string \<Rightarrow> charge_response option result \<Rightarrow> world
    \<Rightarrow> create_payment_response result \<times> world" where
  "finish_charge repo i pspName res w =
     (case res of
        Inl (GoPanic m) \<Rightarrow> (Inl (GoPanic m), w)
      | Inl chargeErr \<Rightarrow> finish_failed repo i pspName [] (formatChargeFailureReason (Some chargeErr)) w
      | Inr None \<Rightarrow> (Inl (GoPanic ''invalid memory address or nil pointer dereference''), w)
      | Inr (Some resp) \<Rightarrow>
          if c_Status resp = ChargeStatusCaptured \<or> c_Status resp = ChargeStatusAuthorized then
            finish_success repo i pspName (c_PSPReferenceID resp) w
          else if c_Status resp = ChargeStatusDeclined \<or> c_Status resp = ChargeStatusError then
            finish_failed repo i pspName (c_PSPReferenceID resp) (chargeDeclineReason (Some resp)) w
          else
            finish_failed repo i pspName (c_PSPReferenceID resp) (''unexpected_psp_status:'' @ c_Status resp) w)"

definition charge_request_of :: "uuid \<Rightarrow> int \<Rightarrow> payment \<Rightarrow> charge_request" where
  "charge_request_of i amount payment =
     \<lparr>q_PaymentID = i, q_Amount = amount, q_Currency = p_Currency payment,
      q_IdempotencyKey = p_IdempotencyKey payment\<rparr>"

definition new_payment :: "env \<Rightarrow> uuid \<Rightarrow> create_payment_request \<Rightarrow> payment" where
  "new_payment E i req =
     \<lparr>p_ID = i, p_MerchantID = cr_MerchantID req, p_Amount = cr_Amount req,
      p_Currency = ToUpper (e_upper E) (TrimSpace (cr_Currency req)), p_Status = StatusInitiated,
      p_IdempotencyKey = TrimSpace (cr_IdempotencyKey req), p_PSP = [], p_PSPReferenceID = [],
      p_FailureReason = [], p_CreatedAt = zero_time, p_UpdatedAt = zero_time\<rparr>"

definition CreatePayment :: "env \<Rightarrow> float_ops \<Rightarrow> retry_env \<Rightarrow> 'p payment_service option \<Rightarrow> create_payment_request
    \<Rightarrow> world \<times> 'p \<Rightarrow> create_payment_response result \<times> world \<times> 'p" where
  "CreatePayment E F R svc req st =
     (case st of (w, ps) \<Rightarrow>
      (case svc of
         None \<Rightarrow> (Inl (OtherError ''payment service is not configured''), w, ps)
       | Some s \<Rightarrow>
         (case (svc_repo s, svc_router s) of
            (Some repo, Some router) \<Rightarrow>
              (case validateCreatePaymentRequest E req of
                 Some err \<Rightarrow> (Inl err, w, ps)
               | None \<Rightarrow>
                 (case NewID E w of
                    (Inl err, w1) \<Rightarrow> (Inl (wrap_pre ''generate payment id'' err), w1, ps)
                  | (Inr i, w1) \<Rightarrow>
                    (let amountInt64 = wrap64 (cr_Amount req) in
                     case r_CreatePayment repo (new_payment E i req) w1 of
                       (Inl err, w2) \<Rightarrow> (Inl err, w2, ps)
                     | (Inr payment, w2) \<Rightarrow>
                       (case r_UpdatePaymentStatus repo i StatusInitiated StatusProcessing w2 of
                          (Inl err, w3) \<Rightarrow> (Inl err, w3, ps)
                        | (Inr _, w3) \<Rightarrow>
                          (case Select (e_upper E) (e_quote E) (Some router) (p_Currency payment) amountInt64 of
                             Inl routeErr \<Rightarrow>
                               (case finish_failed repo i [] [] (Error_text routeErr) w3 of (r, w4) \<Rightarrow> (r, w4, ps))
                           | Inr adapter \<Rightarrow>
                               (case DoWithObserver F R (svc_retryCfg s)
                                       (a_Charge adapter (charge_request_of i amountInt64 payment)) ps of
                                  (res, ps', outs, _) \<Rightarrow>
                                    (case finish_charge repo i (a_Name adapter) res (count_retries outs w3) of
                                       (r, w4) \<Rightarrow> (r, w4, ps'))))))))
          | _ \<Rightarrow> (Inl (OtherError ''payment service is not configured''), w, ps))))"

section \<open>Reading and refunding\<close>

definition GetPayment :: "'p payment_service option \<Rightarrow> uuid \<Rightarrow> world \<Rightarrow> payment result \<times> world" where
  "GetPayment svc i w =
     (case Option.bind svc svc_repo of
        None \<Rightarrow> (Inl (OtherError ''payment service is not configured''), w)
      | Some repo \<Rightarrow>
          if i = uuid_Nil then (Inl (validation_error ''payment id is required''), w)
          else r_GetPaymentByID repo i w)"

definition refund_checks :: "env \<Rightarrow> refund_request \<Rightarrow> payment \<Rightarrow> go_error option" where
  "refund_checks E req p =
     (if p_Status p \<noteq> StatusSuccess then
        Some (validation_error (''only payments in '' @ Quote (e_quote E) StatusSuccess
          @ '' can be refunded (current '' @ Quote (e_quote E) (p_Status p) @ '')''))
      else let currency = ToUpper (e_upper E) (TrimSpace (rr_Currency req)) in
      if p_Currency p \<noteq> currency then
        Some (validation_error (''currency '' @ Quote (e_quote E) currency
          @ '' does not match payment currency '' @ Quote (e_quote E) (p_Currency p)))
      else if rr_Amount req > p_Amount p then Some (validation_error ''refund amount exceeds payment amount'')
      else if \<not> IsInt64 (rr_Amount req) then Some (validation_error ''refund amount must fit in int64'')
      else None)"

definition RefundPayment :: "env \<Rightarrow> 'p payment_service option \<Rightarrow> uuid \<Rightarrow> refund_request \<Rightarrow> world
    \<Rightarrow> refund_response result \<times> world" where
  "RefundPayment E svc paymentID req w =
     (case Option.bind svc svc_repo of
        None \<Rightarrow> (Inl (OtherError ''payment service is not configured''), w)
      | Some repo \<Rightarrow>
          if paymentID = uuid_Nil then (Inl (validation_error ''payment id is required''), w)
          else if rr_PaymentID req \<noteq> uuid_Nil \<and> rr_PaymentID req \<noteq> paymentID then
            (Inl (validation_error ''payment_id does not match path''), w)
          else
            (case validateRefundRequest E req of
               Some err \<Rightarrow> (Inl err, w)
             | None \<Rightarrow>
               (case r_GetPaymentByID repo paymentID w of
                  (Inl err, w1) \<Rightarrow> (Inl err, w1)
                | (Inr p, w1) \<Rightarrow>
                  (case refund_checks E req p of
                     Some err \<Rightarrow> (Inl err, w1)
                   | None \<Rightarrow>
                     (case r_RefundPaymentAtomic repo paymentID (wrap64 (rr_Amount req))
                             (TrimSpace (rr_IdempotencyKey req)) w1 of
                        (Inl err, w2) \<Rightarrow>
                          if errors_Is err ErrStatusMismatch then
                            (Inl (wrap_pre (''payment is not in '' @ Quote (e_quote E) StatusSuccess
                               @ '' (concurrent update?)'') err), w2)
                          else (Inl err, w2)
                      | (Inr refundID, w2) \<Rightarrow>
                          (Inr \<lparr>rs_RefundID = refundID, rs_Status = StatusSuccess\<rparr>,
                           count_payment StatusRefunded w2))))))"

lemma count_retries_tables [simp]: "tables (count_retries outs w) = tables w"
  by (induction outs arbitrary: w) (simp_all add: count_retries_def)

lemma count_payment_tables [simp]: "tables (count_payment st w) = tables w"
  by (simp add: count_payment_def)

section \<open>The contract of the repository\<close>

text \<open>
  What the service relies on: every call is a step of the ledger whether it succeeds or not,
  and an answer without an error means that the row is there as asked.
\<close>

locale payment_store =
  fixes E :: env and R :: repository
  assumes create_step: "ledger_step E w (snd (r_CreatePayment R p w))"
    and start_step: "ledger_step E w (snd (r_UpdatePaymentStatus R i StatusInitiated StatusProcessing w))"
    and settle_step: "ledger_step E w (snd (r_UpdatePaymentStatusWithPSP R i StatusProcessing StatusSuccess psp ref w))"
    and fail_step: "ledger_step E w (snd (r_UpdatePaymentFailed R i StatusProcessing psp ref reason w))"
    and refund_step: "\<forall>row \<in> set (payments w). pr_id row = i \<longrightarrow> amount \<le> pr_amount row \<Longrightarrow>
      ledger_step E w (snd (r_RefundPaymentAtomic R i amount key w))"
    and get_step: "tables (snd (r_GetPaymentByID R i w)) = tables w"
    and create_row: "r_CreatePayment R p w = (Inr q, w') \<Longrightarrow> \<exists>row \<in> set (payments w').
      pr_id row = p_ID p \<and> pr_merchant_id row = p_MerchantID p \<and> pr_amount row = p_Amount p \<and>
      pr_currency row = p_Currency q \<and> pr_idempotency_key row = p_IdempotencyKey q \<and> pr_status row = StatusInitiated"
    and settle_row: "r_UpdatePaymentStatusWithPSP R i StatusProcessing StatusSuccess psp ref w = (Inr (), w') \<Longrightarrow>
      \<exists>row \<in> set (payments w'). pr_id row = i \<and> pr_status row = StatusSuccess \<and> pr_psp row = strOrNil psp \<and>
        pr_psp_reference_id row = strOrNil ref"
    and fail_row: "r_UpdatePaymentFailed R i StatusProcessing psp ref reason w = (Inr (), w') \<Longrightarrow>
      \<exists>row \<in> set (payments w'). pr_id row = i \<and> pr_status row = StatusFailed \<and> pr_psp row = strOrNil psp \<and>
        pr_failure_reason row = strOrNil reason"
    and get_row: "r_GetPaymentByID R i w = (Inr p, w') \<Longrightarrow>
      \<exists>row \<in> set (payments w). pr_id row = i \<and> p = scanPayment row"
    and refund_row: "r_RefundPaymentAtomic R i amount key w = (Inr rid, w') \<Longrightarrow>
      (\<exists>x \<in> set (refunds w'). rf_id x = rid \<and> rf_payment_id x = i \<and> rf_amount x = amount) \<and>
      (\<exists>row \<in> set (payments w'). pr_id row = i \<and> pr_status row = StatusRefunded)"
begin

text \<open>The ways a create call can go.\<close>

lemma CreatePayment_cases:
  assumes "CreatePayment E F T (Some \<lparr>svc_repo = Some R, svc_router = Some rt, svc_retryCfg = cfg\<rparr>) req (w, ps)
    = (res, w', ps')"
  obtains (invalid) e where "validateCreatePaymentRequest E req = Some e" "res = Inl e" "w' = w" "ps' = ps"
  | (no_id) e where "uuid7_at E (tick w) = Inl e" "res = Inl (wrap_pre ''generate payment id'' e)" "w' = tickw w" "ps' = ps"
  | (not_created) i e where "uuid7_at E (tick w) = Inr i"
      "r_CreatePayment R (new_payment E i req) (tickw w) = (Inl e, w')" "res = Inl e" "ps' = ps"
  | (not_started) i q w2 e where "r_CreatePayment R (new_payment E i req) (tickw w) = (Inr q, w2)"
      "r_UpdatePaymentStatus R i StatusInitiated StatusProcessing w2 = (Inl e, w')" "res = Inl e" "ps' = ps"
  | (no_route) i q w2 w3 e where "r_CreatePayment R (new_payment E i req) (tickw w) = (Inr q, w2)"
      "r_UpdatePaymentStatus R i StatusInitiated StatusProcessing w2 = (Inr (), w3)"
      "Select (e_upper E) (e_quote E) (Some rt) (p_Currency q) (wrap64 (cr_Amount req)) = Inl e"
      "finish_failed R i [] [] (Error_text e) w3 = (res, w')" "ps' = ps"
  | (charged) i q w2 w3 ad cres outs ds where "r_CreatePayment R (new_payment E i req) (tickw w) = (Inr q, w2)"
      "r_UpdatePaymentStatus R i StatusInitiated StatusProcessing w2 = (Inr (), w3)"
      "Select (e_upper E) (e_quote E) (Some rt) (p_Currency q) (wrap64 (cr_Amount req)) = Inr ad"
      "DoWithObserver F T cfg (a_Charge ad (charge_request_of i (wrap64 (cr_Amount req)) q)) ps = (cres, ps', outs, ds)"
      "finish_charge R i (a_Name ad) cres (count_retries outs w3) = (res, w')"
proof (cases "validateCreatePaymentRequest E req")
  case (Some e)
  with assms invalid show thesis by (simp add: CreatePayment_def)
next
  case None
  note go = assms None
  show thesis
  proof (cases "uuid7_at E (tick w)")
    case (Inl e)
    with go no_id show thesis by (simp add: CreatePayment_def NewID_def)
  next
    case (Inr i)
    obtain cr w2 where c: "r_CreatePayment R (new_payment E i req) (tickw w) = (cr, w2)" by fastforce
    show thesis
    proof (cases cr)
      case (Inl e)
      with go \<open>uuid7_at E (tick w) = Inr i\<close> c not_created show thesis by (simp add: CreatePayment_def NewID_def)
    next
      case (Inr q)
      obtain ur w3 where u: "r_UpdatePaymentStatus R i StatusInitiated StatusProcessing w2 = (ur, w3)" by fastforce
      note go = go \<open>uuid7_at E (tick w) = Inr i\<close> c \<open>cr = Inr q\<close> u
      show thesis
      proof (cases ur)
        case (Inl e)
        with go not_started show thesis by (simp add: CreatePayment_def NewID_def)
      next
        case (Inr x)
        note go = go \<open>ur = Inr x\<close>
        show thesis
        proof (cases "Select (e_upper E) (e_quote E) (Some rt) (p_Currency q) (wrap64 (cr_Amount req))")
          case (Inl e)
          with go no_route [of i q w2 w3 e] show thesis
            by (simp add: CreatePayment_def NewID_def split: prod.splits)
        next
          case (Inr ad)
          obtain cres ps1 outs ds where d: "DoWithObserver F T cfg
              (a_Charge ad (charge_request_of i (wrap64 (cr_Amount req)) q)) ps = (cres, ps1, outs, ds)"
            by (metis prod.exhaust)
          with Inr go charged [of i q w2 w3 ad cres outs ds] show thesis
            by (simp add: CreatePayment_def NewID_def split: prod.splits)
        qed
      qed
    qed
  qed
qed

lemma silent_steps: "tables w' = tables w \<Longrightarrow> (ledger_step E)\<^sup>*\<^sup>* w w'"
  by (rule r_into_rtranclp) (rule ledger_step.silent)

lemma finish_failed_steps: "finish_failed R i psp ref reason w = (res, w') \<Longrightarrow> (ledger_step E)\<^sup>*\<^sup>* w w'"
  using fail_step [of w i psp ref reason] silent_steps [OF count_payment_tables]
  by (auto simp: finish_failed_def split: prod.splits sum.splits intro: rtranclp_trans)

lemma finish_success_steps: "finish_success R i psp ref w = (res, w') \<Longrightarrow> (ledger_step E)\<^sup>*\<^sup>* w w'"
  using settle_step [of w i psp ref] silent_steps [OF count_payment_tables]
  by (auto simp: finish_success_def split: prod.splits sum.splits intro: rtranclp_trans)

lemma finish_charge_steps: "finish_charge R i psp cres w = (res, w') \<Longrightarrow> (ledger_step E)\<^sup>*\<^sup>* w w'"
  unfolding finish_charge_def
  by (auto split: sum.splits go_error.splits option.splits if_splits intro: finish_failed_steps finish_success_steps)

text \<open>Whatever happens, a create call moves the database along the steps of the ledger.\<close>

lemma CreatePayment_steps:
  assumes "CreatePayment E F T (Some \<lparr>svc_repo = Some R, svc_router = Some rt, svc_retryCfg = cfg\<rparr>) req (w, ps)
    = (res, w', ps')"
  shows "(ledger_step E)\<^sup>*\<^sup>* w w'"
proof -
  have new: "(ledger_step E)\<^sup>*\<^sup>* w w2" if "r_CreatePayment R p (tickw w) = (x, w2)" for p x w2
    using create_step [of "tickw w" p] silent_steps [of "tickw w" w] that
    by (metis rtranclp.rtrancl_into_rtrancl snd_conv tables_simps(1))
  have started: "(ledger_step E)\<^sup>*\<^sup>* w w3" if "r_CreatePayment R p (tickw w) = (x, w2)"
    "r_UpdatePaymentStatus R i StatusInitiated StatusProcessing w2 = (y, w3)" for p x w2 i y w3
    using new [OF that(1)] start_step [of w2 i] that(2) by (metis rtranclp.rtrancl_into_rtrancl snd_conv)
  from assms show ?thesis
  proof (cases rule: CreatePayment_cases)
    case (charged i q w2 w3 ad cres outs ds)
    have "(ledger_step E)\<^sup>*\<^sup>* w (count_retries outs w3)"
      using started [OF charged(1,2)] silent_steps [OF count_retries_tables] by (rule rtranclp_trans)
    then show ?thesis using finish_charge_steps [OF charged(5)] by (rule rtranclp_trans)
  next
    case (no_route i q w2 w3 e)
    then show ?thesis using started finish_failed_steps by (meson rtranclp_trans)
  qed (use new started silent_steps in auto)
qed

text \<open>An answered create call has settled the payment it created.\<close>

lemma finish_charge_Inr:
  assumes "finish_charge R i psp cres w = (Inr resp, w')"
  shows "cs_PaymentID resp = i \<and>
    ((cs_Status resp = StatusSuccess \<and>
       (\<exists>c. cres = Inr (Some c) \<and> (c_Status c = ChargeStatusCaptured \<or> c_Status c = ChargeStatusAuthorized) \<and>
         (\<exists>row \<in> set (payments w'). pr_id row = i \<and> pr_status row = StatusSuccess \<and> pr_psp row = strOrNil psp \<and>
            pr_psp_reference_id row = strOrNil (c_PSPReferenceID c)))) \<or>
     (cs_Status resp = StatusFailed \<and>
       \<not> (\<exists>c. cres = Inr (Some c) \<and> (c_Status c = ChargeStatusCaptured \<or> c_Status c = ChargeStatusAuthorized)) \<and>
       (\<exists>row \<in> set (payments w'). pr_id row = i \<and> pr_status row = StatusFailed)))"
proof -
  have failed: "cs_PaymentID resp = i \<and> cs_Status resp = StatusFailed \<and>
      (\<exists>row \<in> set (payments w'). pr_id row = i \<and> pr_status row = StatusFailed)"
    if "finish_failed R i psp ref reason w = (Inr resp, w')" for ref reason
    using that fail_row [of i psp ref reason w]
    by (auto simp: finish_failed_def count_payment_def split: prod.splits sum.splits)
  have settled: "cs_PaymentID resp = i \<and> cs_Status resp = StatusSuccess \<and>
      (\<exists>row \<in> set (payments w'). pr_id row = i \<and> pr_status row = StatusSuccess \<and> pr_psp row = strOrNil psp \<and>
         pr_psp_reference_id row = strOrNil ref)"
    if "finish_success R i psp ref w = (Inr resp, w')" for ref
    using that settle_row [of i psp ref w]
    by (auto simp: finish_success_def count_payment_def split: prod.splits sum.splits)
  show ?thesis
  proof (cases cres)
    case (Inl e)
    with assms failed [of "[]" "formatChargeFailureReason (Some e)"] show ?thesis
      by (cases e) (auto simp: finish_charge_def)
  next
    case (Inr r)
    show ?thesis
    proof (cases r)
      case None
      with assms Inr show ?thesis by (simp add: finish_charge_def)
    next
      case (Some c)
      note res = assms [unfolded Inr Some finish_charge_def, simplified]
      show ?thesis
      proof (cases "c_Status c = ChargeStatusCaptured \<or> c_Status c = ChargeStatusAuthorized")
        case True
        with res settled [of "c_PSPReferenceID c"] show ?thesis by (auto simp: Inr Some)
      next
        case False
        with res failed [of "c_PSPReferenceID c"] show ?thesis by (auto simp: Inr Some split: if_splits)
      qed
    qed
  qed
qed

text \<open>The row that a create call inserts is there at its end, with what the request said.\<close>

lemma create_born:
  assumes "r_CreatePayment R (new_payment E i req) (tickw w) = (Inr q, w2)" and "(ledger_step E)\<^sup>*\<^sup>* w2 w'"
  obtains x where "x \<in> set (payments w')" "pr_id x = i" "pr_merchant_id x = cr_MerchantID req"
    "pr_amount x = cr_Amount req" "pr_currency x = p_Currency q"
proof -
  from create_row [OF assms(1)] obtain row where row: "row \<in> set (payments w2)" "pr_id row = i"
    "pr_merchant_id row = cr_MerchantID req" "pr_amount row = cr_Amount req" "pr_currency row = p_Currency q"
    by (auto simp: new_payment_def)
  from ledger_steps_row [OF assms(2) row(1)] row that show thesis by (auto simp: identity_of_def)
qed

lemma finish_failed_answer:
  assumes "finish_failed R i [] [] reason w = (Inr resp, w')"
  obtains row where "resp = \<lparr>cs_PaymentID = i, cs_Status = StatusFailed\<rparr>" "row \<in> set (payments w')" "pr_id row = i"
    "pr_status row = StatusFailed"
  using assms fail_row [of i "[]" "[]" reason w]
  by (auto simp: finish_failed_def count_payment_def split: prod.splits sum.splits)

lemma CreatePayment_answer:
  assumes call: "CreatePayment E F T (Some \<lparr>svc_repo = Some R, svc_router = Some rt, svc_retryCfg = cfg\<rparr>) req (w, ps)
      = (Inr resp, w', ps')"
    and "distinct (map pr_id (payments w))"
  shows "\<exists>row \<in> set (payments w'). pr_id row = cs_PaymentID resp \<and> pr_status row = cs_Status resp \<and>
    pr_merchant_id row = cr_MerchantID req \<and> pr_amount row = cr_Amount req \<and>
    ((cs_Status resp = StatusSuccess \<and>
       (\<exists>ad c creq s' outs ds. Select (e_upper E) (e_quote E) (Some rt) (pr_currency row) (wrap64 (cr_Amount req)) = Inr ad \<and>
          q_PaymentID creq = cs_PaymentID resp \<and> q_Amount creq = wrap64 (cr_Amount req) \<and> q_Currency creq = pr_currency row \<and>
          DoWithObserver F T cfg (a_Charge ad creq) ps = (Inr (Some c), s', outs, ds) \<and>
          c_Status c \<in> {ChargeStatusCaptured, ChargeStatusAuthorized} \<and>
          pr_psp row = strOrNil (a_Name ad) \<and> pr_psp_reference_id row = strOrNil (c_PSPReferenceID c))) \<or>
     cs_Status resp = StatusFailed)"
proof -
  have dist: "distinct (map pr_id (payments w'))"
    using ledger_steps_distinct [OF CreatePayment_steps [OF call] assms(2)] .
  have same: "x = y" if "x \<in> set (payments w')" "y \<in> set (payments w')" "pr_id x = pr_id y" for x y
    using dist that by (metis distinct_map inj_onD)
  from call show ?thesis
  proof (cases rule: CreatePayment_cases)
    case (no_route i q w2 w3 e)
    have "(ledger_step E)\<^sup>*\<^sup>* w2 w3" using start_step [of w2 i] no_route(2) by auto
    with no_route(4) have "(ledger_step E)\<^sup>*\<^sup>* w2 w'" using finish_failed_steps by (meson rtranclp_trans)
    from create_born [OF no_route(1) this] obtain x where x: "x \<in> set (payments w')" "pr_id x = i"
      "pr_merchant_id x = cr_MerchantID req" "pr_amount x = cr_Amount req" by metis
    from no_route(4) obtain row where "resp = \<lparr>cs_PaymentID = i, cs_Status = StatusFailed\<rparr>" "row \<in> set (payments w')"
      "pr_id row = i" "pr_status row = StatusFailed" by (rule finish_failed_answer)
    with x same [OF x(1) this(2)] show ?thesis by auto
  next
    case (charged i q w2 w3 ad cres outs ds)
    have "(ledger_step E)\<^sup>*\<^sup>* w2 (count_retries outs w3)"
      using start_step [of w2 i] charged(2) silent_steps [OF count_retries_tables [of outs w3]]
      by (metis converse_rtranclp_into_rtranclp snd_conv)
    then have "(ledger_step E)\<^sup>*\<^sup>* w2 w'" using finish_charge_steps [OF charged(5)] by (rule rtranclp_trans)
    from create_born [OF charged(1) this] obtain x where x: "x \<in> set (payments w')" "pr_id x = i"
      "pr_merchant_id x = cr_MerchantID req" "pr_amount x = cr_Amount req" "pr_currency x = p_Currency q" by metis
    note fin = finish_charge_Inr [OF charged(5)]
    show ?thesis
    proof (cases "cs_Status resp = StatusSuccess")
      case True
      with fin obtain c row where c: "cres = Inr (Some c)" "c_Status c \<in> {ChargeStatusCaptured, ChargeStatusAuthorized}"
        and row: "row \<in> set (payments w')" "pr_id row = i" "pr_status row = StatusSuccess" "pr_psp row = strOrNil (a_Name ad)"
        "pr_psp_reference_id row = strOrNil (c_PSPReferenceID c)" by auto
      show ?thesis
        using True fin c row x same [OF x(1) row(1)] charged(3,4)
        by (intro bexI [of _ row] conjI disjI1 exI [of _ ad] exI [of _ c]
            exI [of _ "charge_request_of i (wrap64 (cr_Amount req)) q"] exI [of _ ps'] exI [of _ outs] exI [of _ ds])
          (simp_all add: charge_request_of_def)
    next
      case False
      with fin x same show ?thesis by (metis (lifting))
    qed
  qed simp_all
qed

lemma refund_checks_None:
  assumes "refund_checks E req p = None"
  shows "p_Status p = StatusSuccess \<and> p_Currency p = ToUpper (e_upper E) (TrimSpace (rr_Currency req)) \<and>
    rr_Amount req \<le> p_Amount p \<and> IsInt64 (rr_Amount req)"
  using assms by (simp add: refund_checks_def Let_def split: if_splits)

text \<open>The ways a refund call can go: refused before the transaction, or handed to it.\<close>

lemma RefundPayment_cases:
  assumes "RefundPayment E (Some s) i req w = (res, w')" and "svc_repo s = Some R"
  obtains (refused) e where "res = Inl e" "tables w' = tables w"
  | (tried) row w1 w2 out where "validateRefundRequest E req = None" "row \<in> set (payments w)" "pr_id row = i"
      "refund_checks E req (scanPayment row) = None" "tables w1 = tables w"
      "r_RefundPaymentAtomic R i (rr_Amount req) (TrimSpace (rr_IdempotencyKey req)) w1 = (out, w2)"
      "tables w' = tables w2" "\<And>rid. out = Inr rid \<Longrightarrow> res = Inr \<lparr>rs_RefundID = rid, rs_Status = StatusSuccess\<rparr>"
      "\<And>e. out = Inl e \<Longrightarrow> \<exists>e'. res = Inl e'"
proof (cases "i = uuid_Nil \<or> (rr_PaymentID req \<noteq> uuid_Nil \<and> rr_PaymentID req \<noteq> i) \<or> validateRefundRequest E req \<noteq> None")
  case True
  with assms show thesis
    by (intro refused [of "projl res"]) (auto simp: RefundPayment_def split: if_splits option.splits)
next
  case False
  obtain gr w1 where g: "r_GetPaymentByID R i w = (gr, w1)" by fastforce
  then have t1: "tables w1 = tables w" using get_step [of i w] by simp
  have ok: "(i = uuid_Nil) = False" "(rr_PaymentID req \<noteq> uuid_Nil \<and> rr_PaymentID req \<noteq> i) = False"
    "validateRefundRequest E req = None" using False by auto
  show thesis
  proof (cases gr)
    case (Inl e)
    with assms ok g t1 show thesis by (intro refused [of e]) (auto simp: RefundPayment_def)
  next
    case (Inr p)
    from get_row [of i w p w1] g Inr obtain row where row: "row \<in> set (payments w)" "pr_id row = i" "p = scanPayment row"
      by auto
    show thesis
    proof (cases "refund_checks E req p")
      case (Some e)
      with assms ok g Inr t1 show thesis by (intro refused [of e]) (auto simp: RefundPayment_def)
    next
      case None
      obtain out w2 where o: "r_RefundPaymentAtomic R i (rr_Amount req) (TrimSpace (rr_IdempotencyKey req)) w1 = (out, w2)"
        by fastforce
      have "wrap64 (rr_Amount req) = rr_Amount req" using refund_checks_None [OF None] by simp
      with assms g Inr None o have res: "(res, w') = (case out of
          Inl err \<Rightarrow> (if errors_Is err ErrStatusMismatch then
            (Inl (wrap_pre (''payment is not in '' @ Quote (e_quote E) StatusSuccess @ '' (concurrent update?)'') err), w2)
            else (Inl err, w2))
        | Inr rid \<Rightarrow> (Inr \<lparr>rs_RefundID = rid, rs_Status = StatusSuccess\<rparr>, count_payment StatusRefunded w2))"
        by (cases out) (simp_all add: RefundPayment_def ok)
      show thesis
        by (rule tried [of row w1 out w2]) (use False row None t1 o res in \<open>auto split: sum.splits if_splits\<close>)
    qed
  qed
qed

lemma RefundPayment_steps:
  assumes "distinct (map pr_id (payments w))" and "RefundPayment E (Some s) i req w = (res, w')" "svc_repo s = Some R"
  shows "(ledger_step E)\<^sup>*\<^sup>* w w'"
  using assms(2,3)
proof (cases rule: RefundPayment_cases)
  case (refused e)
  then show ?thesis by (simp add: silent_steps)
next
  case (tried row w1 w2 out)
  have "rr_Amount req \<le> pr_amount row" using refund_checks_None [OF tried(4)] by (simp add: scanPayment_def)
  moreover have "x = row" if "x \<in> set (payments w)" "pr_id x = i" for x
    using assms(1) that tried(2,3) by (metis distinct_map inj_onD)
  ultimately have "ledger_step E w1 w2"
    using refund_step [of w1 i "rr_Amount req" "TrimSpace (rr_IdempotencyKey req)"] tried(5,6) by (auto simp: tables_def)
  then show ?thesis
    using silent_steps [OF tried(5)] silent_steps [OF tried(7)]
    by (metis rtranclp.rtrancl_into_rtrancl rtranclp_trans)
qed

lemma RefundPayment_answer:
  assumes "RefundPayment E (Some s) i req w = (Inr resp, w')" "svc_repo s = Some R"
  shows "\<exists>row \<in> set (payments w). pr_id row = i \<and> pr_status row = StatusSuccess \<and>
    pr_currency row = ToUpper (e_upper E) (TrimSpace (rr_Currency req)) \<and>
    0 < rr_Amount req \<and> rr_Amount req \<le> pr_amount row \<and> rs_Status resp = StatusSuccess \<and>
    (\<exists>x \<in> set (refunds w'). rf_id x = rs_RefundID resp \<and> rf_payment_id x = i \<and> rf_amount x = rr_Amount req) \<and>
    (\<exists>row' \<in> set (payments w'). pr_id row' = i \<and> pr_status row' = StatusRefunded)"
  using assms
proof (cases rule: RefundPayment_cases)
  case (tried row w1 w2 out)
  obtain rid where rid: "out = Inr rid" using tried(9) by (cases out) auto
  then have resp: "resp = \<lparr>rs_RefundID = rid, rs_Status = StatusSuccess\<rparr>" using tried(8) by simp
  have "0 < rr_Amount req" using tried(1) by (auto simp: validateRefundRequest_def split: if_splits)
  with refund_checks_None [OF tried(4)] refund_row [of i "rr_Amount req" "TrimSpace (rr_IdempotencyKey req)" w1 rid w2]
    tried(2,3,6,7) rid resp
  show ?thesis by (intro bexI [of _ row]) (auto simp: scanPayment_def tables_def)
qed simp

end

section \<open>The repository keeps the contract\<close>

lemma GetPaymentByID_tables: "tables (snd (GetPaymentByID E r i w)) = tables w"
  using select_calls_tables(2) [where E = E and w = w]
  by (auto simp: GetPaymentByID_def split: prod.splits sum.splits)

lemma GetPaymentByID_Inr:
  assumes "GetPaymentByID E r i w = (Inr p, w')"
  shows "\<exists>row \<in> set (payments w). pr_id row = i \<and> p = scanPayment row"
proof -
  have "db_call E (select_payment (\<lambda>row. pr_id row = i)) w = (Inr p, w')"
    using assms by (auto simp: GetPaymentByID_def split: if_splits prod.splits sum.splits)
  from db_call_Inr [OF this] show ?thesis
    by (auto simp: select_payment_def split: option.splits dest: find_SomeD)
qed

lemma status_commit_row:
  assumes "status_commit E r i st f ty d w w'" and "\<And>t x. pr_id (f t x) = pr_id x"
  shows "\<exists>t x. f t x \<in> set (payments w') \<and> pr_id (f t x) = i"
proof -
  obtain row t where "row \<in> set (payments w)" "pr_id row = i" "pr_status row = st"
    "payments w' = sql_update (at_status i st) (f t) (payments w)"
    using assms(1) by (auto simp: status_commit_def)
  then have "f t row \<in> set (payments w') \<and> pr_id (f t row) = i"
    using assms(2) by (auto simp: set_sql_update at_status_def intro!: bexI [of _ row])
  then show ?thesis by blast
qed

lemma settle_row_repo:
  assumes "UpdatePaymentStatusWithPSP E r i StatusProcessing StatusSuccess psp ref w = (Inr (), w')"
  shows "\<exists>row \<in> set (payments w'). pr_id row = i \<and> pr_status row = StatusSuccess \<and> pr_psp row = strOrNil psp \<and>
    pr_psp_reference_id row = strOrNil ref"
proof -
  have "status_commit E r i StatusProcessing (\<lambda>t row. row\<lparr>pr_status := StatusSuccess, pr_psp := strOrNil psp,
      pr_psp_reference_id := strOrNil ref, pr_updated_at := t\<rparr>) EventPaymentSuccess
      (\<lambda>row. event_data E row StatusSuccess psp ref []) w w'"
    using settle_tx [of StatusProcessing StatusSuccess E r i ref psp w] assms by (simp add: atomic_change_def)
  from status_commit_row [OF this] show ?thesis by fastforce
qed

lemma fail_row_repo:
  assumes "UpdatePaymentFailed E r i StatusProcessing psp ref reason w = (Inr (), w')"
  shows "\<exists>row \<in> set (payments w'). pr_id row = i \<and> pr_status row = StatusFailed \<and> pr_psp row = strOrNil psp \<and>
    pr_failure_reason row = strOrNil reason"
proof -
  have "status_commit E r i StatusProcessing (\<lambda>t row. row\<lparr>pr_status := StatusFailed, pr_psp := strOrNil psp,
      pr_psp_reference_id := strOrNil ref, pr_failure_reason := strOrNil reason, pr_updated_at := t\<rparr>) EventPaymentFailed
      (\<lambda>row. event_data E row StatusFailed psp ref reason) w w'"
    using fail_tx [of StatusProcessing, where psp = psp and ref = ref and reason = reason and E = E and r = r and i = i and w = w]
      assms by (simp add: atomic_change_def)
  from status_commit_row [OF this] show ?thesis by fastforce
qed

lemma create_row_repo:
  assumes "repo_CreatePayment E r (Some p) w = (Inr q, w')"
  shows "\<exists>row \<in> set (payments w'). pr_id row = p_ID p \<and> pr_merchant_id row = p_MerchantID p \<and>
    pr_amount row = p_Amount p \<and> pr_currency row = p_Currency q \<and> pr_idempotency_key row = p_IdempotencyKey q \<and>
    pr_status row = StatusInitiated"
  using assms
proof (cases rule: CreatePayment_outcome)
  case (created p0 row)
  note p0 = validate_Inr [OF created(1)]
  have row: "row = payment_row_of p0 (p_CreatedAt q) (p_UpdatedAt q)"
    and q: "q = p0\<lparr>p_CreatedAt := p_CreatedAt q, p_UpdatedAt := p_UpdatedAt q\<rparr>"
    using created(3) by simp_all
  have "p_Currency q = p_Currency p0" "p_IdempotencyKey q = p_IdempotencyKey p0" by (subst q, simp)+
  moreover have "row \<in> set (payments w')" using created(2) by (simp add: created_def tables_def)
  ultimately show ?thesis using p0 by (intro bexI [of _ row]) (simp_all add: row payment_row_of_def)
qed simp

lemma refund_row_repo:
  assumes "RefundPaymentAtomic E r i amount key w = (Inr rid, w')"
  shows "(\<exists>x \<in> set (refunds w'). rf_id x = rid \<and> rf_payment_id x = i \<and> rf_amount x = amount) \<and>
    (\<exists>row \<in> set (payments w'). pr_id row = i \<and> pr_status row = StatusRefunded)"
proof -
  from refund_tx [OF assms] have "refund_commit E r i amount (TrimSpace key) rid w w'" by auto
  then obtain row t u where "row \<in> set (payments w)" "pr_id row = i" "pr_status row = StatusSuccess"
    "payments w' = sql_update (at_status i StatusSuccess)
      (\<lambda>row. row\<lparr>pr_status := StatusRefunded, pr_updated_at := t\<rparr>) (payments w)"
    "refunds w' = refunds w @ [\<lparr>rf_id = rid, rf_payment_id = i, rf_amount = amount, rf_status = StatusSuccess,
       rf_idempotency_key = TrimSpace key, rf_created_at = u\<rparr>]"
    by (auto simp: refund_commit_def)
  note r = this
  have "row\<lparr>pr_status := StatusRefunded, pr_updated_at := t\<rparr> \<in> set (payments w')"
    unfolding r(4) set_sql_update using r by (intro bexI [of _ row]) (simp_all add: at_status_def)
  then have "\<exists>row \<in> set (payments w'). pr_id row = i \<and> pr_status row = StatusRefunded"
    by (rule rev_bexI) (use r in simp)
  then show ?thesis using r by simp
qed

interpretation repo: payment_store E "PaymentRepo E r" for E r
  by unfold_locales
    (simp_all add: PaymentRepo_def ledger_step.intros GetPaymentByID_tables create_row_repo settle_row_repo
       fail_row_repo GetPaymentByID_Inr refund_row_repo)

section \<open>Properties of creation\<close>

text \<open>
  C10: a create call that is answered has settled exactly the payment it names: the stored
  row has the merchant and the amount of the request and the status of the response, which
  is \<open>success\<close> or \<open>failed\<close>. It is \<open>success\<close> only if the provider that the router selects for
  the stored currency and the amount answered the (retried) charge for that payment with
  captured or authorized, and then the row holds the name of that provider and its reference.
\<close>

theorem create_payment_answer:
  assumes "distinct (map pr_id (payments w))"
    and "CreatePayment E F T (NewPaymentService (Some (PaymentRepo E r)) (Some rt)) req (w, ps) = (Inr resp, w', ps')"
  shows "\<exists>row \<in> set (payments w'). pr_id row = cs_PaymentID resp \<and> pr_status row = cs_Status resp \<and>
    pr_merchant_id row = cr_MerchantID req \<and> pr_amount row = cr_Amount req \<and>
    ((cs_Status resp = StatusSuccess \<and>
       (\<exists>ad c creq s' outs ds. Select (e_upper E) (e_quote E) (Some rt) (pr_currency row) (wrap64 (cr_Amount req)) = Inr ad \<and>
          q_PaymentID creq = cs_PaymentID resp \<and> q_Amount creq = wrap64 (cr_Amount req) \<and> q_Currency creq = pr_currency row \<and>
          DoWithObserver F T DefaultConfig (a_Charge ad creq) ps = (Inr (Some c), s', outs, ds) \<and>
          c_Status c \<in> {ChargeStatusCaptured, ChargeStatusAuthorized} \<and>
          pr_psp row = strOrNil (a_Name ad) \<and> pr_psp_reference_id row = strOrNil (c_PSPReferenceID c))) \<or>
     cs_Status resp = StatusFailed)"
  by (rule repo.CreatePayment_answer) (use assms in \<open>simp_all add: NewPaymentService_def\<close>)

text \<open>
  Whatever a create call does and however it ends (refused, failed at the provider, cut
  off by a database fault at any point), it moves the database only along the steps of the
  ledger, so that the invariant of the ledger holds after it.
\<close>

theorem create_payment_keeps_ledger:
  assumes "ledger_inv w"
    and "CreatePayment E F T (NewPaymentService (Some (PaymentRepo E r)) (Some rt)) req (w, ps) = (res, w', ps')"
  shows "(ledger_step E)\<^sup>*\<^sup>* w w' \<and> ledger_inv w'"
proof -
  have "(ledger_step E)\<^sup>*\<^sup>* w w'"
    by (rule repo.CreatePayment_steps) (use assms(2) in \<open>simp add: NewPaymentService_def\<close>)
  then show ?thesis using assms(1) ledger_steps_inv by blast
qed

lemma service_valid:
  "validateCreatePaymentRequest E req = None \<longleftrightarrow>
     cr_MerchantID req \<noteq> uuid_Nil \<and> 0 < cr_Amount req \<and> IsInt64 (cr_Amount req) \<and>
     ValidCurrency (TrimSpace (ToUpper (e_upper E) (cr_Currency req))) \<and>
     TrimSpace (cr_IdempotencyKey req) \<noteq> [] \<and> length (TrimSpace (cr_IdempotencyKey req)) \<le> 255"
  using length_currency by (auto simp: validateCreatePaymentRequest_def Let_def)

lemma validate_ok:
  assumes "p_ID p \<noteq> uuid_Nil" "p_MerchantID p \<noteq> uuid_Nil" "TrimSpace (p_IdempotencyKey p) \<noteq> []"
    "length (TrimSpace (p_IdempotencyKey p)) \<le> 255" "0 < p_Amount p" "IsInt64 (p_Amount p)"
    "ValidCurrency (TrimSpace (ToUpper (e_upper E) (p_Currency p)))" "p_Status p = StatusInitiated"
  shows "validatePaymentForCreate E (Some p) = Inr (p\<lparr>p_IdempotencyKey := TrimSpace (p_IdempotencyKey p),
    p_Currency := TrimSpace (ToUpper (e_upper E) (p_Currency p)), p_Status := StatusInitiated\<rparr>)"
  using assms length_currency by (simp add: validatePaymentForCreate_def Let_def)

text \<open>
  The two validations agree. For a request whose currency is written in ASCII, the service
  accepts it exactly when the repository accepts the payment made from it, so a request that
  passed the first check is never refused by the second.
\<close>

theorem validations_agree:
  assumes "ascii (cr_Currency req)" and "i \<noteq> uuid_Nil"
  shows "validateCreatePaymentRequest E req = None \<longleftrightarrow>
    (\<exists>p. validatePaymentForCreate E (Some (new_payment E i req)) = Inr p)"
proof -
  have cur: "TrimSpace (ToUpper (e_upper E) (p_Currency (new_payment E i req))) =
      TrimSpace (ToUpper (e_upper E) (cr_Currency req))"
    using ToUpper_TrimSpace(2) [OF assms(1)] by (simp add: new_payment_def)
  have fields: "p_ID (new_payment E i req) = i" "p_MerchantID (new_payment E i req) = cr_MerchantID req"
    "p_Amount (new_payment E i req) = cr_Amount req" "p_Status (new_payment E i req) = StatusInitiated"
    "TrimSpace (p_IdempotencyKey (new_payment E i req)) = TrimSpace (cr_IdempotencyKey req)"
    by (simp_all add: new_payment_def)
  show ?thesis
    unfolding service_valid
    using validate_ok [of "new_payment E i req" E] validate_Inr [of E "new_payment E i req"] assms(2)
    unfolding cur fields by blast
qed

section \<open>Progress\<close>

text \<open>Without faults, every repository call of a create request succeeds.\<close>

lemma create_ok:
  assumes "no_faults E" "repo_ready r" "validatePaymentForCreate E (Some p) = Inr q"
    "p_ID q \<notin> pr_id ` set (payments w)" "p_IdempotencyKey q \<notin> pr_idempotency_key ` set (payments w)"
  obtains q' w' row where "repo_CreatePayment E r (Some p) w = (Inr q', w')"
    "payments w' = payments w @ [row]" "pr_id row = p_ID q" "pr_status row = p_Status q" "outbox w' = outbox w"
proof -
  obtain c u w1 where t: "created_of E q w = (c, u, w1)" by (metis prod.exhaust)
  have tw: "payments w1 = payments w" "outbox w1 = outbox w"
    using created_of_tables [of E q w] by (simp_all add: t tables_eq_iff)
  have "db_call E (payment_insert (payment_row_of q c u)) w1 =
      (Inr (), (tickw w1)\<lparr>payments := payments w @ [payment_row_of q c u]\<rparr>)"
    using assms tw by (simp add: db_call_def no_faults_def payment_insert_def payment_row_of_def)
  then show thesis
    using CreatePayment_valid [OF assms(2,3) t] tw
    by (intro that [of "q\<lparr>p_CreatedAt := c, p_UpdatedAt := u\<rparr>"
        "(tickw w1)\<lparr>payments := payments w @ [payment_row_of q c u]\<rparr>" "payment_row_of q c u"])
      (simp_all add: payment_row_of_def)
qed

lemma start_ok:
  assumes "no_faults E" "repo_ready r" "i \<noteq> uuid_Nil" "row \<in> set (payments w)" "pr_id row = i"
    "pr_status row = StatusInitiated"
  obtains w' where "UpdatePaymentStatus E r i StatusInitiated StatusProcessing w = (Inr (), w')"
    "\<exists>row \<in> set (payments w'). at_status i StatusProcessing row" "outbox w' = outbox w"
proof -
  have "sql_count (at_status i StatusInitiated) (payments w) \<noteq> 0"
    using assms(4-6) by (auto simp: sql_count_zero at_status_def)
  then have eq: "UpdatePaymentStatus E r i StatusInitiated StatusProcessing w =
      (Inr (), snd (update_status_stmt E i StatusInitiated StatusProcessing (tickw w)))"
    using assms(1-3) by (simp add: UpdatePaymentStatus_def db_call_def no_faults_def update_status_stmt_def)
  have "row\<lparr>pr_status := StatusProcessing, pr_updated_at := db_now E (tickw w)\<rparr> \<in>
      set (payments (snd (update_status_stmt E i StatusInitiated StatusProcessing (tickw w))))"
    using assms(4-6) by (auto simp: update_status_stmt_def set_sql_update at_status_def intro!: bexI [of _ row])
  then have "\<exists>row \<in> set (payments (snd (update_status_stmt E i StatusInitiated StatusProcessing (tickw w)))).
      at_status i StatusProcessing row"
    by (rule rev_bexI) (simp add: at_status_def assms(5))
  then show thesis
    by (intro that [OF eq]) (simp_all add: update_status_stmt_def)
qed

text \<open>Identifiers that are new to the tables, at every moment.\<close>

definition fresh_ids :: "env \<Rightarrow> world \<Rightarrow> bool" where
  "fresh_ids E w \<longleftrightarrow> (\<forall>t. \<exists>i. uuid7_at E t = Inr i \<and> i \<noteq> uuid_Nil \<and> i \<notin> pr_id ` set (payments w) \<and>
     i \<notin> ob_id ` set (outbox w))"

lemma enqueue_ok:
  assumes "no_faults E" "repo_outbox r" "uuid7_at E (tick w) = Inr e" "e \<noteq> uuid_Nil" "e \<notin> ob_id ` set (outbox w)"
    "i \<in> pr_id ` set (payments w)"
  shows "fst (enqueueOutboxPaymentEventTx E (Some r) ty i m a c st psp ref reason rid ra b tm w) = Inr ()"
  using assms
  by (simp add: enqueueOutboxPaymentEventTx_def NewID_def EnqueueTx_def Now_def db_call_def no_faults_def
      outbox_insert_def outbox_row_of_def Let_def)

lemma run_tx_ok:
  assumes "no_faults E" and "fst (body (tickw w)) = Inr x"
  shows "fst (run_tx E b c body w) = Inr x"
  using assms by (cases "body (tickw w)") (simp add: run_tx_def db_call_def no_faults_def)

lemma status_body_ok:
  assumes "no_faults E" "repo_outbox r" "row \<in> set (payments w)" "at_status i st row"
    and fresh: "\<And>t. \<exists>e. uuid7_at E t = Inr e \<and> e \<noteq> uuid_Nil \<and> e \<notin> ob_id ` set (outbox w)"
    and f: "\<And>t x. pr_id (f t x) = pr_id x"
  shows "fst (case db_call E (\<lambda>v. update_returning i st (f (db_now E v)) v) (tickw w) of
       (Inl e, w2) \<Rightarrow> K e w2
     | (Inr row, w2) \<Rightarrow> (case Now E w2 of (tm, w3) \<Rightarrow>
         enqueueOutboxPaymentEventTx E (Some r) ty i (pr_merchant_id row) (pr_amount row) (pr_currency row) to psp ref
           reason uuid_Nil 0 False tm w3)) = Inr ()"
proof -
  obtain x where x: "find (at_status i st) (payments w) = Some x"
    using assms(3,4) by (metis find_NoneD option.exhaust)
  let ?w2 = "(tickw (tickw w))\<lparr>payments := sql_update (at_status i st) (f (db_now E (tickw (tickw w)))) (payments w)\<rparr>"
  have call: "db_call E (\<lambda>v. update_returning i st (f (db_now E v)) v) (tickw w) = (Inr x, ?w2)"
    using assms(1) x by (simp add: db_call_def no_faults_def update_returning_def)
  have "map pr_id (payments ?w2) = map pr_id (payments w)" by (simp add: sql_update_keys f)
  moreover have "i \<in> set (map pr_id (payments w))" using assms(3,4) by (auto simp: at_status_def)
  ultimately have "i \<in> pr_id ` set (payments ?w2)" by (metis list.set_map)
  moreover obtain e where "uuid7_at E (Suc (tick ?w2)) = Inr e" "e \<noteq> uuid_Nil" "e \<notin> ob_id ` set (outbox w)"
    using fresh by blast
  ultimately show ?thesis
    using assms(1,2) unfolding call by (simp add: Now_def enqueue_ok)
qed

lemma settle_ok:
  assumes "no_faults E" "repo_db r" "repo_outbox r" "i \<noteq> uuid_Nil" "row \<in> set (payments w)" "at_status i StatusProcessing row"
    and "\<And>t. \<exists>e. uuid7_at E t = Inr e \<and> e \<noteq> uuid_Nil \<and> e \<notin> ob_id ` set (outbox w)"
  shows "fst (UpdatePaymentStatusWithPSP E (Some r) i StatusProcessing StatusSuccess psp ref w) = Inr ()"
proof -
  have g: "(\<not> repo_ready (Some r)) = False" "(i = uuid_Nil) = False"
    "(\<not> IsKnownStatus StatusProcessing \<or> \<not> IsKnownStatus StatusSuccess) = False"
    "(StatusProcessing = StatusSuccess) = False" "(\<not> ValidTransition StatusProcessing StatusSuccess) = False"
    using assms(2,4) by (simp_all add: repo_ready_def)
  show ?thesis
    unfolding UpdatePaymentStatusWithPSP_def g if_False
    by (rule run_tx_ok [OF assms(1)], rule status_body_ok [OF assms(1,3,5,6,7)]) simp
qed

lemma fail_ok:
  assumes "no_faults E" "repo_db r" "repo_outbox r" "i \<noteq> uuid_Nil" "row \<in> set (payments w)" "at_status i StatusProcessing row"
    and "\<And>t. \<exists>e. uuid7_at E t = Inr e \<and> e \<noteq> uuid_Nil \<and> e \<notin> ob_id ` set (outbox w)"
  shows "fst (UpdatePaymentFailed E (Some r) i StatusProcessing psp ref reason w) = Inr ()"
proof -
  have g: "(\<not> repo_ready (Some r)) = False" "(i = uuid_Nil) = False"
    "(\<not> IsKnownStatus StatusProcessing \<or> \<not> IsKnownStatus StatusFailed) = False"
    "(StatusProcessing = StatusFailed) = False" "(\<not> ValidTransition StatusProcessing StatusFailed) = False"
    using assms(2,4) by (simp_all add: repo_ready_def)
  show ?thesis
    unfolding UpdatePaymentFailed_def g if_False
    by (rule run_tx_ok [OF assms(1)], rule status_body_ok [OF assms(1,3,5,6,7)]) simp
qed

text \<open>A retried charge at a provider that keeps its contract ends in an error or a response.\<close>

definition ctx_errors :: "retry_env \<Rightarrow> bool" where
  "ctx_errors T \<longleftrightarrow> (\<forall>k e. re_ctx_err T k = Some e \<or> re_ctx_done T k = Some e \<longrightarrow>
     e = Sentinel Canceled \<or> e = Sentinel DeadlineExceeded)"

lemma charge_ends:
  assumes "psp_provider charge" and "ctx_errors T" and "DoWithObserver F T cfg (charge creq) s = (res, s', outs, ds)"
  shows "(\<exists>e. res = Inl e \<and> (\<forall>m. e \<noteq> GoPanic m)) \<or> (\<exists>c. res = Inr (Some c))"
proof -
  obtain n where n: "run_spec T (nat (MaxAttempts (withDefaults cfg))) (charge creq) s (res, s', outs, ds) n"
    using DoWithObserver_spec [where F = F and R = T and cfg = cfg and op = "charge creq" and s = s] assms(3) by auto
  show ?thesis
  proof (cases res)
    case (Inr r)
    then have "fst (charge creq (op_state (charge creq) s (n - 1))) = Inr r"
      using n by (simp add: run_spec_def op_answer_def)
    with psp_provider.charge_answers [OF assms(1)] Inr show ?thesis by blast
  next
    case (Inl e)
    have "e \<noteq> GoPanic m" for m
    proof
      assume "e = GoPanic m"
      then have "fst (charge creq (op_state (charge creq) s (n - 1))) = Inl (GoPanic m)"
        using n Inl assms(2) by (auto simp: run_spec_def op_answer_def ctx_errors_def wrap_pre_def)
      with psp_provider.charge_no_panic [OF assms(1)] show False by blast
    qed
    with Inl show ?thesis by blast
  qed
qed

lemma finish_ok:
  assumes "no_faults E" "repo_db r" "repo_outbox r" "i \<noteq> uuid_Nil" "\<exists>row \<in> set (payments w). at_status i StatusProcessing row"
    and "\<And>t. \<exists>e. uuid7_at E t = Inr e \<and> e \<noteq> uuid_Nil \<and> e \<notin> ob_id ` set (outbox w)"
  shows "\<exists>resp. fst (finish_failed (PaymentRepo E (Some r)) i psp ref reason w) = Inr resp"
    and "\<exists>resp. fst (finish_success (PaymentRepo E (Some r)) i psp ref w) = Inr resp"
proof -
  obtain row where row: "row \<in> set (payments w)" "at_status i StatusProcessing row" using assms(5) by blast
  have "fst (UpdatePaymentFailed E (Some r) i StatusProcessing psp ref reason w) = Inr ()"
    by (rule fail_ok [OF assms(1-4) row assms(6)])
  moreover have "fst (UpdatePaymentStatusWithPSP E (Some r) i StatusProcessing StatusSuccess psp ref w) = Inr ()"
    by (rule settle_ok [OF assms(1-4) row assms(6)])
  ultimately show "\<exists>resp. fst (finish_failed (PaymentRepo E (Some r)) i psp ref reason w) = Inr resp"
    "\<exists>resp. fst (finish_success (PaymentRepo E (Some r)) i psp ref w) = Inr resp"
    by (auto simp: finish_failed_def finish_success_def PaymentRepo_def split: prod.splits sum.splits)
qed

lemma finish_charge_ok:
  assumes "no_faults E" "repo_db r" "repo_outbox r" "i \<noteq> uuid_Nil" "\<exists>row \<in> set (payments w). at_status i StatusProcessing row"
    and "\<And>t. \<exists>e. uuid7_at E t = Inr e \<and> e \<noteq> uuid_Nil \<and> e \<notin> ob_id ` set (outbox w)"
    and "(\<exists>e. res = Inl e \<and> (\<forall>m. e \<noteq> GoPanic m)) \<or> (\<exists>c. res = Inr (Some c))"
  shows "\<exists>resp. fst (finish_charge (PaymentRepo E (Some r)) i psp res w) = Inr resp"
proof -
  note ok = finish_ok [OF assms(1-6)]
  from assms(7) show ?thesis
  proof
    assume "\<exists>e. res = Inl e \<and> (\<forall>m. e \<noteq> GoPanic m)"
    then obtain e where "res = Inl e" "\<forall>m. e \<noteq> GoPanic m" by blast
    then show ?thesis using ok(1) by (cases e) (simp_all add: finish_charge_def)
  next
    assume "\<exists>c. res = Inr (Some c)"
    then show ?thesis using ok by (auto simp: finish_charge_def)
  qed
qed

lemma select_adapter:
  assumes "Select U Q (Some rt) cur amount = Inr ad"
  shows "\<exists>n. adapters rt n = Some (Some ad)"
  using assms by (auto simp: Select_def select_rules_find router_adapter_def Let_def split: option.splits)

lemma create_call_answers:
  assumes "no_faults E" and "repo_db r" and "repo_outbox r" and "fresh_ids E w" and "ctx_errors T"
    and "\<forall>n ad. adapters rt n = Some (Some ad) \<longrightarrow> psp_provider (a_Charge ad)"
    and "ascii (cr_Currency req)" and "validateCreatePaymentRequest E req = None"
    and "TrimSpace (cr_IdempotencyKey req) \<notin> pr_idempotency_key ` set (payments w)"
  shows "\<exists>resp. fst (CreatePayment E F T (NewPaymentService (Some (PaymentRepo E (Some r))) (Some rt)) req (w, ps)) = Inr resp"
proof -
  obtain i where i: "uuid7_at E (tick w) = Inr i" "i \<noteq> uuid_Nil" "i \<notin> pr_id ` set (payments w)"
    using assms(4) unfolding fresh_ids_def by blast
  have ready: "repo_ready (Some r)" using assms(2) by (simp add: repo_ready_def)
  let ?p = "new_payment E i req"
  obtain q where q: "validatePaymentForCreate E (Some ?p) = Inr q"
    using assms(7,8) i(2) validate_ok [of ?p E] ToUpper_TrimSpace(2) [OF assms(7), of "e_upper E"]
    unfolding service_valid by (auto simp: new_payment_def)
  have qf: "p_ID q = i" "p_IdempotencyKey q = TrimSpace (cr_IdempotencyKey req)" "p_Status q = StatusInitiated"
    using validate_Inr [OF q] by (simp_all add: new_payment_def)
  obtain q' w2 row where c: "repo_CreatePayment E (Some r) (Some ?p) (tickw w) = (Inr q', w2)"
    "payments w2 = payments w @ [row]" "pr_id row = i" "pr_status row = StatusInitiated" "outbox w2 = outbox w"
    using create_ok [OF assms(1) ready q, of "tickw w"] i(3) assms(9) qf by auto
  obtain w3 where u: "UpdatePaymentStatus E (Some r) i StatusInitiated StatusProcessing w2 = (Inr (), w3)"
    "\<exists>row \<in> set (payments w3). at_status i StatusProcessing row" "outbox w3 = outbox w"
    using start_ok [OF assms(1) ready i(2), of row w2] c by auto
  have fresh: "\<exists>e. uuid7_at E t = Inr e \<and> e \<noteq> uuid_Nil \<and> e \<notin> ob_id ` set (outbox w3)" for t
    using assms(4) u(3) by (auto simp: fresh_ids_def)
  show ?thesis
  proof (cases "Select (e_upper E) (e_quote E) (Some rt) (p_Currency q') (wrap64 (cr_Amount req))")
    case (Inl e)
    then show ?thesis
      using finish_ok(1) [OF assms(1-3) i(2) u(2) fresh, of "[]" "[]" "Error_text e"] assms(8) i(1) c(1) u(1)
      by (auto simp: NewPaymentService_def CreatePayment_def NewID_def PaymentRepo_def split: prod.splits)
  next
    case (Inr ad)
    obtain cres ps1 outs ds where d: "DoWithObserver F T DefaultConfig
        (a_Charge ad (charge_request_of i (wrap64 (cr_Amount req)) q')) ps = (cres, ps1, outs, ds)"
      by (metis prod.exhaust)
    have "psp_provider (a_Charge ad)" using select_adapter [OF Inr] assms(6) by blast
    from charge_ends [OF this assms(5) d] have
      "\<exists>resp. fst (finish_charge (PaymentRepo E (Some r)) i (a_Name ad) cres (count_retries outs w3)) = Inr resp"
      using count_retries_tables [of outs w3] u(2) fresh
      by (intro finish_charge_ok [OF assms(1-3) i(2)]) (simp_all add: tables_def)
    then show ?thesis
      using Inr d assms(8) i(1) c(1) u(1)
      by (auto simp: NewPaymentService_def CreatePayment_def NewID_def PaymentRepo_def split: prod.splits)
  qed
qed


section \<open>Properties of refunds\<close>

text \<open>
  C27: a refund that the service grants is for a payment that was successful, in its own
  currency, and of a positive amount not above the payment's; afterwards the payment is
  refunded and the refund of exactly that amount is stored under the identifier answered. No
  refund call, granted or not, breaks the ledger.
\<close>

theorem refund_payment_granted:
  assumes "ledger_inv w"
    and "RefundPayment E (NewPaymentService (Some (PaymentRepo E r)) (Some rt)) i req w = (res, w')"
  shows "ledger_inv w' \<and>
    (\<forall>resp. res = Inr resp \<longrightarrow>
      (\<exists>row \<in> set (payments w). pr_id row = i \<and> pr_status row = StatusSuccess \<and>
         pr_currency row = ToUpper (e_upper E) (TrimSpace (rr_Currency req)) \<and>
         0 < rr_Amount req \<and> rr_Amount req \<le> pr_amount row \<and> rs_Status resp = StatusSuccess \<and>
         (\<exists>x \<in> set (refunds w'). rf_id x = rs_RefundID resp \<and> rf_payment_id x = i \<and> rf_amount x = rr_Amount req) \<and>
         (\<exists>row' \<in> set (payments w'). pr_id row' = i \<and> pr_status row' = StatusRefunded)))"
proof -
  let ?s = "\<lparr>svc_repo = Some (PaymentRepo E r), svc_router = Some rt, svc_retryCfg = DefaultConfig\<rparr>"
  have call: "RefundPayment E (Some ?s) i req w = (res, w')" using assms(2) by (simp add: NewPaymentService_def)
  have "distinct (map pr_id (payments w))" using assms(1) by (simp add: ledger_inv_def)
  from repo.RefundPayment_steps [OF this call] have "ledger_inv w'" using assms(1) ledger_steps_inv by simp blast
  moreover have "RefundPayment E (Some ?s) i req w = (Inr resp, w')" if "res = Inr resp" for resp
    using call that by simp
  ultimately show ?thesis by (intro conjI allI impI) (simp_all add: repo.RefundPayment_answer)
qed

section \<open>Concrete calls\<close>

definition yes_adapter :: "string \<Rightarrow> unit adapter" where
  "yes_adapter n = \<lparr>a_Name = n,
     a_Charge = (\<lambda>_ s. (Inr (Some \<lparr>c_PSPReferenceID = ''ch'', c_Status = ChargeStatusCaptured, c_RawResponse = JObj []\<rparr>), s)),
     a_Refund = (\<lambda>_ s. (Inr None, s))\<rparr>"

definition sample_service :: "unit payment_service option" where
  "sample_service = NewPaymentService (Some (PaymentRepo steady (Some sample_repo)))
     (Some (DefaultRouter (yes_adapter AdapterStripeMock) (yes_adapter AdapterRazorpayMock)))"

definition sample_request :: create_payment_request where
  "sample_request = \<lparr>cr_MerchantID = 2, cr_Amount = 500, cr_Currency = ''usd'', cr_IdempotencyKey = ''k1''\<rparr>"

lemma yes_provider: "psp_provider (a_Charge (yes_adapter n))"
  by unfold_locales (simp_all add: yes_adapter_def)

lemma sample_providers:
  "\<forall>n ad. adapters (DefaultRouter (yes_adapter AdapterStripeMock) (yes_adapter AdapterRazorpayMock)) n = Some (Some ad) \<longrightarrow>
     psp_provider (a_Charge ad)"
  using yes_provider by (auto simp: DefaultRouter_def NewRouter_def split: if_splits)

lemma sample_valid: "validateCreatePaymentRequest steady sample_request = None" "ascii (cr_Currency sample_request)"
  by (simp_all add: service_valid sample_request_def steady_def ToUpper_def ascii_upper_def TrimSpace_USD TrimSpace_r1
      ValidCurrency_def allowedCurrencies_def IsInt64_def uuid_Nil_def)

lemma sample_environment: "fresh_ids steady empty_world" "ctx_errors calm" "repo_db sample_repo" "repo_outbox sample_repo"
  by (simp_all add: fresh_ids_def steady_def empty_world_def uuid_Nil_def ctx_errors_def calm_def sample_repo_def)

lemma sample_call:
  obtains resp w' where "CreatePayment steady exact_ops calm sample_service sample_request (empty_world, ()) = (Inr resp, w', ())"
proof -
  have "\<exists>resp. fst (CreatePayment steady exact_ops calm sample_service sample_request (empty_world, ())) = Inr resp"
    unfolding sample_service_def
    by (rule create_call_answers [OF steady_ok(2) sample_environment(3,4,1,2) sample_providers sample_valid(2,1)])
      (simp add: empty_world_def)
  then show thesis using that by (metis old.unit.exhaust prod.exhaust fst_conv)
qed


theorem create_payment_answer_witness:
  "\<exists>resp w'. CreatePayment steady exact_ops calm sample_service sample_request (empty_world, ()) = (Inr resp, w', ()) \<and>
     (\<exists>row \<in> set (payments w'). pr_id row = cs_PaymentID resp \<and> pr_status row = cs_Status resp \<and> pr_amount row = 500)"
proof -
  obtain resp w' where c: "CreatePayment steady exact_ops calm sample_service sample_request (empty_world, ()) = (Inr resp, w', ())"
    by (rule sample_call)
  have "distinct (map pr_id (payments empty_world))" by (simp add: empty_world_def)
  from create_payment_answer [OF this c [unfolded sample_service_def]] c show ?thesis
    by (auto simp: sample_request_def)
qed

theorem create_payment_keeps_ledger_witness:
  "ledger_inv (fst (snd (CreatePayment steady exact_ops calm sample_service sample_request (empty_world, ()))))"
proof -
  obtain resp w' where c: "CreatePayment steady exact_ops calm sample_service sample_request (empty_world, ()) = (Inr resp, w', ())"
    by (rule sample_call)
  show ?thesis using create_payment_keeps_ledger [OF ledger_inv_empty c [unfolded sample_service_def]] c by simp
qed

theorem validations_agree_witness:
  "\<exists>p. validatePaymentForCreate steady (Some (new_payment steady 5 sample_request)) = Inr p"
  using validations_agree [OF sample_valid(2), of 5 steady] sample_valid(1) by (simp add: uuid_Nil_def)

text \<open>A refund of a part of the sample payment.\<close>

definition sample_refund :: refund_request where
  "sample_refund = \<lparr>rr_PaymentID = 1, rr_Amount = 200, rr_Currency = ''usd'', rr_IdempotencyKey = ''r1''\<rparr>"

lemma usd_normal: "ToUpper U (TrimSpace ''usd'') = ''USD''" "TrimSpace (ToUpper U ''usd'') = ''USD''"
  using ToUpper_TrimSpace(1) [of "''usd''" U] by (simp_all add: ToUpper_def ascii_upper_def TrimSpace_USD)

theorem refund_payment_granted_witness:
  "\<exists>resp w'. RefundPayment steady sample_service 1 sample_refund sample_settled = (Inr resp, w') \<and> ledger_inv w' \<and>
     (\<exists>x \<in> set (refunds w'). rf_id x = rs_RefundID resp \<and> rf_amount x = 200)"
proof -
  have "validateRefundRequest steady sample_refund = None"
    by (simp add: validateRefundRequest_def sample_refund_def usd_normal TrimSpace_r1 ValidCurrency_def allowedCurrencies_def)
  moreover have "GetPaymentByID steady (Some sample_repo) 1 sample_settled =
      (Inr (scanPayment (sample_payment StatusSuccess)), tickw sample_settled)"
    by (simp add: GetPaymentByID_def select_payment_def sample_settled_def tx_eval)
  moreover have "refund_checks steady sample_refund (scanPayment (sample_payment StatusSuccess)) = None"
    by (simp add: refund_checks_def sample_refund_def sample_payment_def scanPayment_def usd_normal IsInt64_def)
  moreover obtain rid w2 where "RefundPaymentAtomic steady (Some sample_repo) 1 200 ''r1'' (tickw sample_settled) = (Inr rid, w2)"
    by (simp add: RefundPaymentAtomic_def TrimSpace_r1 refund_insert_def sample_settled_def sample_row_def tx_eval)
  ultimately obtain resp w' where c: "RefundPayment steady sample_service 1 sample_refund sample_settled = (Inr resp, w')"
    by (simp add: RefundPayment_def sample_service_def NewPaymentService_def PaymentRepo_def sample_refund_def
        TrimSpace_r1 uuid_Nil_def IsInt64_def)
  from refund_payment_granted [OF sample_settled_inv c [unfolded sample_service_def]] c show ?thesis
    by (auto simp: sample_refund_def)
qed

end
