(* ===== verification/Http_Handler.thy ===== *)
theory Http_Handler
  imports Payment_Service Http
begin

text \<open>
  The HTTP adapter (\<open>internal/handler/payment_handler.go\<close>) and the request log and metrics
  (\<open>internal/middleware/logging.go\<close>, \<open>metrics.go\<close>). The state is the database world and the
  state of the providers. \<open>None\<close> stands for a nil handler.
\<close>

type_synonym 'p state = "world \<times> 'p"

text \<open>The interface \<open>PaymentServiceAPI\<close>: one field per method.\<close>

record 'p service_api =
  api_CreatePayment :: "create_payment_request \<Rightarrow> 'p state \<Rightarrow> create_payment_response result \<times> 'p state"
  api_GetPayment :: "uuid \<Rightarrow> 'p state \<Rightarrow> payment result \<times> 'p state"
  api_RefundPayment :: "uuid \<Rightarrow> refund_request \<Rightarrow> 'p state \<Rightarrow> refund_response result \<times> 'p state"

definition PaymentService_api :: "env \<Rightarrow> float_ops \<Rightarrow> retry_env \<Rightarrow> 'p payment_service option \<Rightarrow> 'p service_api" where
  "PaymentService_api E F T svc =
     \<lparr>api_CreatePayment = CreatePayment E F T svc,
      api_GetPayment = (\<lambda>i st. case GetPayment svc i (fst st) of (r, w) \<Rightarrow> (r, w, snd st)),
      api_RefundPayment = (\<lambda>i req st. case RefundPayment E svc i req (fst st) of (r, w) \<Rightarrow> (r, w, snd st))\<rparr>"

record 'p payment_handler =
  h_svc :: "'p service_api option"
  h_pool :: bool

definition NewPaymentHandler :: "'p service_api option \<Rightarrow> bool \<Rightarrow> 'p payment_handler option" where
  "NewPaymentHandler svc pool = Some \<lparr>h_svc = svc, h_pool = pool\<rparr>"

section \<open>Writing responses\<close>

definition json_type :: string where
  "json_type = ''application/json; charset=utf-8''"

definition writeJSON :: "env \<Rightarrow> int \<Rightarrow> json \<Rightarrow> wop list" where
  "writeJSON E status v =
     [HSet ''Content-Type'' json_type, HStatus status, HWrite (json_encode (e_json E) v @ [CHR 0x0A])]"

definition errBody :: "string \<Rightarrow> string \<Rightarrow> json" where
  "errBody code message = JObj [(''error'', JObj [(''code'', JStr code), (''message'', JStr message)])]"

definition writeErr :: "env \<Rightarrow> int \<Rightarrow> string \<Rightarrow> string \<Rightarrow> wop list" where
  "writeErr E status code message =
     [HSet ''Content-Type'' json_type, HStatus status,
      HWrite (json_encode (e_json E) (errBody code message) @ [CHR 0x0A])]"

text \<open>A panic of the service is not an error value: it unwinds the handler.\<close>

definition mapServiceError :: "env \<Rightarrow> go_error option \<Rightarrow> wop list" where
  "mapServiceError E err =
     (case err of
        None \<Rightarrow> []
      | Some (GoPanic m) \<Rightarrow> [HPanic m]
      | Some e \<Rightarrow>
        if errors_Is e ErrNotFound then writeErr E 404 ''NOT_FOUND'' (TrimSpace (Error_text e))
        else if errors_Is e ErrConflict then writeErr E 409 ''CONFLICT'' (TrimSpace (Error_text e))
        else if errors_Is e ErrValidation \<or> errors_Is e ErrInvalidPayment \<or> errors_Is e ErrInvalidAmount
             \<or> errors_Is e ErrInvalidIdempotencyKey then
          writeErr E 400 ''VALIDATION_ERROR'' (TrimSpace (Error_text e))
        else if errors_Is e ErrStatusMismatch \<or> errors_Is e ErrInvalidStatusTransition then
          writeErr E 409 ''INVALID_TRANSITION'' (TrimSpace (Error_text e))
        else if errors_Is e ErrRepositoryNotConfigured then
          writeErr E 500 ''INTERNAL_ERROR'' ''repository not configured''
        else writeErr E 500 ''INTERNAL_ERROR'' ''internal server error'')"

section \<open>Decoding requests\<close>

text \<open>The fields of the request structs, and \<open>json.Decoder.Decode\<close> of a body.\<close>

fun decode_uuid :: "env \<Rightarrow> json \<Rightarrow> uuid \<Rightarrow> uuid option" where
  "decode_uuid E (JStr s) cur = uuid_Parse E s"
| "decode_uuid E JNull cur = Some cur"
| "decode_uuid E _ cur = None"

fun decode_bigint :: "json \<Rightarrow> int \<Rightarrow> int option" where
  "decode_bigint (JInt n) cur = Some n"
| "decode_bigint JNull cur = Some cur"
| "decode_bigint _ cur = None"

definition create_field :: "env \<Rightarrow> string \<times> json \<Rightarrow> create_payment_request \<Rightarrow> create_payment_request option" where
  "create_field E kv r =
     (case kv of (k, v) \<Rightarrow>
        if key_is E k ''merchant_id'' then map_option (\<lambda>x. r\<lparr>cr_MerchantID := x\<rparr>) (decode_uuid E v (cr_MerchantID r))
        else if key_is E k ''amount'' then map_option (\<lambda>x. r\<lparr>cr_Amount := x\<rparr>) (decode_bigint v (cr_Amount r))
        else if key_is E k ''currency'' then map_option (\<lambda>x. r\<lparr>cr_Currency := x\<rparr>) (decode_str v (cr_Currency r))
        else if key_is E k ''idempotency_key'' then
          map_option (\<lambda>x. r\<lparr>cr_IdempotencyKey := x\<rparr>) (decode_str v (cr_IdempotencyKey r))
        else Some r)"

definition refund_field :: "env \<Rightarrow> string \<times> json \<Rightarrow> refund_request \<Rightarrow> refund_request option" where
  "refund_field E kv r =
     (case kv of (k, v) \<Rightarrow>
        if key_is E k ''payment_id'' then map_option (\<lambda>x. r\<lparr>rr_PaymentID := x\<rparr>) (decode_uuid E v (rr_PaymentID r))
        else if key_is E k ''amount'' then map_option (\<lambda>x. r\<lparr>rr_Amount := x\<rparr>) (decode_bigint v (rr_Amount r))
        else if key_is E k ''currency'' then map_option (\<lambda>x. r\<lparr>rr_Currency := x\<rparr>) (decode_str v (rr_Currency r))
        else if key_is E k ''idempotency_key'' then
          map_option (\<lambda>x. r\<lparr>rr_IdempotencyKey := x\<rparr>) (decode_str v (rr_IdempotencyKey r))
        else Some r)"

definition Decode :: "env \<Rightarrow> (string \<times> json \<Rightarrow> 'r \<Rightarrow> 'r option) \<Rightarrow> string result \<Rightarrow> 'r \<Rightarrow> 'r option" where
  "Decode E f body r =
     (case body of
        Inl _ \<Rightarrow> None
      | Inr s \<Rightarrow>
          (case first_json E s of
             Some (JObj kvs) \<Rightarrow> decode_fields f kvs r
           | Some JNull \<Rightarrow> Some r
           | _ \<Rightarrow> None))"

definition zero_create :: create_payment_request where
  "zero_create = \<lparr>cr_MerchantID = uuid_Nil, cr_Amount = 0, cr_Currency = [], cr_IdempotencyKey = []\<rparr>"

definition zero_refund :: refund_request where
  "zero_refund = \<lparr>rr_PaymentID = uuid_Nil, rr_Amount = 0, rr_Currency = [], rr_IdempotencyKey = []\<rparr>"

section \<open>Handlers\<close>

definition create_response_json :: "env \<Rightarrow> create_payment_response \<Rightarrow> json" where
  "create_response_json E resp =
     JObj [(''payment_id'', JStr (uuid_str E (cs_PaymentID resp))), (''status'', JStr (cs_Status resp))]"

definition refund_response_json :: "env \<Rightarrow> refund_response \<Rightarrow> json" where
  "refund_response_json E resp =
     JObj [(''refund_id'', JStr (uuid_str E (rs_RefundID resp))), (''status'', JStr (rs_Status resp))]"

definition paymentToHTTPDetail :: "env \<Rightarrow> payment \<Rightarrow> json" where
  "paymentToHTTPDetail E p =
     JObj ([(''id'', JStr (uuid_str E (p_ID p))), (''merchant_id'', JStr (uuid_str E (p_MerchantID p))),
            (''amount'', JStr (Itoa (p_Amount p))), (''currency'', JStr (p_Currency p)),
            (''status'', JStr (p_Status p)), (''idempotency_key'', JStr (p_IdempotencyKey p))]
           @ omitempty_str ''psp'' (p_PSP p)
           @ omitempty_str ''psp_reference_id'' (p_PSPReferenceID p)
           @ omitempty_str ''failure_reason'' (p_FailureReason p)
           @ [(''created_at'', JStr (rfc3339 E (p_CreatedAt p))), (''updated_at'', JStr (rfc3339 E (p_UpdatedAt p)))])"

definition handler_svc :: "'p payment_handler option \<Rightarrow> 'p service_api option" where
  "handler_svc h = Option.bind h h_svc"

definition service_unavailable :: "env \<Rightarrow> wop list" where
  "service_unavailable E = writeErr E 500 ''INTERNAL_ERROR'' ''service unavailable''"

definition nil_body :: "wop list" where
  "nil_body = [HPanic ''invalid memory address or nil pointer dereference'']"

definition createPayment :: "env \<Rightarrow> 'p payment_handler option \<Rightarrow> 'p state handler" where
  "createPayment E h r st =
     (case handler_svc h of
        None \<Rightarrow> (service_unavailable E, st)
      | Some svc \<Rightarrow>
        (case rq_Body r of
           None \<Rightarrow> (nil_body, st)
         | Some body \<Rightarrow>
           (case Decode E (create_field E) body zero_create of
              None \<Rightarrow> (writeErr E 400 ''INVALID_JSON'' ''request body must be valid JSON'', st)
            | Some req \<Rightarrow>
              (case api_CreatePayment svc req st of
                 (Inl err, st') \<Rightarrow> (mapServiceError E (Some err), st')
               | (Inr resp, st') \<Rightarrow> (writeJSON E 201 (create_response_json E resp), st')))))"

definition getPayment :: "env \<Rightarrow> 'p payment_handler option \<Rightarrow> 'p state handler" where
  "getPayment E h r st =
     (case handler_svc h of
        None \<Rightarrow> (service_unavailable E, st)
      | Some svc \<Rightarrow>
        (case uuid_Parse E (rq_id r) of
           None \<Rightarrow> (writeErr E 400 ''VALIDATION_ERROR'' ''invalid payment id'', st)
         | Some i \<Rightarrow>
           (case api_GetPayment svc i st of
              (Inl err, st') \<Rightarrow> (mapServiceError E (Some err), st')
            | (Inr p, st') \<Rightarrow> (writeJSON E 200 (paymentToHTTPDetail E p), st'))))"

definition refundPayment :: "env \<Rightarrow> 'p payment_handler option \<Rightarrow> 'p state handler" where
  "refundPayment E h r st =
     (case handler_svc h of
        None \<Rightarrow> (service_unavailable E, st)
      | Some svc \<Rightarrow>
        (case uuid_Parse E (rq_id r) of
           None \<Rightarrow> (writeErr E 400 ''VALIDATION_ERROR'' ''invalid payment id'', st)
         | Some paymentID \<Rightarrow>
           (case rq_Body r of
              None \<Rightarrow> (nil_body, st)
            | Some body \<Rightarrow>
              (case Decode E (refund_field E) body zero_refund of
                 None \<Rightarrow> (writeErr E 400 ''INVALID_JSON'' ''request body must be valid JSON'', st)
               | Some req0 \<Rightarrow>
                 (let req = req0\<lparr>rr_PaymentID := paymentID\<rparr> in
                  case api_RefundPayment svc paymentID req st of
                    (Inl err, st') \<Rightarrow> (mapServiceError E (Some err), st')
                  | (Inr resp, st') \<Rightarrow> (writeJSON E 200 (refund_response_json E resp), st'))))))"

definition healthz :: "env \<Rightarrow> 'p payment_handler option \<Rightarrow> 'p state handler" where
  "healthz E h r st =
     (if (case h of None \<Rightarrow> True | Some h \<Rightarrow> \<not> h_pool h) then
        (writeErr E 503 ''DB_UNAVAILABLE'' ''database client not configured'', st)
      else
        (case db_call E (\<lambda>w. (Inr (), w)) (fst st) of
           (Inl _, w) \<Rightarrow> (writeErr E 503 ''DB_UNAVAILABLE'' ''database ping failed'', w, snd st)
         | (Inr _, w) \<Rightarrow> (writeJSON E 200 (JObj [(''status'', JStr ''ok'')]), w, snd st)))"

text \<open>The routes that \<open>Register\<close> mounts; none for a nil handler.\<close>

definition Register :: "env \<Rightarrow> 'p payment_handler option \<Rightarrow> (string \<times> string \<times> 'p state handler) list" where
  "Register E h =
     (if h = None then []
      else [(''POST'', ''/v1/payments'', createPayment E h), (''GET'', ''/v1/payments/{id}'', getPayment E h),
            (''POST'', ''/v1/payments/{id}/refund'', refundPayment E h), (''GET'', ''/healthz'', healthz E h)])"

section \<open>Request log and metrics\<close>

definition routePattern :: "http_request \<Rightarrow> string" where
  "routePattern r =
     (case rq_route r of
        None \<Rightarrow> ''unknown''
      | Some p \<Rightarrow> (let pattern = TrimSpace p in if pattern = [] then ''unknown'' else pattern))"

definition statusLabel :: "int \<Rightarrow> string" where
  "statusLabel status = Itoa status"

text \<open>
  \<open>Status()\<close> and \<open>BytesWritten()\<close> of chi's wrapping writer: the status that was sent, 0 when none was.
\<close>

definition ww_Status :: "wop list \<Rightarrow> int" where
  "ww_Status ops = (case wr_sent (run_writer ops) of None \<Rightarrow> 0 | Some (n, _) \<Rightarrow> n)"

definition logged_status :: "wop list \<Rightarrow> int" where
  "logged_status ops = (let status = ww_Status ops in if status = 0 then 200 else status)"

text \<open>When the handler panics, the lines after \<open>ServeHTTP\<close> do not run.\<close>

definition Metrics :: "env \<Rightarrow> 'p state handler \<Rightarrow> 'p state handler" where
  "Metrics E next r st =
     (case next r st of (ops, w, ps) \<Rightarrow>
        if panics ops then (ops, w, ps)
        else (let method = ToUpper (e_upper E) (rq_Method r); route = routePattern r; status = logged_status ops
              in (ops, observe (Observe ''payflow_http_request_duration_seconds'' [route, method])
                        (observe (Inc ''payflow_http_requests_total'' [route, method, statusLabel status]) w), ps)))"

definition log_level :: "int \<Rightarrow> string" where
  "log_level status = (if 500 \<le> status then ''error'' else if 400 \<le> status then ''warn'' else ''info'')"

definition Logging :: "env \<Rightarrow> 'p state handler \<Rightarrow> 'p state handler" where
  "Logging E next r st =
     (case Now E (fst st) of (start, w0) \<Rightarrow>
        (case next r (w0, snd st) of (ops, w, ps) \<Rightarrow>
           if panics ops then (ops, w, ps)
           else (let route = routePattern r; method = ToUpper (e_upper E) (rq_Method r); status = logged_status ops;
                     (fin, w1) = Now E w; merchantID = TrimSpace (header_Get (rq_Header r) ''X-Merchant-Id'')
                 in (ops, observe (LogLine (log_level status)
                        ([(''method'', method), (''route'', route), (''status'', Itoa status),
                          (''latency'', duration_str E (fin - start)),
                          (''bytes'', Itoa (int (length (wr_body (run_writer ops))))), (''request_id'', rq_reqid r)]
                         @ (if merchantID \<noteq> [] then [(''merchant_id'', merchantID)] else []))
                        ''http request complete'') w1, ps))))"

section \<open>Responses of the handlers\<close>

lemma well_written_json: "well_written [HSet k v, HStatus n, HWrite b] \<longleftrightarrow> n \<noteq> 0"
proof
  assume "well_written [HSet k v, HStatus n, HWrite b]"
  then obtain hs m bs where e: "[HSet k v, HStatus n, HWrite b] = hs @ HStatus m # map HWrite bs" "m \<noteq> 0"
    "\<forall>h \<in> set hs. is_header h" by (auto simp: well_written_def)
  then have "HStatus n \<in> set (hs @ HStatus m # map HWrite bs)" by (metis list.set_intros(1) list.set_intros(2))
  with e(2,3) show "n \<noteq> 0" by auto
next
  assume "n \<noteq> 0"
  then show "well_written [HSet k v, HStatus n, HWrite b]"
    unfolding well_written_def by (intro exI [of _ "[HSet k v]"] exI [of _ n] exI [of _ "[b]"]) simp
qed

lemma write_well_written [simp]:
  "n \<noteq> 0 \<Longrightarrow> well_written (writeJSON E n v)" "n \<noteq> 0 \<Longrightarrow> well_written (writeErr E n code msg)"
  by (simp_all add: writeJSON_def writeErr_def well_written_json)

lemma write_response [simp]:
  "response_of (writeJSON E n v) = \<lparr>rp_status = n, rp_header = [(''Content-Type'', [json_type])],
     rp_body = json_encode (e_json E) v @ [CHR 0x0A]\<rparr>"
  "response_of (writeErr E n code msg) = \<lparr>rp_status = n, rp_header = [(''Content-Type'', [json_type])],
     rp_body = json_encode (e_json E) (errBody code msg) @ [CHR 0x0A]\<rparr>"
  by (simp_all add: writeJSON_def writeErr_def response_of_def run_writer_def new_writer_def header_Set_def Let_def)

lemma write_no_panic [simp]: "\<not> panics (writeJSON E n v)" "\<not> panics (writeErr E n code msg)"
  by (simp_all add: writeJSON_def writeErr_def)

definition regular :: "wop list \<Rightarrow> bool" where
  "regular ops \<longleftrightarrow> panics ops \<or> well_written ops"

lemma regular_writes [simp]:
  "n \<noteq> 0 \<Longrightarrow> regular (writeJSON E n v)" "n \<noteq> 0 \<Longrightarrow> regular (writeErr E n code msg)" "regular [HPanic m]"
  by (simp_all add: regular_def)

lemma mapServiceError_regular [simp]: "regular (mapServiceError E (Some e))"
  by (cases e) (simp_all add: mapServiceError_def)

text \<open>
  C33: every handler either panics or sets its headers, writes one status and then the body, so
  that the recorder of the idempotency middleware captures the same response that the server
  would send: status, headers and body agree.
\<close>

theorem handlers_recorded:
  assumes "(m, pat, hh) \<in> set (Register E h)" and "hh r st = (ops, st')" and "\<not> panics ops"
  shows "response_of ops = \<lparr>rp_status = recorder_statusCode (run_recorder ops),
    rp_header = rr_header (run_recorder ops), rp_body = rr_body (run_recorder ops)\<rparr>"
proof -
  have "regular ops"
    using assms(1,2)
    by (auto simp: Register_def createPayment_def getPayment_def refundPayment_def healthz_def service_unavailable_def
        nil_body_def Let_def split: if_splits option.splits sum.splits prod.splits)
  then show ?thesis using assms(3) recorder_response by (simp add: regular_def)
qed


definition sample_get :: http_request where
  "sample_get = \<lparr>rq_Method = ''GET'', rq_Path = ''/healthz'', rq_Header = [], rq_Body = Some (Inr []),
     rq_id = [], rq_route = Some ''/healthz'', rq_reqid = ''r''\<rparr>"

theorem handlers_recorded_witness:
  "\<exists>ops st'. healthz steady (NewPaymentHandler (None :: unit service_api option) True) sample_get (empty_world, ()) = (ops, st') \<and>
     response_of ops = \<lparr>rp_status = recorder_statusCode (run_recorder ops),
       rp_header = rr_header (run_recorder ops), rp_body = rr_body (run_recorder ops)\<rparr>"
proof -
  let ?h = "NewPaymentHandler (None :: unit service_api option) True"
  obtain ops st' where c: "healthz steady ?h sample_get (empty_world, ()) = (ops, st')" "\<not> panics ops"
    by (simp add: healthz_def NewPaymentHandler_def db_call_def steady_def)
  have m: "(''GET'', ''/healthz'', healthz steady ?h) \<in> set (Register steady ?h)"
    by (simp add: Register_def NewPaymentHandler_def)
  show ?thesis using handlers_recorded [OF m c] c by blast
qed


section \<open>What a create request leaves behind\<close>

text \<open>Errors that the handler answers with 400.\<close>

definition bad_request :: "go_error \<Rightarrow> bool" where
  "bad_request e \<longleftrightarrow> errors_Is e ErrValidation \<or> errors_Is e ErrInvalidPayment \<or> errors_Is e ErrInvalidAmount \<or>
     errors_Is e ErrInvalidIdempotencyKey"

lemma bad_request_simps [simp]:
  "bad_request (wrap_pre m e) = bad_request e" "\<not> bad_request (fault_error f)" "\<not> bad_request (PgError c m)"
  "\<not> bad_request (OtherError m)"
  by (auto simp: bad_request_def dest: fault_not_sentinel)

lemma bad_request_sentinels [simp]:
  "\<not> bad_request (Sentinel ErrNotFound)" "\<not> bad_request (Sentinel ErrConflict)"
  "\<not> bad_request (Sentinel ErrRepositoryNotConfigured)" "\<not> bad_request (status_mismatch E a b)"
  "\<not> bad_request (bad_transition E a b)"
  by (simp_all add: bad_request_def status_mismatch_def bad_transition_def)

lemma db_call_Inl:
  assumes "db_call E stmt w = (Inl e, w')"
  shows "(\<exists>f. e = fault_error f) \<or> fst (stmt (tickw w)) = Inl e"
  using assms by (cases rule: db_call_cases [of E stmt w]) auto

lemma select_status_error:
  "db_call E (select_status i) w = (Inl e, w') \<Longrightarrow> \<not> errors_Is e ErrNoRows \<Longrightarrow> \<not> bad_request e"
  by (drule db_call_Inl) (auto simp: select_status_def split: option.splits)

lemma start_error:
  assumes "UpdatePaymentStatus E r i StatusInitiated StatusProcessing w = (Inl e, w')" and "i \<noteq> uuid_Nil"
  shows "\<not> bad_request e"
proof -
  have u: "\<not> bad_request x" if "db_call E (update_status_stmt E i StatusInitiated StatusProcessing) w = (Inl x, v)" for x v
    using db_call_Inl [OF that] by (auto simp: update_status_stmt_def)
  show ?thesis
    using assms u select_status_error
    by (auto simp: UpdatePaymentStatus_def split: if_splits prod.splits sum.splits)
qed

lemma enqueue_error:
  assumes "ids_ok E" and "enqueueOutboxPaymentEventTx E r ty i m a c st psp ref reason rid ra b tm w = (Inl e, w')"
  shows "\<not> bad_request e"
proof -
  have enq: "\<not> bad_request x" if "EnqueueTx E (Some ev) v = (Inl x, v')" for ev v v' x
    using that
    by (auto simp: EnqueueTx_def Now_def outbox_insert_def split: if_splits dest!: db_call_Inl)
  show ?thesis
  proof (cases "uuid7_at E (tick w)")
    case (Inl x)
    then obtain msg where "x = OtherError msg" using assms(1) unfolding ids_ok_def by blast
    with assms(2) Inl show ?thesis
      by (auto simp: enqueueOutboxPaymentEventTx_def NewID_def split: if_splits option.splits)
  next
    case (Inr eid)
    with assms(2) enq show ?thesis
      by (auto simp: enqueueOutboxPaymentEventTx_def NewID_def Let_def split: if_splits option.splits)
  qed
qed

lemma run_tx_error:
  assumes "run_tx E b c body w = (Inl e, w')" and "\<And>w1 w2 x. body w1 = (Inl x, w2) \<Longrightarrow> \<not> bad_request x"
  shows "\<not> bad_request e"
  using assms by (auto simp: run_tx_def split: prod.splits sum.splits option.splits dest!: db_call_Inl)

lemma status_body_error:
  assumes "ids_ok E" and "(case db_call E (\<lambda>v. update_returning i st (f (db_now E v)) v) w1 of
       (Inl scanErr, w2) \<Rightarrow>
         if errors_Is scanErr ErrNoRows then (case resolve_mismatch E m i st w2 of (err, w3) \<Rightarrow> (Inl err, w3))
         else (Inl (wrap_pre m2 scanErr), w2)
     | (Inr row, w2) \<Rightarrow> (case Now E w2 of (tm, w3) \<Rightarrow>
         enqueueOutboxPaymentEventTx E r ty i (pr_merchant_id row) (pr_amount row) (pr_currency row) to psp ref
           reason uuid_Nil 0 False tm w3)) = (Inl e, w')"
  shows "\<not> bad_request e"
proof -
  have u: "\<not> bad_request x" if "db_call E (\<lambda>v. update_returning i st (f (db_now E v)) v) w1 = (Inl x, v)"
    "\<not> errors_Is x ErrNoRows" for x v
    using db_call_Inl [OF that(1)] that(2) by (auto simp: update_returning_def split: option.splits)
  have r: "\<not> bad_request (fst (resolve_mismatch E m i st v))" for v
    using select_status_error [of E i v] by (auto simp: resolve_mismatch_def split: prod.splits sum.splits)
  show ?thesis
    using assms(2) u r enqueue_error [OF assms(1)]
    by (auto simp: Now_def split: if_splits prod.splits sum.splits) (metis fst_conv)
qed

lemma finish_error:
  assumes "ids_ok E" and "i \<noteq> uuid_Nil"
  shows "finish_failed (PaymentRepo E r) i psp ref reason w = (Inl e, w') \<Longrightarrow> \<not> bad_request e"
    and "finish_success (PaymentRepo E r) i psp ref w = (Inl e, w') \<Longrightarrow> \<not> bad_request e"
proof -
  have "\<not> bad_request e" if "UpdatePaymentFailed E r i StatusProcessing psp ref reason w = (Inl e, v)" for v
    using that assms(2) unfolding UpdatePaymentFailed_def
    by (auto split: if_splits elim!: run_tx_error status_body_error [OF assms(1)])
  then show "finish_failed (PaymentRepo E r) i psp ref reason w = (Inl e, w') \<Longrightarrow> \<not> bad_request e"
    by (auto simp: finish_failed_def PaymentRepo_def split: prod.splits sum.splits)
  have "\<not> bad_request e" if "UpdatePaymentStatusWithPSP E r i StatusProcessing StatusSuccess psp ref w = (Inl e, v)" for v
    using that assms(2) unfolding UpdatePaymentStatusWithPSP_def
    by (auto split: if_splits elim!: run_tx_error status_body_error [OF assms(1)])
  then show "finish_success (PaymentRepo E r) i psp ref w = (Inl e, w') \<Longrightarrow> \<not> bad_request e"
    by (auto simp: finish_success_def PaymentRepo_def split: prod.splits sum.splits)
qed

lemma bad_request_panic [simp]: "\<not> bad_request (GoPanic m)"
  by (simp add: bad_request_def)

lemma finish_charge_error:
  assumes "ids_ok E" and "i \<noteq> uuid_Nil" and "finish_charge (PaymentRepo E r) i psp res w = (Inl e, w')"
  shows "\<not> bad_request e"
  using assms(3) unfolding finish_charge_def
  by (auto split: sum.splits go_error.splits option.splits if_splits dest: finish_error [OF assms(1,2)])

lemma repo_create_error:
  assumes "repo_CreatePayment E r (Some p) w = (Inl e, w')" and "bad_request e"
  shows "tables w' = tables w"
proof -
  have ins: "\<not> bad_request x" if "db_call E (payment_insert row) v = (Inl x, v')" for row v v' x
    using db_call_Inl [OF that] by (auto simp: payment_insert_def split: if_splits)
  show ?thesis
    using assms ins
    by (auto simp: repo_CreatePayment_def Now_def Let_def split: if_splits sum.splits prod.splits)
qed

text \<open>A create call that ends with an error the handler answers with 400 has left no trace.\<close>

lemma create_error_clean:
  assumes "ids_ok E"
    and "CreatePayment E F T (NewPaymentService (Some (PaymentRepo E r)) (Some rt)) req (w, ps) = (Inl e, w', ps')"
    and "bad_request e"
  shows "tables w' = tables w"
proof -
  have id: "i \<noteq> uuid_Nil" if "r_CreatePayment (PaymentRepo E r) (new_payment E i req) v = (Inr q, v')" for i q v v'
  proof -
    have "repo_CreatePayment E r (Some (new_payment E i req)) v = (Inr q, v')" using that by (simp add: PaymentRepo_def)
    then show ?thesis
    proof (cases rule: CreatePayment_outcome)
      case (created p0 row)
      from validate_Inr [OF created(1)] show ?thesis by (simp add: new_payment_def)
    qed simp
  qed
  from assms(2) have "CreatePayment E F T (Some \<lparr>svc_repo = Some (PaymentRepo E r), svc_router = Some rt,
    svc_retryCfg = DefaultConfig\<rparr>) req (w, ps) = (Inl e, w', ps')" by (simp add: NewPaymentService_def)
  then show ?thesis
  proof (cases rule: repo.CreatePayment_cases)
    case (not_created i e')
    then show ?thesis using repo_create_error [of E r "new_payment E i req" "tickw w" e w'] assms(3) by (simp add: PaymentRepo_def)
  next
    case (not_started i q w2 e')
    then show ?thesis using start_error [of E r i w2 e w'] id [OF not_started(1)] assms(3) by (simp add: PaymentRepo_def)
  next
    case (no_route i q w2 w3 e')
    then show ?thesis using finish_error(1) [OF assms(1) id [OF no_route(1)]] assms(3) by blast
  next
    case (charged i q w2 w3 ad cres outs ds)
    then show ?thesis using finish_charge_error [OF assms(1) id [OF charged(1)]] assms(3) by blast
  qed simp_all
qed

lemma response_panic [simp]: "rp_status (response_of [HPanic m]) = 200"
  by (simp add: response_of_def run_writer_def new_writer_def Let_def)

lemma mapServiceError_400:
  assumes "rp_status (response_of (mapServiceError E (Some e))) = 400"
  shows "bad_request e"
  using assms
  by (cases e) (auto simp: mapServiceError_def bad_request_def split: if_splits)

lemma mapServiceError_not_201: "rp_status (response_of (mapServiceError E (Some e))) \<noteq> 201"
  by (cases e) (auto simp: mapServiceError_def split: if_splits)


text \<open>A request whose body is read as the sample request, and one whose body is not JSON.\<close>

definition sample_body :: json where
  "sample_body = JObj [(''merchant_id'', JStr ''m''), (''amount'', JInt 500), (''currency'', JStr ''usd''),
     (''idempotency_key'', JStr ''k1'')]"

definition sample_env :: env where
  "sample_env = steady\<lparr>first_json := (\<lambda>s. if s = ''x'' then Some sample_body else None), uuid_Parse := (\<lambda>_. Some 2)\<rparr>"

definition sample_post :: "string \<Rightarrow> http_request" where
  "sample_post b = \<lparr>rq_Method = ''POST'', rq_Path = ''/v1/payments'', rq_Header = [], rq_Body = Some (Inr b),
     rq_id = [], rq_route = Some ''/v1/payments'', rq_reqid = ''r''\<rparr>"

lemma sample_env_ok:
  "ids_ok sample_env" "no_faults sample_env" "fresh_ids sample_env empty_world"
  "validateCreatePaymentRequest sample_env sample_request = None"
  by (simp_all add: sample_env_def steady_def ids_ok_def no_faults_def fresh_ids_def empty_world_def uuid_Nil_def
      service_valid sample_request_def ToUpper_def ascii_upper_def TrimSpace_USD TrimSpace_r1
      ValidCurrency_def allowedCurrencies_def IsInt64_def)

lemma sample_decode:
  "Decode sample_env (create_field sample_env) (Inr ''x'') zero_create = Some sample_request"
  "Decode sample_env (create_field sample_env) (Inr ''y'') zero_create = None"
  by (simp_all add: Decode_def sample_env_def sample_body_def create_field_def key_is_def ascii_lower_def
      zero_create_def sample_request_def)

definition sample_http_service :: "unit service_api" where
  "sample_http_service = PaymentService_api sample_env exact_ops calm (NewPaymentService
     (Some (PaymentRepo sample_env (Some sample_repo)))
     (Some (DefaultRouter (yes_adapter AdapterStripeMock) (yes_adapter AdapterRazorpayMock))))"


end
