(* ===== verification/Filepath.thy ===== *)
theory Filepath
  imports Prelude
begin

text \<open>
  What the program uses of Go's \<open>path/filepath\<close> on a POSIX system: \<open>Clean\<close>, \<open>Join\<close>, \<open>Dir\<close>,
  \<open>IsAbs\<close> and \<open>Abs\<close>. \<open>Clean\<close> scans a path and writes to a buffer; here the path is split at its slashes and
  the buffer is the list of the elements kept so far, the last one first.
\<close>

section \<open>Paths\<close>

abbreviation slash :: char where "slash \<equiv> CHR ''/''"

definition IsAbs :: "string \<Rightarrow> bool" where
  "IsAbs path \<longleftrightarrow> (case path of [] \<Rightarrow> False | c # _ \<Rightarrow> c = slash)"

text \<open>
  One element: empty ones and \<open>.\<close> are dropped; \<open>..\<close> takes the last element back, unless there is
  none or it is itself a \<open>..\<close> that could not be taken back, and is dropped at the root.
\<close>

definition clean_step :: "bool \<Rightarrow> string \<Rightarrow> string list \<Rightarrow> string list" where
  "clean_step rooted e out =
     (if e = [] \<or> e = ''.'' then out
      else if e = ''..'' then
        (case out of
           x # rest \<Rightarrow> if x \<noteq> ''..'' then rest else if rooted then out else e # out
         | [] \<Rightarrow> if rooted then [] else [e])
      else e # out)"

definition elements :: "string \<Rightarrow> string list" where
  "elements path = rev (fold (clean_step (IsAbs path)) (Split slash path) [])"

fun joined :: "string list \<Rightarrow> string" where
  "joined [] = []"
| "joined [e] = e"
| "joined (e # es) = e @ slash # joined es"

definition Clean :: "string \<Rightarrow> string" where
  "Clean path =
     (if path = [] then ''.''
      else
        (let out = (if IsAbs path then ''/'' else []) @ joined (elements path)
         in if out = [] then ''.'' else out))"

definition Join :: "string list \<Rightarrow> string" where
  "Join elem =
     (case dropWhile (\<lambda>e. e = []) elem of
        [] \<Rightarrow> []
      | es \<Rightarrow> Clean (joined es))"

text \<open>The path up to and including its last slash, cleaned.\<close>

definition Dir :: "string \<Rightarrow> string" where
  "Dir path = Clean (rev (dropWhile (\<lambda>c. c \<noteq> slash) (rev path)))"

text \<open>\<open>filepath.Abs\<close>; \<open>wd\<close> is what \<open>os.Getwd\<close> answers.\<close>

definition filepath_Abs :: "string result \<Rightarrow> string \<Rightarrow> string result" where
  "filepath_Abs wd path =
     (if IsAbs path then Inr (Clean path)
      else case wd of Inl err \<Rightarrow> Inl err | Inr d \<Rightarrow> Inr (Join [d, path]))"

section \<open>Lengths\<close>

definition weight :: "string list \<Rightarrow> nat" where
  "weight es = (\<Sum>e\<leftarrow>es. Suc (length e))"

lemma weight_simps [simp]: "weight [] = 0" "weight (e # es) = Suc (length e) + weight es"
  "weight (es @ fs) = weight es + weight fs" "weight (rev es) = weight es"
  by (simp_all add: weight_def rev_map [symmetric])

lemma length_joined: "es \<noteq> [] \<Longrightarrow> Suc (length (joined es)) = weight es"
  by (induction es rule: joined.induct) auto

lemma weight_Split: "weight (Split c s) = Suc (length s)"
  by (induction s) (auto split: list.splits)

lemma weight_clean_step: "weight (clean_step r e out) \<le> weight out + (if e = [] then 0 else Suc (length e))"
  by (auto simp: clean_step_def split: list.splits)

lemma weight_fold_step:
  "weight (fold (clean_step r) es out) \<le> weight out + weight (filter (\<lambda>e. e \<noteq> []) es)"
proof (induction es arbitrary: out)
  case (Cons e es)
  have "weight (fold (clean_step r) es (clean_step r e out)) \<le> weight (clean_step r e out) + weight (filter (\<lambda>e. e \<noteq> []) es)"
    by (rule Cons.IH)
  also have "\<dots> \<le> weight out + weight (filter (\<lambda>e. e \<noteq> []) (e # es))"
    using weight_clean_step [of r e out] by (simp split: if_splits)
  finally show ?case by simp
qed simp

text \<open>The empty elements, of which a leading and a trailing slash each give one, are lost.\<close>

lemma weight_filter: "weight (filter (\<lambda>e. e \<noteq> []) es) + length (filter (\<lambda>e. e = []) es) = weight es"
  by (induction es) auto

lemma weight_elements: "weight (elements p) + length (filter (\<lambda>e. e = []) (Split slash p)) \<le> Suc (length p)"
  using weight_fold_step [of "IsAbs p" "Split slash p" "[]"] weight_filter [of "Split slash p"]
  by (simp add: elements_def weight_Split)

lemma Split_append_sep: "Split c (s @ c # t) = Split c s @ Split c t"
  by (induction s) (auto split: list.splits)

lemma Split_last_sep: "Split c (s @ [c]) = Split c s @ [[]]"
  using Split_append_sep [of c s "[]"] by simp

lemma Clean_cases:
  assumes "p \<noteq> []"
  shows "length (Clean p) = 1 \<or>
    length (Clean p) + (if IsAbs p then 0 else 1) = weight (elements p)"
proof (cases "elements p = []")
  case True
  with assms show ?thesis by (simp add: Clean_def)
next
  case False
  have "Suc (length (joined (elements p))) = weight (elements p)" by (rule length_joined [OF False])
  with assms show ?thesis by (auto simp: Clean_def Let_def)
qed

text \<open>The empty elements of a split path: one for a leading slash, one for a trailing one.\<close>

definition blanks :: "string \<Rightarrow> nat" where
  "blanks p = length (filter (\<lambda>e. e = []) (Split slash p))"

lemma blanks_abs: "IsAbs p \<Longrightarrow> 1 \<le> blanks p"
  by (cases p) (simp_all add: IsAbs_def blanks_def)

lemma blanks_trailing: "blanks (q @ [slash]) = Suc (blanks q)"
  by (simp add: blanks_def Split_last_sep)

lemma IsAbs_append: "q \<noteq> [] \<Longrightarrow> IsAbs (q @ r) = IsAbs q"
  by (cases q) (simp_all add: IsAbs_def)

lemma Clean_length:
  assumes "p \<noteq> []"
  shows "length (Clean p) \<le> length p"
proof -
  have "1 \<le> length p" using assms by (cases p) auto
  moreover have "weight (elements p) + blanks p \<le> Suc (length p)"
    unfolding blanks_def by (rule weight_elements)
  ultimately show ?thesis
    using Clean_cases [OF assms] blanks_abs [of p] by (cases "IsAbs p") (simp_all, linarith+)
qed

lemma Clean_trailing_slash:
  assumes "q \<noteq> []"
  shows "length (Clean (q @ [slash])) < length (q @ [slash])"
proof -
  let ?p = "q @ [slash]"
  have "2 \<le> length ?p" using assms by (cases q) auto
  moreover have "weight (elements ?p) + blanks ?p \<le> Suc (length ?p)"
    unfolding blanks_def by (rule weight_elements)
  ultimately show ?thesis
    using Clean_cases [of ?p] blanks_abs [of q] IsAbs_append [OF assms, of "[slash]"] blanks_trailing [of q]
    by (cases "IsAbs q") (simp_all, linarith+)
qed

text \<open>
  Going up from a path to its directory gets somewhere until the path is its own directory:
  the path gets shorter, or becomes \<open>.\<close>, where the way ends.
\<close>

definition depth :: "string \<Rightarrow> nat" where
  "depth p = (if p = ''.'' then 0 else Suc (length p))"

lemma Dir_depth:
  assumes "Dir p \<noteq> p"
  shows "depth (Dir p) < depth p"
proof (cases "Dir p = ''.''")
  case True
  with assms show ?thesis by (simp add: depth_def)
next
  case False
  let ?q = "rev (dropWhile (\<lambda>c. c \<noteq> slash) (rev p))"
  have d: "Dir p = Clean ?q" by (simp add: Dir_def)
  have q: "?q \<noteq> []" using False unfolding d by (intro notI) (simp only: Clean_def if_True simp_thms)
  have le: "length ?q \<le> length p" by (metis length_dropWhile_le length_rev)
  have "length (Dir p) < length p"
  proof (cases "length ?q = length p")
    case True
    have "rev p = takeWhile (\<lambda>c. c \<noteq> slash) (rev p) @ dropWhile (\<lambda>c. c \<noteq> slash) (rev p)" by simp
    then have eq: "?q = p" using True by (metis append_self_conv2 length_0_conv length_append length_rev rev_rev_ident add_cancel_right_left)
    have "hd (rev ?q) = slash" using q hd_dropWhile [of "\<lambda>c. c \<noteq> slash" "rev p"] by auto
    then obtain r where r: "p = r @ [slash]" using q eq by (metis append_butlast_last_id hd_rev rev_is_Nil_conv)
    have "r \<noteq> []" using assms r eq d by (auto simp: Clean_def IsAbs_def elements_def clean_step_def)
    then show ?thesis using Clean_trailing_slash [of r] d eq r by simp
  next
    case False
    with le Clean_length [OF q] d show ?thesis by simp
  qed
  moreover have "p \<noteq> ''.''" using False by (intro notI) (simp add: Dir_def Clean_def)
  ultimately show ?thesis using False by (simp add: depth_def)
qed

section \<open>Files of a directory\<close>

text \<open>A name that a directory can hold, and what stands before it in the path of such a file.\<close>

definition plain_name :: "string \<Rightarrow> bool" where
  "plain_name n \<longleftrightarrow> n \<noteq> [] \<and> n \<noteq> ''.'' \<and> n \<noteq> ''..'' \<and> slash \<notin> set n"

definition dir_prefix :: "string \<Rightarrow> string" where
  "dir_prefix d = (if IsAbs d then ''/'' else []) @ (case elements d of [] \<Rightarrow> [] | es \<Rightarrow> joined es @ ''/'')"

lemma joined_snoc: "es \<noteq> [] \<Longrightarrow> joined (es @ [n]) = joined es @ slash # n"
  by (induction es rule: joined.induct) auto

lemma joined_Cons_snoc: "joined (e # es @ [n]) = joined (e # es) @ slash # n"
  using joined_snoc [of "e # es" n] by simp

lemma elements_snoc:
  assumes "d \<noteq> []" and "plain_name n"
  shows "elements (d @ slash # n) = elements d @ [n]"
proof -
  have "clean_step r n out = n # out" for r out using assms(2) by (simp add: plain_name_def clean_step_def)
  moreover have "Split slash n = [n]" using assms(2) by (simp add: plain_name_def Split_no_sep)
  ultimately show ?thesis
    by (simp add: elements_def Split_append_sep IsAbs_append [OF assms(1), of "slash # n"])
qed

lemma Join_name:
  assumes "d \<noteq> []" and "plain_name n"
  shows "Join [d, n] = dir_prefix d @ n"
  using assms IsAbs_append [OF assms(1), of "slash # n"]
  by (auto simp: Join_def Clean_def elements_snoc dir_prefix_def joined_Cons_snoc plain_name_def Let_def split: list.splits)

lemma Join_name_eq:
  assumes "d \<noteq> []" and "plain_name m" and "plain_name n"
  shows "Join [d, m] = Join [d, n] \<longleftrightarrow> m = n"
  using assms by (simp add: Join_name)

lemma dir_prefix_end: "dir_prefix d = [] \<or> last (dir_prefix d) = slash"
  by (simp add: dir_prefix_def split: list.splits)

text \<open>Files of different directories have different paths.\<close>

lemma append_plain_eq:
  assumes "p @ m = q @ n" and "slash \<notin> set m" "slash \<notin> set n"
    and "p = [] \<or> last p = slash" "q = [] \<or> last q = slash"
  shows "p = q"
  using assms
proof (induction p arbitrary: q)
  case Nil
  then show ?case by (metis append_Nil last_in_set in_set_conv_decomp append_is_Nil_conv Un_iff set_append)
next
  case (Cons c p)
  show ?case
  proof (cases q)
    case Nil
    with Cons.prems have "slash \<in> set n" by (metis append_Nil last_in_set list.distinct(1) Un_iff set_append)
    with Cons.prems(3) show ?thesis by simp
  next
    case (Cons c' q')
    with Cons.prems Cons.IH [of q'] show ?thesis by (auto split: if_splits)
  qed
qed

lemma Join_other_dir:
  assumes "d \<noteq> []" "e \<noteq> []" and "plain_name m" "plain_name n" and "dir_prefix d \<noteq> dir_prefix e"
  shows "Join [d, m] \<noteq> Join [e, n]"
  using append_plain_eq [of "dir_prefix d" m "dir_prefix e" n] dir_prefix_end assms
  by (auto simp: Join_name plain_name_def)

text \<open>The absolute path of anything starts at the root, so that \<open>file://\<close> is followed by a third slash.\<close>

lemma clean_step_elements:
  assumes "slash \<notin> set e" and "\<forall>x \<in> set out. x \<noteq> [] \<and> slash \<notin> set x"
  shows "\<forall>x \<in> set (clean_step r e out). x \<noteq> [] \<and> slash \<notin> set x"
  using assms by (auto simp: clean_step_def split: list.splits)

lemma fold_step_elements:
  assumes "\<forall>e \<in> set es. slash \<notin> set e" and "\<forall>x \<in> set out. x \<noteq> [] \<and> slash \<notin> set x"
  shows "\<forall>x \<in> set (fold (clean_step r) es out). x \<noteq> [] \<and> slash \<notin> set x"
  using assms
proof (induction es arbitrary: out)
  case (Cons e es)
  have "\<forall>x \<in> set (clean_step r e out). x \<noteq> [] \<and> slash \<notin> set x" by (rule clean_step_elements) (use Cons.prems in auto)
  then have "\<forall>x \<in> set (fold (clean_step r) es (clean_step r e out)). x \<noteq> [] \<and> slash \<notin> set x"
    by (intro Cons.IH) (use Cons.prems(1) in auto)
  then show ?case by simp
qed simp

lemma Split_elements: "\<forall>e \<in> set (Split c s). c \<notin> set e"
  by (induction s) (auto split: list.splits)

lemma elements_plain: "\<forall>x \<in> set (elements p). x \<noteq> [] \<and> slash \<notin> set x"
  unfolding elements_def set_rev by (rule fold_step_elements) (simp_all add: Split_elements)

lemma IsAbs_Clean: "IsAbs (Clean p) = IsAbs p"
proof (cases "IsAbs p")
  case True
  then show ?thesis by (auto simp: Clean_def IsAbs_def Let_def)
next
  case False
  with elements_plain [of p] show ?thesis
    by (cases "elements p" rule: joined.cases) (auto simp: Clean_def IsAbs_def Let_def append_eq_Cons_conv split: list.splits)
qed

end
