(* ===== verification/Startup.thy ===== *)
theory Startup
  imports Go_Float Database Filepath
begin

text \<open>
  What happens before the server listens: the configuration read from the process
  environment (\<open>cmd/server/main.go\<close>, \<open>pkg/tracer/tracer.go\<close>, \<open>pkg/logger/logger.go\<close>,
  \<open>internal/cache/redis.go\<close>) and the migrations. The operating system and the libraries
  answer through the record \<open>boot\<close>.
\<close>

text \<open>
  \<open>os_Environ\<close>: the variables that the process was started with; \<open>os_Getenv\<close>: those after
  \<open>godotenv.Load\<close>, the second statement of \<open>main\<close>, has added the file \<open>.env\<close>; \<open>os_IsDir\<close>: \<open>os.Stat\<close> succeeded and
  found a directory; \<open>mg_\<close>: the answers of the migration library, with its test for \<open>ErrNoChange\<close>; \<open>pl_\<close>: those of the pool;
  \<open>lib_level\<close>: \<open>zerolog.ParseLevel\<close>.
\<close>

record boot =
  os_Environ :: "string \<Rightarrow> string"
  os_Getenv :: "string \<Rightarrow> string"
  os_Getwd :: "string result"
  os_IsDir :: "string \<Rightarrow> bool"
  time_ParseDuration :: "string \<Rightarrow> duration result"
  strconv_ParseFloat :: "string \<Rightarrow> gofloat result"
  fmt_float :: "gofloat \<Rightarrow> string"
  fmt_quote :: "string \<Rightarrow> string"
  strings_ToLower :: "string \<Rightarrow> string"
  lib_level :: "string \<Rightarrow> int result"
  mg_Open :: "string \<Rightarrow> go_error option"
  mg_Ping :: "string \<Rightarrow> go_error option"
  mg_WithInstance :: "string \<Rightarrow> go_error option"
  mg_New :: "string \<Rightarrow> go_error option"
  mg_Up :: "string \<Rightarrow> go_error option"
  mg_NoChange :: "go_error \<Rightarrow> bool"
  ot_exporter :: "string \<Rightarrow> bool \<Rightarrow> go_error option"
  ot_resource :: "string \<Rightarrow> string \<Rightarrow> string \<Rightarrow> go_error option"
  rd_tracing :: "go_error option"
  rd_metrics :: "go_error option"
  rd_Ping :: "string \<Rightarrow> go_error option"
  pl_Parse :: "string \<Rightarrow> go_error option"
  pl_New :: "go_error option"
  pl_Ping :: "go_error option"

section \<open>Logger and cache\<close>

definition InfoLevel :: int where "InfoLevel = 1"

text \<open>
  The level that \<open>Setup\<close> sets, and the line it writes to the standard error. It is the first
  call of \<open>main\<close>, before the file \<open>.env\<close> is read.
\<close>

definition logger_Setup :: "boot \<Rightarrow> int \<times> string option" where
  "logger_Setup B =
     (let rawLevel = TrimSpace (os_Environ B ''LOG_LEVEL'') in
      if rawLevel \<noteq> [] then
        (case lib_level B (strings_ToLower B rawLevel) of
           Inl _ \<Rightarrow> (InfoLevel, Some (''invalid LOG_LEVEL '' @ Quote (fmt_quote B) rawLevel @ '', defaulting to info'' @ [CHR 0x0A]))
         | Inr parsed \<Rightarrow> (parsed, None))
      else (InfoLevel, None))"

record span_context =
  sp_trace :: "string option"
  sp_span :: "string option"

text \<open>The fields \<open>WithTrace\<close> adds; a span context is valid when it has both identifiers.\<close>

definition WithTrace :: "span_context \<Rightarrow> (string \<times> string) list \<Rightarrow> (string \<times> string) list" where
  "WithTrace spanCtx l =
     (if sp_trace spanCtx = None \<or> sp_span spanCtx = None then l
      else l @ (case sp_trace spanCtx of Some t \<Rightarrow> [(''trace_id'', t)] | None \<Rightarrow> [])
             @ (case sp_span spanCtx of Some s \<Rightarrow> [(''span_id'', s)] | None \<Rightarrow> []))"

text \<open>The address of the client and the warnings logged.\<close>

definition cache_New :: "boot \<Rightarrow> string \<Rightarrow> string \<times> obs list" where
  "cache_New B addr =
     (addr,
      (case rd_tracing B of Some err \<Rightarrow> [LogLine ''warn'' [(''error'', Error_text err)] ''redis tracing instrumentation failed''] | None \<Rightarrow> [])
      @ (case rd_metrics B of Some err \<Rightarrow> [LogLine ''warn'' [(''error'', Error_text err)] ''redis metrics instrumentation failed''] | None \<Rightarrow> []))"

definition cache_NewFromEnv :: "boot \<Rightarrow> string \<times> obs list" where
  "cache_NewFromEnv B =
     (let addr = os_Getenv B ''REDIS_ADDR'' in cache_New B (if addr = [] then ''127.0.0.1:6379'' else addr))"

text \<open>
  A client is known by its address. \<open>Redis\<close> hands out what it wraps, \<open>Ping\<close> forwards to it.
\<close>

definition cache_Redis :: "string \<Rightarrow> string" where
  "cache_Redis c = c"

definition cache_Ping :: "boot \<Rightarrow> string \<Rightarrow> go_error option" where
  "cache_Ping B c = rd_Ping B (cache_Redis c)"

lemmas cache_client [simp] = cache_Redis_def cache_Ping_def

section \<open>Tracer\<close>

definition HasPrefix :: "string \<Rightarrow> string \<Rightarrow> bool" where
  "HasPrefix s p \<longleftrightarrow> take (length p) s = p"

definition TrimPrefix :: "string \<Rightarrow> string \<Rightarrow> string" where
  "TrimPrefix s p = (if HasPrefix s p then drop (length p) s else s)"

definition TrimRight :: "string \<Rightarrow> char \<Rightarrow> string" where
  "TrimRight s c = rev (dropWhile (\<lambda>x. x = c) (rev s))"

definition or_default :: "string \<Rightarrow> string \<Rightarrow> string" where
  "or_default s d = (if s = [] then d else s)"

record tracer =
  tr_service :: string
  tr_endpoint :: string
  tr_insecure :: bool
  tr_ratio :: gofloat
  tr_version :: string
  tr_deployment :: string

text \<open>\<open>defaultSamplerRatio\<close> is 1; a ratio read from the environment has to lie between 0 and 1.\<close>

definition sampler_ratio :: "boot \<Rightarrow> gofloat result" where
  "sampler_ratio B =
     (let v = TrimSpace (os_Getenv B ''OTEL_TRACES_SAMPLER_ARG'') in
      if v \<noteq> [] then
        (case strconv_ParseFloat B v of
           Inl err \<Rightarrow> Inl (wrap_pre ''parse OTEL_TRACES_SAMPLER_ARG'' err)
         | Inr parsed \<Rightarrow>
             if fless parsed (Fin 0) \<or> fless (Fin 1) parsed
             then Inl (OtherError (''OTEL_TRACES_SAMPLER_ARG must be between 0 and 1, got '' @ fmt_float B parsed))
             else Inr parsed)
      else Inr (Fin 1))"

definition tracer_Init :: "boot \<Rightarrow> string \<Rightarrow> tracer result" where
  "tracer_Init B serviceName =
     (let endpoint0 = or_default (TrimSpace (os_Getenv B ''OTEL_EXPORTER_OTLP_ENDPOINT'')) ''jaeger:4318'';
          insecure = (if HasPrefix endpoint0 ''https://'' then False else True);
          endpoint = TrimRight (TrimPrefix (TrimPrefix endpoint0 ''http://'') ''https://'') CHR ''/''
      in case sampler_ratio B of
           Inl err \<Rightarrow> Inl err
         | Inr samplerRatio \<Rightarrow>
             (case ot_exporter B endpoint insecure of
                Some err \<Rightarrow> Inl (wrap_pre ''create OTLP HTTP exporter'' err)
              | None \<Rightarrow>
                  (let serviceVersion = or_default (TrimSpace (os_Getenv B ''OTEL_SERVICE_VERSION'')) ''dev'';
                       deploymentEnv = or_default (TrimSpace (os_Getenv B ''OTEL_DEPLOYMENT_ENV'')) ''dev''
                   in case ot_resource B serviceName serviceVersion deploymentEnv of
                        Some err \<Rightarrow> Inl (wrap_pre ''build resource'' err)
                      | None \<Rightarrow> Inr \<lparr>tr_service = serviceName, tr_endpoint = endpoint, tr_insecure = insecure,
                          tr_ratio = samplerRatio, tr_version = serviceVersion, tr_deployment = deploymentEnv\<rparr>)))"

section \<open>Migrations\<close>

text \<open>On a POSIX system \<open>filepath.ToSlash\<close> changes nothing.\<close>

definition migrationsFileURL :: "boot \<Rightarrow> string \<Rightarrow> string result" where
  "migrationsFileURL B dir = (case filepath_Abs (os_Getwd B) dir of Inl err \<Rightarrow> Inl err | Inr a \<Rightarrow> Inr (''file://'' @ a))"

definition runMigrations :: "boot \<Rightarrow> string \<Rightarrow> string \<Rightarrow> unit result" where
  "runMigrations B databaseURL migrationsURL =
     (case mg_Open B databaseURL of
        Some err \<Rightarrow> Inl (wrap_pre ''open sql for migrations'' err)
      | None \<Rightarrow>
     (case mg_Ping B databaseURL of
        Some err \<Rightarrow> Inl (wrap_pre ''ping for migrations'' err)
      | None \<Rightarrow>
     (case mg_WithInstance B databaseURL of
        Some err \<Rightarrow> Inl (wrap_pre ''migrate pgx driver'' err)
      | None \<Rightarrow>
     (case mg_New B migrationsURL of
        Some err \<Rightarrow> Inl (wrap_pre ''migrate instance'' err)
      | None \<Rightarrow>
     (case mg_Up B migrationsURL of
        None \<Rightarrow> Inr ()
      | Some err \<Rightarrow> if \<not> mg_NoChange B err then Inl (wrap_pre ''migrate up'' err) else Inr ())))))"

text \<open>The directory of the migrations; an error ends the process with a message.\<close>

definition migrations_dir :: "boot \<Rightarrow> string + string" where
  "migrations_dir B =
     (let dir = os_Getenv B ''MIGRATIONS_PATH'' in
      if dir \<noteq> [] then Inr dir
      else (case os_Getwd B of
        Inl _ \<Rightarrow> Inl ''get working directory''
      | Inr wd \<Rightarrow>
          (let up = Join [wd, ''migrations'', ''up''] in
           if os_IsDir B up then Inr up else Inr (Join [wd, ''migrations'']))))"

section \<open>Lemmas\<close>

text \<open>
  The range check lets every value pass that is not below 0 or above 1, and NaN is neither.
\<close>

lemma sampler_ratio_range: "sampler_ratio B = Inr x \<Longrightarrow> x = NaN \<or> (\<exists>q. x = Fin q \<and> 0 \<le> q \<and> q \<le> 1)"
  by (cases x) (auto simp: sampler_ratio_def Let_def split: if_splits sum.splits)

lemma sampler_ratio_nan:
  assumes "strconv_ParseFloat B v = Inr NaN" and "TrimSpace (os_Getenv B ''OTEL_TRACES_SAMPLER_ARG'') = v" and "v \<noteq> []"
  shows "sampler_ratio B = Inr NaN"
  using assms by (simp add: sampler_ratio_def)

lemma TrimRight_end: "TrimRight s c = [] \<or> last (TrimRight s c) \<noteq> c"
proof (cases "dropWhile (\<lambda>x. x = c) (rev s)")
  case (Cons x xs)
  then have "x \<noteq> c" by (metis (mono_tags, lifting) hd_dropWhile list.distinct(1) list.sel(1))
  with Cons show ?thesis by (simp add: TrimRight_def)
qed (simp add: TrimRight_def)

end
