(* ===== verification/Metrics_Registry.thy ===== *)
theory Metrics_Registry
  imports Prelude
begin

text \<open>
  The collectors of \<open>pkg/metrics/metrics.go\<close>: their names, kinds and labels, and what a
  call on a collector needs. \<open>WithLabelValues\<close> panics when the number of values differs
  from the number of labels, and \<open>MustRegister\<close> when a name is registered twice; help
  texts and buckets are left out.
\<close>

section \<open>Collectors\<close>

datatype collector_kind = Counter | Gauge | Histogram

record collector =
  cl_kind :: collector_kind
  cl_name :: string
  cl_labels :: "string list"

record collectors =
  HTTPRequestsTotal :: collector
  HTTPRequestDurationSeconds :: collector
  PaymentsTotal :: collector
  PaymentLatencySeconds :: collector
  PSPAttemptsTotal :: collector
  PSPRetryAttemptsTotal :: collector
  PSPCircuitState :: collector
  WebhookDeliveryAttemptsTotal :: collector
  WebhookDeliveryLatencySeconds :: collector
  OutboxPending :: collector
  IdempotencyCacheResultsTotal :: collector

definition collectorsSet :: collectors where
  "collectorsSet = \<lparr>
     HTTPRequestsTotal = \<lparr>cl_kind = Counter, cl_name = ''payflow_http_requests_total'',
       cl_labels = [''route'', ''method'', ''status'']\<rparr>,
     HTTPRequestDurationSeconds = \<lparr>cl_kind = Histogram, cl_name = ''payflow_http_request_duration_seconds'',
       cl_labels = [''route'', ''method'']\<rparr>,
     PaymentsTotal = \<lparr>cl_kind = Counter, cl_name = ''payflow_payments_total'', cl_labels = [''status'']\<rparr>,
     PaymentLatencySeconds = \<lparr>cl_kind = Histogram, cl_name = ''payflow_payment_latency_seconds'', cl_labels = [''psp'']\<rparr>,
     PSPAttemptsTotal = \<lparr>cl_kind = Counter, cl_name = ''payflow_psp_attempts_total'',
       cl_labels = [''psp'', ''op'', ''outcome'']\<rparr>,
     PSPRetryAttemptsTotal = \<lparr>cl_kind = Counter, cl_name = ''payflow_psp_retry_attempts_total'', cl_labels = [''outcome'']\<rparr>,
     PSPCircuitState = \<lparr>cl_kind = Gauge, cl_name = ''payflow_psp_circuit_state'', cl_labels = [''psp'']\<rparr>,
     WebhookDeliveryAttemptsTotal = \<lparr>cl_kind = Counter, cl_name = ''payflow_webhook_delivery_attempts_total'',
       cl_labels = [''outcome'']\<rparr>,
     WebhookDeliveryLatencySeconds = \<lparr>cl_kind = Histogram, cl_name = ''payflow_webhook_delivery_latency_seconds'', cl_labels = []\<rparr>,
     OutboxPending = \<lparr>cl_kind = Gauge, cl_name = ''payflow_outbox_pending'', cl_labels = []\<rparr>,
     IdempotencyCacheResultsTotal = \<lparr>cl_kind = Counter, cl_name = ''payflow_idempotency_cache_total'', cl_labels = [''result'']\<rparr>\<rparr>"

text \<open>\<open>Registry.MustRegister\<close>: a name that is taken makes it panic.\<close>

fun MustRegister :: "collector list \<Rightarrow> collector list \<Rightarrow> collector list result" where
  "MustRegister reg [] = Inr reg"
| "MustRegister reg (c # cs) =
     (if cl_name c \<in> set (map cl_name reg) then Inl (GoPanic ''duplicate metrics collector registration attempted'')
      else MustRegister (reg @ [c]) cs)"

text \<open>The program's collectors in the order in which they are registered.\<close>

definition app_collectors :: "collector list" where
  "app_collectors =
     [HTTPRequestsTotal collectorsSet, HTTPRequestDurationSeconds collectorsSet, PaymentsTotal collectorsSet,
      PaymentLatencySeconds collectorsSet, PSPAttemptsTotal collectorsSet, PSPRetryAttemptsTotal collectorsSet,
      PSPCircuitState collectorsSet, WebhookDeliveryAttemptsTotal collectorsSet,
      WebhookDeliveryLatencySeconds collectorsSet, OutboxPending collectorsSet,
      IdempotencyCacheResultsTotal collectorsSet]"

text \<open>The registry after \<open>initRegistry\<close>, from what the collectors of the Go runtime register.\<close>

definition initRegistry :: "collector list \<Rightarrow> collector list result" where
  "initRegistry runtime =
     (case MustRegister [] runtime of Inl e \<Rightarrow> Inl e | Inr registry \<Rightarrow> MustRegister registry app_collectors)"

text \<open>\<open>metrics.C()\<close> behind its \<open>sync.Once\<close>: the first call builds the registry, later ones find it.\<close>

definition Registry :: "collector list \<Rightarrow> collector list option \<Rightarrow> collector list result \<times> collector list option" where
  "Registry runtime once =
     (case once of
        Some reg \<Rightarrow> (Inr reg, once)
      | None \<Rightarrow> (case initRegistry runtime of Inl e \<Rightarrow> (Inl e, None) | Inr reg \<Rightarrow> (Inr reg, Some reg)))"

section \<open>Calls on the collectors\<close>

text \<open>A call is well typed when a registered collector of its kind has its name and as many labels as it has values.\<close>

definition call_ok :: "collector list \<Rightarrow> collector_kind \<Rightarrow> string \<Rightarrow> string list \<Rightarrow> bool" where
  "call_ok reg k n vs \<longleftrightarrow> (\<exists>c \<in> set reg. cl_kind c = k \<and> cl_name c = n \<and> length (cl_labels c) = length vs)"

fun metric_ok :: "collector list \<Rightarrow> obs \<Rightarrow> bool" where
  "metric_ok reg (Inc n vs) = call_ok reg Counter n vs"
| "metric_ok reg (SetGauge n vs v) = call_ok reg Gauge n vs"
| "metric_ok reg (Observe n vs) = call_ok reg Histogram n vs"
| "metric_ok reg _ = True"

lemma MustRegister_fresh:
  assumes "distinct (map cl_name (reg @ cs))"
  shows "MustRegister reg cs = Inr (reg @ cs)"
  using assms by (induction cs arbitrary: reg) auto

text \<open>The runtime's collectors do not use the program's prefix.\<close>

definition runtime_ok :: "collector list \<Rightarrow> bool" where
  "runtime_ok cs \<longleftrightarrow> distinct (map cl_name cs) \<and> (\<forall>c \<in> set cs. take 8 (cl_name c) \<noteq> ''payflow_'')"

lemma app_names: "distinct (map cl_name app_collectors)" "\<forall>c \<in> set app_collectors. take 8 (cl_name c) = ''payflow_''"
  by (simp_all add: app_collectors_def collectorsSet_def)

lemma initRegistry_ok: "runtime_ok cs \<Longrightarrow> initRegistry cs = Inr (cs @ app_collectors)"
proof -
  assume cs: "runtime_ok cs"
  have "MustRegister [] cs = Inr cs" using MustRegister_fresh [of "[]" cs] cs by (simp add: runtime_ok_def)
  moreover have "distinct (map cl_name (cs @ app_collectors))"
    using cs app_names by (auto simp: runtime_ok_def)
  ultimately show ?thesis using MustRegister_fresh [of cs app_collectors] by (simp add: initRegistry_def)
qed

lemma call_ok_mono: "set reg \<subseteq> set reg' \<Longrightarrow> call_ok reg k n vs \<Longrightarrow> call_ok reg' k n vs"
  by (auto simp: call_ok_def)

lemma app_calls_ok:
  assumes "set app_collectors \<subseteq> set reg"
  shows "call_ok reg Counter ''payflow_http_requests_total'' [a, b, c]"
    "call_ok reg Histogram ''payflow_http_request_duration_seconds'' [a, b]"
    "call_ok reg Counter ''payflow_payments_total'' [a]"
    "call_ok reg Histogram ''payflow_payment_latency_seconds'' [a]"
    "call_ok reg Counter ''payflow_psp_attempts_total'' [a, b, c]"
    "call_ok reg Counter ''payflow_psp_retry_attempts_total'' [a]"
    "call_ok reg Gauge ''payflow_psp_circuit_state'' [a]"
    "call_ok reg Counter ''payflow_webhook_delivery_attempts_total'' [a]"
    "call_ok reg Histogram ''payflow_webhook_delivery_latency_seconds'' []"
    "call_ok reg Gauge ''payflow_outbox_pending'' []"
  by (rule call_ok_mono [OF assms], simp add: call_ok_def app_collectors_def collectorsSet_def)+

end
