(* ===== verification/Server.thy ===== *)
theory Server
  imports Http_Handler Idempotency_Spec Webhook_Worker Circuit_Breaker Startup Metrics_Registry
begin

text \<open>
  The server process (\<open>cmd/server/main.go\<close>): reading the configuration, building the parts and
  wiring them together, and the running process, in which HTTP requests and rounds of the
  webhook worker alternate on one database.

  The packages \<open>chi\<close>, \<open>promhttp\<close> and \<open>gobreaker\<close> are parameters. The middlewares of
  other packages (\<open>RequestID\<close>, \<open>RealIP\<close>, \<open>otelhttp\<close>) stand outside of those
  modelled here and only change the request.
\<close>

section \<open>Start-up\<close>

record process =
  pc_level :: int
  pc_addr :: string
  pc_tracer :: tracer
  pc_redis :: string
  pc_registry :: env_registry
  pc_repo :: payment_repo
  pc_idem :: "idempotency option"
  pc_worker :: worker

text \<open>\<open>None\<close>: the variable is not set, or blank.\<close>

definition env_duration :: "boot \<Rightarrow> string \<Rightarrow> string + duration option" where
  "env_duration B name =
     (let v = TrimSpace (os_Getenv B name) in
      if v \<noteq> [] then (case time_ParseDuration B v of Inl _ \<Rightarrow> Inl (''invalid '' @ name) | Inr d \<Rightarrow> Inr (Some d))
      else Inr None)"

text \<open>The lines that build the parts once everything external has answered.\<close>

definition assemble :: "boot \<Rightarrow> (string \<Rightarrow> uuid option) \<Rightarrow> string \<Rightarrow> tracer \<Rightarrow> string + process" where
  "assemble B P port tr =
     (let registry = NewEnvRegistry P (os_Getenv B);
          reg = env_registry_iface (Some registry);
          repo = \<lparr>repo_db = True, repo_outbox = True, repo_registry = Some reg\<rparr>;
          idempotency = NewIdempotency True True
      in case env_duration B ''IDEMPOTENCY_REQUEST_TIMEOUT'' of
           Inl msg \<Rightarrow> Inl msg
         | Inr timeout \<Rightarrow>
             (case env_duration B ''WEBHOOK_POLL_INTERVAL'' of
                Inl msg \<Rightarrow> Inl msg
              | Inr poll \<Rightarrow>
                  Inr \<lparr>pc_level = fst (logger_Setup B), pc_addr = '':'' @ port, pc_tracer = tr, pc_redis = fst (cache_NewFromEnv B), pc_registry = registry,
                       pc_repo = repo,
                       pc_idem = (case timeout of None \<Rightarrow> idempotency | Some d \<Rightarrow> SetRequestTimeout d idempotency),
                       pc_worker = worker_New (Some reg)
                         (case poll of None \<Rightarrow> worker_DefaultConfig | Some d \<Rightarrow> worker_DefaultConfig\<lparr>wc_PollInterval := d\<rparr>)\<rparr>))"

text \<open>\<open>log.Fatal\<close> ends the process: its message is the error of the model.\<close>

definition main :: "boot \<Rightarrow> (string \<Rightarrow> uuid option) \<Rightarrow> string + process" where
  "main B P =
     (let databaseURL = os_Getenv B ''DATABASE_URL'' in
      if databaseURL = [] then Inl ''DATABASE_URL is required''
      else
        (let port = or_default (os_Getenv B ''PORT'') ''8080'' in
         case migrations_dir B of
           Inl msg \<Rightarrow> Inl msg
         | Inr dir \<Rightarrow>
        (case migrationsFileURL B dir of
           Inl _ \<Rightarrow> Inl ''resolve migrations path''
         | Inr migrationsURL \<Rightarrow>
        (case runMigrations B databaseURL migrationsURL of
           Inl _ \<Rightarrow> Inl ''database migrations''
         | Inr _ \<Rightarrow>
        (case tracer_Init B (or_default (TrimSpace (os_Getenv B ''OTEL_SERVICE_NAME'')) ''payflow'') of
           Inl _ \<Rightarrow> Inl ''initialize tracer''
         | Inr tr \<Rightarrow>
             if pl_Parse B databaseURL \<noteq> None then Inl ''parse DATABASE_URL for pool''
             else if pl_New B \<noteq> None then Inl ''create pgx pool''
             else if pl_Ping B \<noteq> None then Inl ''ping database''
             else if cache_Ping B (fst (cache_NewFromEnv B)) \<noteq> None then Inl ''ping redis''
             else assemble B P port tr)))))"

section \<open>The wired handler\<close>

type_synonym 'b app_state = "'b psp_state state"
type_synonym 'b server_state = "('b psp_state \<times> stores) state"
type_synonym 'b route = "string \<times> string \<times> 'b app_state handler"

text \<open>
  \<open>lb_chi\<close> serves a request with the routes that were mounted; \<open>lb_prom\<close> is the handler
  of \<open>/metrics\<close>; \<open>lb_exec\<close>, \<open>lb_newb\<close> and \<open>lb_str\<close> are \<open>Execute\<close>, the constructor and the
  names of the states of the circuit breaker.
\<close>

record 'b libs =
  lb_chi :: "'b route list \<Rightarrow> 'b app_state handler"
  lb_prom :: "'b app_state handler"
  lb_exec :: "'b breaker_exec"
  lb_newb :: "'b breaker_settings \<Rightarrow> 'b"
  lb_str :: "breaker_st \<Rightarrow> string"

definition stripe_adapter :: "env \<Rightarrow> psp_env \<Rightarrow> 'b libs \<Rightarrow> 'b psp_state adapter" where
  "stripe_adapter E Q L = CircuitBreakerAdapter (lb_exec L)
     (StripeMock Q (e_upper E) (e_quote E) (NewStripeMock DefaultStripeMockConfig))"

definition razorpay_adapter :: "env \<Rightarrow> psp_env \<Rightarrow> 'b libs \<Rightarrow> 'b psp_state adapter" where
  "razorpay_adapter E Q L = CircuitBreakerAdapter (lb_exec L)
     (RazorpayMock Q (e_upper E) (e_quote E) (NewRazorpayMock DefaultRazorpayMockConfig))"

text \<open>The breakers are registered in this order, and their gauges set.\<close>

definition initial_psp :: "env \<Rightarrow> psp_env \<Rightarrow> 'b libs \<Rightarrow> 'b psp_state \<Rightarrow> 'b psp_state" where
  "initial_psp E Q L s =
     NewCircuitBreakerAdapter (lb_str L) (lb_newb L) (RazorpayMock Q (e_upper E) (e_quote E) (NewRazorpayMock DefaultRazorpayMockConfig))
       (NewCircuitBreakerAdapter (lb_str L) (lb_newb L) (StripeMock Q (e_upper E) (e_quote E) (NewStripeMock DefaultStripeMockConfig)) s)"

definition wired_service :: "env \<Rightarrow> psp_env \<Rightarrow> 'b libs \<Rightarrow> process \<Rightarrow> 'b psp_state payment_service option" where
  "wired_service E Q L p =
     NewPaymentService (Some (PaymentRepo E (Some (pc_repo p))))
       (Some (DefaultRouter (stripe_adapter E Q L) (razorpay_adapter E Q L)))"

definition routes :: "env \<Rightarrow> float_ops \<Rightarrow> retry_env \<Rightarrow> psp_env \<Rightarrow> 'b libs \<Rightarrow> process \<Rightarrow> 'b route list" where
  "routes E F R Q L p =
     (''*'', ''/metrics'', lb_prom L)
       # Register E (NewPaymentHandler (Some (PaymentService_api E F R (wired_service E Q L p))) True)"

text \<open>The idempotency middleware around the routes, and the order of \<open>r.Use\<close> around it.\<close>

definition guarded_routes :: "env \<Rightarrow> float_ops \<Rightarrow> retry_env \<Rightarrow> psp_env \<Rightarrow> idem_env \<Rightarrow> 'b libs \<Rightarrow> process
    \<Rightarrow> ('b app_state \<times> stores) handler" where
  "guarded_routes E F R Q I L p = Middleware E I (pc_idem p) (Some (lb_chi L (routes E F R Q L p)))"

definition server :: "env \<Rightarrow> float_ops \<Rightarrow> retry_env \<Rightarrow> psp_env \<Rightarrow> idem_env \<Rightarrow> 'b libs \<Rightarrow> process \<Rightarrow> 'b server_state handler" where
  "server E F R Q I L p =
     Logging E (Metrics E (\<lambda>r s. case s of (w, ps, st) \<Rightarrow>
       (case guarded_routes E F R Q I L p r ((w, ps), st) of (ops, (w', ps'), st') \<Rightarrow> (ops, w', ps', st'))))"

text \<open>
  What the code relies on: the router of \<open>chi\<close> calls one of the mounted handlers, with the
  URL parameter it found, or answers by itself (404, 405); neither its own answers nor the
  metrics page touch the program's state. What they write can be cached.
\<close>

definition plain_ops :: "env \<Rightarrow> wop list \<Rightarrow> bool" where
  "plain_ops E ops \<longleftrightarrow> plain_header E (rr_header (run_recorder ops)) \<and> IsInt64 (recorder_statusCode (run_recorder ops))"

definition libs_ok :: "env \<Rightarrow> 'b libs \<Rightarrow> bool" where
  "libs_ok E L \<longleftrightarrow>
     (\<forall>rs r s. (\<exists>m pat h i. (m, pat, h) \<in> set rs \<and> lb_chi L rs r s = h (r\<lparr>rq_id := i\<rparr>) s) \<or>
        (snd (lb_chi L rs r s) = s \<and> plain_ops E (fst (lb_chi L rs r s)))) \<and>
     (\<forall>r s. snd (lb_prom L r s) = s \<and> plain_ops E (fst (lb_prom L r s)))"

section \<open>Requests on the ledger\<close>

lemma libs_cases:
  assumes "libs_ok E L" and "lb_chi L rs r s = (ops, s')"
  obtains (mounted) m pat h i where "(m, pat, h) \<in> set rs" "h (r\<lparr>rq_id := i\<rparr>) s = (ops, s')"
  | (own) "s' = s" "plain_ops E ops"
  using assms unfolding libs_ok_def by (metis fst_conv snd_conv)

lemma GetPayment_tables: "tables (snd (GetPayment (Some s) i w)) = tables w" if "svc_repo s = Some (PaymentRepo E r)"
  using that GetPaymentByID_tables [of E r i w]
  by (auto simp: GetPayment_def PaymentRepo_def split: if_splits option.splits prod.splits sum.splits)

lemma wired_service_Some:
  "wired_service E Q L p = Some \<lparr>svc_repo = Some (PaymentRepo E (Some (pc_repo p))),
     svc_router = Some (DefaultRouter (stripe_adapter E Q L) (razorpay_adapter E Q L)), svc_retryCfg = DefaultConfig\<rparr>"
  by (simp add: wired_service_def NewPaymentService_def)

lemma quiet_steps: "tables w' = tables w \<Longrightarrow> (ledger_step E)\<^sup>*\<^sup>* w w'"
  by (intro r_into_rtranclp ledger_step.silent)

lemma db_ping_tables: "tables (snd (db_call E (\<lambda>w. (Inr (), w)) w)) = tables w"
  by (rule db_call_read) simp

text \<open>Every mounted handler works on the tables by the calls of the ledger alone.\<close>

lemma route_ledger:
  assumes "(m, pat, h) \<in> set (routes E F R Q L p)" and "libs_ok E L" and "h r (w, ps) = (ops, w', ps')"
    and "distinct (map pr_id (payments w))"
  shows "(ledger_step E)\<^sup>*\<^sup>* w w'"
proof -
  let ?svc = "wired_service E Q L p"
  let ?h = "NewPaymentHandler (Some (PaymentService_api E F R ?svc)) True"
  have create: "(ledger_step E)\<^sup>*\<^sup>* w w1" if "CreatePayment E F R ?svc req (w, ps) = (res, w1, ps1)" for req res w1 ps1
    by (rule repo.CreatePayment_steps) (use that in \<open>simp add: wired_service_Some\<close>)
  have refund: "(ledger_step E)\<^sup>*\<^sup>* w w1" if "RefundPayment E ?svc i req w = (res, w1)" for i req res w1
    by (rule repo.RefundPayment_steps [OF assms(4) that [unfolded wired_service_Some]]) simp
  have get: "(ledger_step E)\<^sup>*\<^sup>* w w1" if "GetPayment ?svc i w = (res, w1)" for i res w1
  proof (rule quiet_steps)
    have "tables (snd (GetPayment ?svc i w)) = tables w" unfolding wired_service_Some by (rule GetPayment_tables) simp
    then show "tables w1 = tables w" using that by simp
  qed
  have ping: "(ledger_step E)\<^sup>*\<^sup>* w w1" if "db_call E (\<lambda>w. (Inr (), w)) w = (res, w1)" for res w1
    using db_ping_tables [of E w] that by (intro quiet_steps) simp
  have prom: "h = lb_prom L \<Longrightarrow> w' = w" using assms(2,3) unfolding libs_ok_def by (metis fst_conv snd_conv)
  consider "h = lb_prom L" | "h = createPayment E ?h" | "h = getPayment E ?h" | "h = refundPayment E ?h" | "h = healthz E ?h"
    using assms(1) by (auto simp: routes_def Register_def NewPaymentHandler_def)
  then show ?thesis
  proof cases
    case 2
    with assms(3) create show ?thesis
      by (auto simp: createPayment_def handler_svc_def NewPaymentHandler_def PaymentService_api_def split: option.splits sum.splits prod.splits)
  next
    case 3
    with assms(3) get show ?thesis
      by (auto simp: getPayment_def handler_svc_def NewPaymentHandler_def PaymentService_api_def split: option.splits sum.splits prod.splits)
  next
    case 4
    with assms(3) refund show ?thesis
      by (auto simp: refundPayment_def handler_svc_def NewPaymentHandler_def PaymentService_api_def Let_def split: option.splits sum.splits prod.splits)
  next
    case 5
    with assms(3) ping show ?thesis
      by (auto simp: healthz_def NewPaymentHandler_def split: sum.splits prod.splits)
  qed (use prom in simp)
qed

text \<open>The middleware runs the handler once at most.\<close>

lemma Middleware_once:
  assumes "Middleware E I mo (Some nx) r (s, st) = (ops, s', st')"
  shows "s' = s \<or> (\<exists>r' nops. nx r' s = (nops, s'))"
  using assms
  by (auto simp: Middleware_def run_locked_def Let_def split: option.splits sum.splits prod.splits if_splits)

lemma guarded_routes_ledger:
  assumes "libs_ok E L" and "guarded_routes E F R Q I L p r ((w, ps), st) = (ops, (w', ps'), st')"
    and "distinct (map pr_id (payments w))"
  shows "(ledger_step E)\<^sup>*\<^sup>* w w'"
proof -
  have "(w', ps') = (w, ps) \<or> (\<exists>r' nops. lb_chi L (routes E F R Q L p) r' (w, ps) = (nops, w', ps'))"
    using Middleware_once [OF assms(2) [unfolded guarded_routes_def]] by simp
  then show ?thesis
  proof
    assume "\<exists>r' nops. lb_chi L (routes E F R Q L p) r' (w, ps) = (nops, w', ps')"
    then obtain r' nops where c: "lb_chi L (routes E F R Q L p) r' (w, ps) = (nops, w', ps')" by blast
    from assms(1) c show ?thesis
    proof (cases rule: libs_cases)
      case (mounted m pat h i)
      then show ?thesis using route_ledger [OF _ assms(1) _ assms(3)] by blast
    qed simp
  qed simp
qed

lemma server_ledger:
  assumes "libs_ok E L" and "server E F R Q I L p r (w, ps, st) = (ops, w', ps', st')"
    and "distinct (map pr_id (payments w))"
  shows "(ledger_step E)\<^sup>*\<^sup>* w w'"
proof -
  obtain ops1 w1 ps1 st1 where g: "guarded_routes E F R Q I L p r ((tickw w, ps), st) = (ops1, (w1, ps1), st1)"
    by (metis prod.exhaust)
  have "tables w' = tables w1"
    using assms(2) g by (auto simp: server_def Logging_def Metrics_def Now_def Let_def split: if_splits)
  moreover have "(ledger_step E)\<^sup>*\<^sup>* (tickw w) w1"
    using guarded_routes_ledger [OF assms(1) g] assms(3) by simp
  ultimately show ?thesis
    using quiet_steps [of "tickw w" w E] quiet_steps [of w' w1 E] by (meson rtranclp_trans tables_simps(1))
qed

section \<open>The running process\<close>

text \<open>
  Requests and rounds of the worker follow each other in any order, each with oracles of its
  own for the retries, the providers and the clients of the stores.
\<close>

inductive system_step :: "env \<Rightarrow> float_ops \<Rightarrow> 'b libs \<Rightarrow> process \<Rightarrow> 'b server_state \<Rightarrow> 'b server_state \<Rightarrow> bool"
  for E F L p where
  request: "server E F R Q I L p r (w, ps, st) = (ops, s') \<Longrightarrow> system_step E F L p (w, ps, st) s'"
| round: "system_step E F L p (w, ps, st) (runOnce E F W (pc_worker p) (stale_after (pc_worker p)) w, ps, st)"

inductive_cases system_stepE: "system_step E F L p s s'"

lemma system_step_ledger:
  assumes "system_step E F L p s s'" and "libs_ok E L" and "ledger_inv (fst s)"
  shows "(ledger_step E)\<^sup>*\<^sup>* (fst s) (fst s')"
  using assms(1)
proof (cases rule: system_step.cases)
  case (request R Q I r w ps st ops)
  obtain w' ps' st' where "s' = (w', ps', st')" by (metis prod.exhaust)
  with request server_ledger [OF assms(2)] assms(3) show ?thesis by (auto simp: ledger_inv_def)
next
  case (round w ps st W)
  then show ?thesis by (simp add: ledger_run.runOnce_kept)
qed

lemma system_steps_ledger:
  assumes "(system_step E F L p)\<^sup>*\<^sup>* s s'" and "libs_ok E L" and "ledger_inv (fst s)"
  shows "(ledger_step E)\<^sup>*\<^sup>* (fst s) (fst s')"
  using assms(1)
proof (induction rule: rtranclp_induct)
  case (step y z)
  have "ledger_inv (fst y)" using step.IH assms(3) by (rule ledger_steps_inv)
  then have "(ledger_step E)\<^sup>*\<^sup>* (fst y) (fst z)" by (rule system_step_ledger [OF step.hyps(2) assms(2)])
  with step.IH show ?case by (rule rtranclp_trans)
qed simp


section \<open>Repeated requests\<close>

lemma plain_writes:
  assumes "IsInt64 n" and "n \<noteq> 0"
  shows "plain_ops E [HSet ''Content-Type'' json_type, HStatus n, HWrite b]"
  using assms
  by (simp add: plain_ops_def plain_header_def run_recorder_def newResponseRecorder_def recorder_Write_def recorder_WriteHeader_def
      recorder_statusCode_def header_Set_def utf8_def json_type_def)

lemma plain_panic: "plain_ops E [HPanic m]"
  by (simp add: plain_ops_def plain_header_def run_recorder_def newResponseRecorder_def recorder_statusCode_def IsInt64_def)

lemma plain_json: "n \<in> {200, 201} \<Longrightarrow> plain_ops E (writeJSON E n v)"
  unfolding writeJSON_def by (rule plain_writes) (auto simp: IsInt64_def)

lemma plain_err: "n \<in> {400, 404, 409, 500, 503} \<Longrightarrow> plain_ops E (writeErr E n code msg)"
  unfolding writeErr_def by (rule plain_writes) (auto simp: IsInt64_def)

lemma plain_service_error: "plain_ops E (mapServiceError E (Some e))"
  by (cases e) (simp_all add: mapServiceError_def plain_err plain_panic)

lemmas plain_answers = plain_json plain_err plain_panic plain_service_error

lemma route_plain:
  assumes "(m, pat, h) \<in> set (routes E F R Q L p)" and "libs_ok E L" and "h r s = (ops, s')"
  shows "plain_ops E ops"
proof (cases "h = lb_prom L")
  case True
  then show ?thesis using assms(2,3) unfolding libs_ok_def by (metis fst_conv)
next
  case False
  then have "(m, pat, h) \<in> set (Register E (NewPaymentHandler (Some (PaymentService_api E F R (wired_service E Q L p))) True))"
    using assms(1) by (simp add: routes_def)
  then show ?thesis
    using assms(3) plain_answers
    by (auto simp: Register_def createPayment_def getPayment_def refundPayment_def healthz_def service_unavailable_def
        nil_body_def Let_def split: if_splits option.splits sum.splits prod.splits)
qed

lemma routes_well_behaved:
  assumes "libs_ok E L"
  shows "well_behaved E (lb_chi L (routes E F R Q L p))"
  unfolding well_behaved_def
proof (intro allI)
  fix r s
  obtain ops s' where c: "lb_chi L (routes E F R Q L p) r s = (ops, s')" by (rule prod.exhaust)
  have "plain_ops E ops"
    using assms c
  proof (cases rule: libs_cases)
    case (mounted m pat h i)
    then show ?thesis using route_plain [OF _ assms] by blast
  qed
  with c show "plain_header E (rr_header (run_recorder (fst (lb_chi L (routes E F R Q L p) r s)))) \<and>
      IsInt64 (recorder_statusCode (run_recorder (fst (lb_chi L (routes E F R Q L p) r s))))"
    by (simp add: plain_ops_def)
qed

section \<open>What start-up establishes\<close>

lemma env_duration_cases: "env_duration B n = Inr d \<Longrightarrow> d = None \<or> (\<exists>v. time_ParseDuration B v = Inr (the d))"
  by (auto simp: env_duration_def Let_def split: if_splits sum.splits)

text \<open>
  C21: a process that has started has run its migrations, reaches its database and Redis, and has
  all parts in place: the idempotency middleware has both stores and positive times whatever
  the environment says, the repository has an outbox, the worker polls at a positive
  interval, and the repository resolves webhook URLs with the registry that the worker takes
  its signing secrets from.
\<close>

theorem startup_ready:
  assumes "main B P = Inr p"
  shows "os_Getenv B ''DATABASE_URL'' \<noteq> [] \<and>
    (\<exists>dir url. migrations_dir B = Inr dir \<and> migrationsFileURL B dir = Inr url \<and>
       runMigrations B (os_Getenv B ''DATABASE_URL'') url = Inr ()) \<and>
    pl_Ping B = None \<and> rd_Ping B (pc_redis p) = None \<and>
    (\<exists>m. pc_idem p = Some m \<and> id_redis m \<and> id_db m \<and> 0 < id_responseTTL m \<and> 0 < id_lockTTL m \<and>
       0 < id_requestTimeout m \<and> 0 < id_waitTimeout m \<and> 0 < id_pollEvery m) \<and>
    repo_db (pc_repo p) \<and> repo_outbox (pc_repo p) \<and>
    wk_registry (pc_worker p) = repo_registry (pc_repo p) \<and>
    repo_registry (pc_repo p) = Some (env_registry_iface (Some (NewEnvRegistry P (os_Getenv B)))) \<and>
    0 < wk_pollEvery (pc_worker p) \<and> wk_batchSize (pc_worker p) = 20 \<and> wk_maxAttempts (pc_worker p) = 10"
proof -
  obtain port tr dir url where a: "assemble B P port tr = Inr p" "os_Getenv B ''DATABASE_URL'' \<noteq> []"
    "migrations_dir B = Inr dir" "migrationsFileURL B dir = Inr url" "runMigrations B (os_Getenv B ''DATABASE_URL'') url = Inr ()"
    "pl_Ping B = None" "rd_Ping B (fst (cache_NewFromEnv B)) = None"
    using assms by (auto simp: main_def Let_def split: if_splits sum.splits)
  obtain t d where p: "env_duration B ''IDEMPOTENCY_REQUEST_TIMEOUT'' = Inr t" "env_duration B ''WEBHOOK_POLL_INTERVAL'' = Inr d"
    using a(1) by (auto simp: assemble_def Let_def split: sum.splits)
  have idem: "\<exists>m. (case t of None \<Rightarrow> NewIdempotency True True | Some d \<Rightarrow> SetRequestTimeout d (NewIdempotency True True)) = Some m \<and>
      id_redis m \<and> id_db m \<and> 0 < id_responseTTL m \<and> 0 < id_lockTTL m \<and> 0 < id_requestTimeout m \<and> 0 < id_waitTimeout m \<and> 0 < id_pollEvery m"
    by (cases t) (auto simp: NewIdempotency_def SetRequestTimeout_def default_defs)
  have "0 < wk_pollEvery (worker_New reg (case d of None \<Rightarrow> worker_DefaultConfig | Some d \<Rightarrow> worker_DefaultConfig\<lparr>wc_PollInterval := d\<rparr>)) \<and>
      wk_batchSize (worker_New reg (case d of None \<Rightarrow> worker_DefaultConfig | Some d \<Rightarrow> worker_DefaultConfig\<lparr>wc_PollInterval := d\<rparr>)) = 20 \<and>
      wk_maxAttempts (worker_New reg (case d of None \<Rightarrow> worker_DefaultConfig | Some d \<Rightarrow> worker_DefaultConfig\<lparr>wc_PollInterval := d\<rparr>)) = 10 \<and>
      wk_registry (worker_New reg (case d of None \<Rightarrow> worker_DefaultConfig | Some d \<Rightarrow> worker_DefaultConfig\<lparr>wc_PollInterval := d\<rparr>)) = reg" for reg
    by (cases d) (simp_all add: worker_New_def worker_withDefaults_def worker_DefaultConfig_def duration_defs Let_def)
  then show ?thesis
    using a idem by (auto simp: assemble_def p Let_def)
qed

text \<open>
  C4: a payment is made once. In a started process, when nobody else disturbs the stores, a
  request with an idempotency key that is repeated, after any other requests and within the
  lifetime of the stored response, is answered with the very response of the first and leaves
  the database and the providers as they are; the same key with another method, path or body
  is refused and leaves them as they are, too.
\<close>

theorem duplicate_request:
  assumes "main B P = Inr p" and "libs_ok E L" and "undisturbed I" and "digest_ok I"
    and "\<forall>r \<in> set (r1 # rs @ [r2]). utf8 E (rq_Path r) = rq_Path r \<and> utf8 E (rq_Method r) = rq_Method r"
    and "st_rows st = []" "st_redis st = (\<lambda>_. None)"
    and "0 \<le> st_clock st" "st_clock st' + 1000 \<le> st_clock st + 24 * Hour" "st_clock st' + 24 * Hour < 2 ^ 63"
    and "guarded r1" "guarded r2" "request_key r1 = request_key r2"
    and "readAndHashBody I r1 = Inr (b1, h1)" "readAndHashBody I r2 = Inr (b2, h2)"
    and "serve (guarded_routes E F R Q I L p) (r1 # rs) (s, st) = (ops1 # outs, s1, st1)" and "\<not> panics ops1"
    and "guarded_routes E F R Q I L p r2 (s1, st1) = (ops2, s2, st')"
  shows "s2 = s1 \<and> ops2 = (if rq_Method r1 = rq_Method r2 \<and> rq_Path r1 = rq_Path r2 \<and> h1 = h2 then ops1
    else writeIdempotencyError E 409 ''idempotency key reused with different request'')"
proof -
  have "\<exists>m. pc_idem p = Some m \<and> id_redis m \<and> id_responseTTL m = 24 * Hour"
    using assms(1) by (auto simp: main_def assemble_def NewIdempotency_def SetRequestTimeout_def default_defs Let_def
        split: if_splits sum.splits option.splits)
  then obtain m where m: "pc_idem p = Some m" "id_redis m \<or> id_db m" "id_responseTTL m = 24 * Hour" by blast
  have ttl: "0 < id_responseTTL m" using m(3) by (simp add: duration_defs)
  show ?thesis
    by (rule repeated_call [OF assms(3,4) m(2) ttl routes_well_behaved [OF assms(2)] assms(5-8) _ _ assms(11-15) _ assms(17)])
      (use assms(9,10,16,18) m in \<open>simp_all add: guarded_routes_def\<close>)
qed

section \<open>Concrete runs\<close>

text \<open>An operating system on which everything answers and only the database is configured.\<close>

definition sample_boot :: boot where
  "sample_boot = \<lparr>os_Environ = (\<lambda>_. []), os_Getenv = (\<lambda>n. if n = ''DATABASE_URL'' then ''db'' else []), os_Getwd = Inr ''/app'', os_IsDir = (\<lambda>_. True),
     time_ParseDuration = (\<lambda>_. Inr 1), strconv_ParseFloat = (\<lambda>_. Inr (Fin 0)),
     fmt_float = (\<lambda>_. []), fmt_quote = (\<lambda>s. s), strings_ToLower = (\<lambda>s. s), lib_level = (\<lambda>_. Inr 1), mg_Open = (\<lambda>_. None), mg_Ping = (\<lambda>_. None),
     mg_WithInstance = (\<lambda>_. None), mg_New = (\<lambda>_. None), mg_Up = (\<lambda>_. None), mg_NoChange = (\<lambda>_. False),
     ot_exporter = (\<lambda>_ _. None), ot_resource = (\<lambda>_ _ _. None), rd_tracing = None, rd_metrics = None, rd_Ping = (\<lambda>_. None),
     pl_Parse = (\<lambda>_. None), pl_New = None, pl_Ping = None\<rparr>"

definition sample_process :: process where
  "sample_process = (case main sample_boot (\<lambda>_. None) of Inr p \<Rightarrow> p)"

lemma blank [simp]: "TrimSpace [] = []"
  by (simp add: TrimSpace_fixed)

lemma sample_dir: "migrations_dir sample_boot = Inr ''/app/migrations/up''"
  "migrationsFileURL sample_boot ''/app/migrations/up'' = Inr ''file:///app/migrations/up''"
  by (simp_all add: sample_boot_def migrations_dir_def migrationsFileURL_def filepath_Abs_def Join_def Clean_def IsAbs_def
      elements_def clean_step_def)

lemma sample_main: "\<exists>p. main sample_boot (\<lambda>_. None) = Inr p \<and> pc_idem p = Some sample_idempotency"
proof -
  have url: "os_Getenv sample_boot ''DATABASE_URL'' = ''db''" by (simp add: sample_boot_def)
  obtain tr where tr: "tracer_Init sample_boot (or_default (TrimSpace (os_Getenv sample_boot ''OTEL_SERVICE_NAME'')) ''payflow'') = Inr tr"
    by (simp add: sample_boot_def tracer_Init_def sampler_ratio_def Let_def)
  have mig: "runMigrations sample_boot u v = Inr ()" for u v by (simp add: runMigrations_def sample_boot_def)
  have up: "pl_Parse sample_boot u = None" "pl_New sample_boot = None" "pl_Ping sample_boot = None" "rd_Ping sample_boot a = None"
    for u a by (simp_all add: sample_boot_def)
  have "main sample_boot (\<lambda>_. None) = assemble sample_boot (\<lambda>_. None) (or_default (os_Getenv sample_boot ''PORT'') ''8080'') tr"
    unfolding main_def Let_def url sample_dir sum.case mig tr cache_client up by simp
  then show ?thesis
    by (simp add: assemble_def sample_boot_def env_duration_def NewIdempotency_def sample_idempotency_def Let_def)
qed

lemma sample_starts: "main sample_boot (\<lambda>_. None) = Inr sample_process"
  and sample_idem: "pc_idem sample_process = Some sample_idempotency"
  using sample_main by (auto simp: sample_process_def)

text \<open>A router that compares paths literally, and a breaker that is always closed.\<close>

definition simple_libs :: "unit libs" where
  "simple_libs = \<lparr>lb_chi = (\<lambda>rs r s. case find (\<lambda>(m, pat, h). pat = rq_Path r \<and> (m = ''*'' \<or> m = rq_Method r)) rs of
         Some (m, pat, h) \<Rightarrow> h (r\<lparr>rq_id := []\<rparr>) s | None \<Rightarrow> ([HStatus 404], s)),
     lb_prom = (\<lambda>r s. ([HStatus 200], s)), lb_exec = (\<lambda>b f s. (fst (f s), b, snd (f s))), lb_newb = (\<lambda>_. ()), lb_str = (\<lambda>_. [])\<rparr>"

lemma plain_status: "IsInt64 n \<Longrightarrow> plain_ops E [HStatus n]"
  by (simp add: plain_ops_def plain_header_def run_recorder_def newResponseRecorder_def recorder_WriteHeader_def
      recorder_statusCode_def IsInt64_def)

lemma simple_libs_ok: "libs_ok E simple_libs"
proof -
  have "(\<exists>m pat h i. (m, pat, h) \<in> set rs \<and> lb_chi simple_libs rs r s = h (r\<lparr>rq_id := i\<rparr>) s) \<or>
      (snd (lb_chi simple_libs rs r s) = s \<and> plain_ops E (fst (lb_chi simple_libs rs r s)))" for rs r s
  proof (cases "find (\<lambda>(m, pat, h). pat = rq_Path r \<and> (m = ''*'' \<or> m = rq_Method r)) rs")
    case None
    then show ?thesis by (simp add: simple_libs_def plain_status IsInt64_def)
  next
    case (Some x)
    moreover obtain m pat h where x: "x = (m, pat, h)" by (metis prod.exhaust)
    moreover have "(m, pat, h) \<in> set rs" using Some x by (auto dest: find_SomeD)
    ultimately show ?thesis by (intro disjI1 exI [of _ m] exI [of _ pat] exI [of _ h] exI [of _ "[]"]) (simp add: simple_libs_def)
  qed
  then show ?thesis by (simp add: libs_ok_def simple_libs_def plain_status IsInt64_def)
qed

text \<open>
  The log level comes from the variables that the process was started with: a \<open>LOG_LEVEL\<close> in
  the file \<open>.env\<close> has no effect, since the logger is set up before the file is read.
\<close>

theorem log_level_ignores_env_file:
  assumes "main B P = Inr p" and "os_Environ B ''LOG_LEVEL'' = []"
  shows "pc_level p = InfoLevel"
proof -
  obtain port tr where "assemble B P port tr = Inr p"
    using assms(1) by (auto simp: main_def Let_def split: if_splits sum.splits)
  then have "pc_level p = fst (logger_Setup B)" by (auto simp: assemble_def Let_def split: sum.splits)
  then show ?thesis using assms(2) by (simp add: logger_Setup_def)
qed

theorem startup_ready_witness:
  "\<exists>p. main sample_boot (\<lambda>_. None) = Inr p \<and> 0 < wk_pollEvery (pc_worker p) \<and> repo_outbox (pc_repo p)"
  using startup_ready [OF sample_starts] sample_starts by blast

definition sample_psp :: psp_env where
  "sample_psp = \<lparr>pe_float = (\<lambda>_. Fin 0), pe_int = (\<lambda>_ _. 0), pe_sleep = (\<lambda>_. None)\<rparr>"


definition refusing :: "'s handler" where
  "refusing r s = (writeErr sample_env 400 ''INVALID_JSON'' ''request body must be valid JSON'', s)"

lemma sample_refusal:
  "lb_chi simple_libs (routes sample_env exact_ops calm sample_psp simple_libs sample_process) ((keyed_post ''y'')\<lparr>rq_Body := Some (Inr ''y'')\<rparr>) s =
     refusing ((keyed_post ''y'')\<lparr>rq_Body := Some (Inr ''y'')\<rparr>) s"
  by (simp add: simple_libs_def routes_def Register_def NewPaymentHandler_def keyed_post_def createPayment_def handler_svc_def
      sample_decode refusing_def)

theorem duplicate_request_witness:
  "\<exists>ops st1 st2. guarded_routes sample_env exact_ops calm sample_psp quiet simple_libs sample_process (keyed_post ''y'')
       ((empty_world, psp_start), fresh_stores) = (ops, (empty_world, psp_start), st1) \<and>
     guarded_routes sample_env exact_ops calm sample_psp quiet simple_libs sample_process (keyed_post ''y'')
       ((empty_world, psp_start), st1) = (ops, (empty_world, psp_start), st2)"
proof -
  let ?g = "guarded_routes sample_env exact_ops calm sample_psp quiet simple_libs sample_process" and ?r = "keyed_post ''y''"
  obtain ops1 s1 st1 where 1: "?g ?r ((empty_world, psp_start), fresh_stores) = (ops1, s1, st1)" by (metis prod.exhaust)
  obtain ops2 s2 st2 where 2: "?g ?r (s1, st1) = (ops2, s2, st2)" by (metis prod.exhaust)
  let ?h = "lb_chi simple_libs (routes sample_env exact_ops calm sample_psp simple_libs sample_process)"
  have u: "\<forall>r \<in> {?r, ?r}. utf8 sample_env (rq_Path r) = rq_Path r \<and> utf8 sample_env (rq_Method r) = rq_Method r"
    by (simp add: sample_env_def utf8_def keyed_post_def)
  note two = two_requests [OF quiet_ok(1,2) routes_well_behaved [OF simple_libs_ok] quiet_lat u
      1 [unfolded guarded_routes_def sample_idem] 2 [unfolded guarded_routes_def sample_idem]]
  then obtain A where "serve_once sample_env quiet ?h ?r ((empty_world, psp_start), Map.empty) = (ops1, s1, A)"
    by blast
  then have run: "\<not> panics ops1" and s1: "s1 = (empty_world, psp_start)"
    by (auto simp: serve_once_guarded [OF keyed_ok(2,3)] run_abs_def with_body_def sample_refusal refusing_def writeErr_def
        answer_returns split: option.splits)
  have "serve ?g [?r] ((empty_world, psp_start), fresh_stores) = ([ops1], s1, st1)" using 1 by simp
  from duplicate_request [OF sample_starts simple_libs_ok quiet_ok(1,2) _ _ _ _ _ _ keyed_ok(2) keyed_ok(2) refl keyed_ok(3) keyed_ok(3) this _ 2]
  have "s2 = s1 \<and> ops2 = ops1"
    using run two(1) u by (simp add: fresh_stores_def duration_defs)
  with 1 2 s1 show ?thesis by auto
qed

end
