(* ===== verification/Metrics_Use.thy ===== *)
theory Metrics_Use
  imports Server
begin

text \<open>
  The calls of the whole program on the Prometheus collectors. A call with a wrong number of
  label values panics, and a collector that is not registered is not exported; every call that
  the running process makes goes to a registered collector of its kind, with a value for each
  of its labels.
\<close>

section \<open>Calls of the database\<close>

definition well_typed :: "collector list \<Rightarrow> obs list \<Rightarrow> bool" where
  "well_typed reg xs \<longleftrightarrow> list_all (metric_ok reg) xs"

lemma well_typed_append [simp]: "well_typed reg (xs @ ys) \<longleftrightarrow> well_typed reg xs \<and> well_typed reg ys"
  and well_typed_Cons [simp]: "well_typed reg (x # xs) \<longleftrightarrow> metric_ok reg x \<and> well_typed reg xs"
  and well_typed_Nil [simp]: "well_typed reg []"
  by (simp_all add: well_typed_def)

lemma obs_observe [simp]: "obs (observe x w) = obs w @ [x]"
  by (simp add: observe_def)

text \<open>A mute operation observes nothing.\<close>

definition mute :: "(world \<Rightarrow> 'a \<times> world) \<Rightarrow> bool" where
  "mute f \<longleftrightarrow> (\<forall>w. obs (snd (f w)) = obs w)"

lemma muteD: "mute f \<Longrightarrow> f w = (x, w') \<Longrightarrow> obs w' = obs w"
  unfolding mute_def by (metis snd_conv)

lemma muteI: "(\<And>w x w'. f w = (x, w') \<Longrightarrow> obs w' = obs w) \<Longrightarrow> mute f"
  unfolding mute_def by (metis prod.collapse)

lemma mute_db_call: "mute f \<Longrightarrow> mute (db_call E f)"
  by (simp add: mute_def db_call_def split: option.split)

lemma mute_run_tx:
  assumes "mute body"
  shows "mute (run_tx E a b body)"
proof (rule muteI)
  fix w x w'
  assume r: "run_tx E a b body w = (x, w')"
  obtain y w1 where 1: "db_call E (\<lambda>w. (Inr (), w)) w = (y, w1)" by fastforce
  then have "obs w1 = obs w" by (rule muteD [OF mute_db_call, rotated]) (simp add: mute_def)
  with r 1 muteD [OF assms] show "obs w' = obs w" by (auto simp: run_tx_def split: result_splits)
qed

lemma mute_statements:
  "mute (outbox_insert row)" "mute (claim_stmt E n)" "mute (reclaim_stmt E m)" "mute (mark_stmt i f)"
  "mute (payment_insert prow)" "mute (select_payment P)" "mute (select_status i)" "mute (update_status_stmt E i from to)"
  "mute (update_returning i from g)" "mute (refund_insert E i amount st key)"
  by (simp_all add: mute_def outbox_insert_def claim_stmt_def reclaim_stmt_def mark_stmt_def payment_insert_def select_payment_def
      select_status_def update_status_stmt_def update_returning_def refund_insert_def Let_def split: option.split)

lemmas mute_calls = mute_statements [THEN mute_db_call]

lemma mute_marks:
  "mute (MarkDelivered E i)" "mute (MarkRetry E i t e)" "mute (MarkDead E i e)"
proof -
  have m: "mute (\<lambda>w. rows_or_not_found (db_call E (\<lambda>w. mark_stmt i (f w) w) w))" for f
  proof (rule muteI)
    fix w x w'
    assume a: "rows_or_not_found (db_call E (\<lambda>w. mark_stmt i (f w) w) w) = (x, w')"
    have "mute (db_call E (\<lambda>w. mark_stmt i (f w) w))" by (rule mute_db_call) (simp add: mute_def mark_stmt_def Let_def)
    from muteD [OF this, of w] a show "obs w' = obs w" by (auto simp: rows_or_not_found_def split: result_splits)
  qed
  show "mute (MarkDelivered E i)" "mute (MarkRetry E i t e)" "mute (MarkDead E i e)"
    unfolding MarkDelivered_def [abs_def] MarkRetry_def [abs_def] MarkDead_def [abs_def] by (rule m)+
qed

lemma mute_rounds: "mute (CountPending E)" "mute (ReclaimStaleProcessing E d)" "mute (ClaimBatch E n)"
proof -
  show "mute (CountPending E)"
    unfolding CountPending_def [abs_def] by (rule mute_db_call) (simp add: mute_def)
  show "mute (ReclaimStaleProcessing E d)"
    using muteD [OF mute_calls(3)] by (auto simp: ReclaimStaleProcessing_def Let_def split: if_splits intro!: muteI)
  show "mute (ClaimBatch E n)"
    using muteD [OF mute_calls(2)] by (auto simp: ClaimBatch_def Let_def intro!: muteI)
qed

lemma mute_enqueue: "mute (enqueueOutboxPaymentEventTx E r ty p m a c st psp ref reason rid ra wr t)"
proof (rule muteI)
  fix w x w'
  assume "enqueueOutboxPaymentEventTx E r ty p m a c st psp ref reason rid ra wr t w = (x, w')"
  then show "obs w' = obs w"
    by (auto simp: enqueueOutboxPaymentEventTx_def EnqueueTx_def NewID_def Now_def Let_def
        split: result_splits dest!: muteD [OF mute_calls(1)])
qed

lemma mute_resolve: "resolve_mismatch E msg i from w = (e, w') \<Longrightarrow> obs w' = obs w"
  by (auto simp: resolve_mismatch_def split: result_splits dest!: muteD [OF mute_calls(7)])

lemma mute_returning: "db_call E (\<lambda>v. update_returning i from (f v) v) w = (x, w') \<Longrightarrow> obs w' = obs w"
  by (rule muteD [OF mute_db_call]) (simp_all add: mute_def update_returning_def split: option.split)

text \<open>No method of the payment repository touches a metric.\<close>

lemma mute_repo:
  "mute (repo_CreatePayment E r p)" "mute (GetPaymentByID E r i)" "mute (UpdatePaymentStatus E r i from to)"
  "mute (UpdatePaymentStatusWithPSP E r i from to psp ref)" "mute (UpdatePaymentFailed E r i from psp ref reason)"
  "mute (RefundPaymentAtomic E r i amount key)"
proof -
  show "mute (repo_CreatePayment E r p)"
    by (rule muteI) (auto simp: repo_CreatePayment_def Now_def Let_def split: result_splits dest!: muteD [OF mute_calls(5)])
  show "mute (GetPaymentByID E r i)"
    by (rule muteI) (auto simp: GetPaymentByID_def split: result_splits dest!: muteD [OF mute_calls(6)])
  show "mute (UpdatePaymentStatus E r i from to)"
    by (rule muteI) (auto simp: UpdatePaymentStatus_def split: result_splits
        dest!: muteD [OF mute_calls(7)] muteD [OF mute_calls(8)])
  show "mute (UpdatePaymentStatusWithPSP E r i from to psp ref)"
    by (rule muteI) (auto simp: UpdatePaymentStatusWithPSP_def Now_def split: if_splits
        elim!: muteD [OF mute_run_tx, rotated] intro!: muteI split: result_splits
        dest!: mute_returning mute_resolve muteD [OF mute_enqueue])
  show "mute (UpdatePaymentFailed E r i from psp ref reason)"
    by (rule muteI) (auto simp: UpdatePaymentFailed_def Now_def split: if_splits
        elim!: muteD [OF mute_run_tx, rotated] intro!: muteI split: result_splits
        dest!: mute_returning mute_resolve muteD [OF mute_enqueue])
  show "mute (RefundPaymentAtomic E r i amount key)"
    by (rule muteI) (auto simp: RefundPaymentAtomic_def Now_def Let_def split: if_splits
        elim!: muteD [OF mute_run_tx, rotated] intro!: muteI split: result_splits
        dest!: mute_returning muteD [OF mute_calls(10)] muteD [OF mute_enqueue])
qed

section \<open>The webhook worker\<close>

lemma typed_worker:
  assumes "set app_collectors \<subseteq> set reg"
  shows "well_typed reg (obs (count_attempt x w)) = well_typed reg (obs w)"
    "well_typed reg (obs (observe_latency w)) = well_typed reg (obs w)"
    "well_typed reg (obs (worker_log E evt lv y m w)) = well_typed reg (obs w)"
    "well_typed reg (obs (plain_log m e w)) = well_typed reg (obs w)"
    "well_typed reg (obs (observe (SetGauge ''payflow_outbox_pending'' [] n) w)) = well_typed reg (obs w)"
  using app_calls_ok [OF assms]
  by (simp_all add: count_attempt_def observe_latency_def worker_log_def plain_log_def)

lemma typed_deliver: "deliver E W wk evt w = (x, w') \<Longrightarrow> well_typed reg (obs w') = well_typed reg (obs w)"
  by (auto simp: deliver_def Let_def split: option.splits sum.splits if_splits)

lemma typed_handleOne:
  assumes "set app_collectors \<subseteq> set reg" and "well_typed reg (obs w)"
  shows "well_typed reg (obs (handleOne E F W wk evt w))"
proof (cases "TrimSpace (oe_WebhookURL evt) = []")
  case True
  obtain res w1 where m: "MarkDead E (oe_ID evt) ''no_webhook_url_for_merchant'' (tickw w) = (res, w1)" by fastforce
  with True muteD [OF mute_marks(3) m] assms(2) show ?thesis
    by (cases res) (simp_all add: handleOne_def Now_def typed_worker [OF assms(1)])
next
  case False
  obtain st err w1 where d: "deliver E W wk evt (tickw w) = ((st, err), w1)" by (metis prod.collapse)
  have w1: "well_typed reg (obs w1)" using typed_deliver [OF d, of reg] assms(2) by simp
  note go = handleOne_def Now_def Let_def False d typed_worker [OF assms(1)]
  show ?thesis
  proof (cases err)
    case None
    obtain res w3 where m: "MarkDelivered E (oe_ID evt) (tickw w1) = (res, w3)" by fastforce
    with None muteD [OF mute_marks(1) m] w1 show ?thesis by (cases res) (simp_all add: go)
  next
    case (Some e)
    have dead: "well_typed reg (obs (case MarkDead E i m v of
        (Inl derr, w4) \<Rightarrow> observe_latency (count_attempt ''error'' (worker_log E evt ''error'' (err_field derr) ''mark dead'' w4))
      | (Inr _, w4) \<Rightarrow> observe_latency (count_attempt ''dead'' w4)))" if "well_typed reg (obs v)" for i m v
      using that by (auto simp: typed_worker [OF assms(1)] split: prod.split sum.split dest!: muteD [OF mute_marks(3)])
    have retry: "well_typed reg (obs (case MarkRetry E i t m v of
        (Inl derr, w5) \<Rightarrow> observe_latency (count_attempt ''error''
          (worker_log E evt ''error'' (err_field derr @ x) ''mark retry'' w5))
      | (Inr _, w5) \<Rightarrow> observe_latency (count_attempt ''retry'' w5)))" if "well_typed reg (obs v)" for i t m v x
      using that by (auto simp: typed_worker [OF assms(1)] split: prod.split sum.split dest!: muteD [OF mute_marks(2)])
    show ?thesis using Some w1 by (simp add: go dead retry)
  qed
qed

lemma typed_runOnce:
  assumes "set app_collectors \<subseteq> set reg" and "well_typed reg (obs w)"
  shows "well_typed reg (obs (runOnce E F W wk d w))"
proof -
  have all: "well_typed reg (obs v) \<Longrightarrow> well_typed reg (obs (fold (handleOne E F W wk) evts v))" for evts v
    by (induction evts arbitrary: v) (simp_all add: typed_handleOne [OF assms(1)])
  show ?thesis
    using assms(2) all
    by (auto simp: runOnce_def Let_def typed_worker [OF assms(1)] app_calls_ok [OF assms(1)] split: result_splits
        dest!: muteD [OF mute_rounds(1)] muteD [OF mute_rounds(2)] muteD [OF mute_rounds(3)])
qed

section \<open>The providers\<close>

lemma hush_suffix [simp]: "ps_obs (snd (random_suffix Q n s)) = ps_obs s"
  by (induction n arbitrary: s) (simp_all add: Let_def case_prod_unfold)

lemma hush_latency: "ps_obs (snd (stripeMockLatency Q a b s)) = ps_obs s"
  by (simp add: stripeMockLatency_def Let_def)

lemma hush_sleep: "sleepStripeMock Q a b s = (x, s') \<Longrightarrow> ps_obs s' = ps_obs s"
  using hush_latency [of Q a b s] by (auto simp: sleepStripeMock_def split: result_splits)

lemma hush_ids [simp]:
  "ps_obs (snd (newStripeChargeID Q s)) = ps_obs s" "ps_obs (snd (newRazorpayPaymentID Q s)) = ps_obs s"
  "ps_obs (snd (newRazorpayOrderID Q s)) = ps_obs s"
  by (simp_all add: newStripeChargeID_def newRazorpayPaymentID_def newRazorpayOrderID_def case_prod_unfold)

lemma hush_failures [simp]:
  "ps_obs (snd (stripe_simulateChargeFailure Q m s)) = ps_obs s"
  "ps_obs (snd (razorpay_simulateChargeFailure Q m' s)) = ps_obs s"
  by (simp_all add: stripe_simulateChargeFailure_def razorpay_simulateChargeFailure_def Let_def)

lemma hush_stripe: "ps_obs (snd (StripeMock_Charge Q U q m req s)) = ps_obs s"
proof -
  obtain x s1 where sl: "sleepStripeMock Q (sm_MinLatency m) (sm_MaxLatency m) s = (x, s1)" by fastforce
  then show ?thesis using hush_sleep [OF sl]
    by (cases x) (simp_all add: StripeMock_Charge_def Let_def case_prod_unfold)
qed

lemma hush_razorpay: "ps_obs (snd (RazorpayMock_Charge Q U q m req s)) = ps_obs s"
proof -
  obtain x s1 where sl: "sleepStripeMock Q (rz_MinLatency m) (rz_MaxLatency m) s = (x, s1)" by fastforce
  then show ?thesis using hush_sleep [OF sl]
    by (cases x) (simp_all add: RazorpayMock_Charge_def Let_def case_prod_unfold)
qed

lemma typed_changed:
  assumes "set app_collectors \<subseteq> set reg" and "changed s s'" and "well_typed reg (ps_obs s)"
  shows "well_typed reg (ps_obs s')"
proof -
  have "well_typed reg (ps_obs (fold (\<lambda>(from, to). OnStateChange str name from to) cs v))"
    if "well_typed reg (ps_obs v)" for str name cs and v :: "'b psp_state"
    using that by (induction cs arbitrary: v) (auto simp: OnStateChange_def app_calls_ok [OF assms(1)])
  with assms(2,3) show ?thesis by (auto simp: changed_def)
qed

lemma typed_CB_Charge:
  assumes "set app_collectors \<subseteq> set reg" and "breaker_ok exec" and "\<And>s. ps_obs (snd (a_Charge a req s)) = ps_obs s"
    and "well_typed reg (ps_obs s)"
  shows "well_typed reg (ps_obs (snd (CB_Charge exec a req s)))"
proof -
  note app = app_calls_ok [OF assms(1)]
  note ch = typed_changed [OF assms(1)]
  from assms(2) show ?thesis
  proof (cases rule: breaker_ok_cases
      [of exec s "ps_breaker s (a_Name a)" "\<lambda>s. case a_Charge a req s of (r, s') \<Rightarrow> (map_sum id DynCharge r, s')"])
    case (reject s1 e b')
    then show ?thesis
      using ch [OF reject(1) assms(4)] by (auto simp: CB_Charge_def breaker_Execute_def record_attempt_def app)
  next
    case (run s1 b' s2)
    obtain r s' where r: "a_Charge a req s1 = (r, s')" by fastforce
    have "well_typed reg (ps_obs s')" using ch [OF run(1) assms(4)] assms(3) [of s1] r by simp
    with ch [of s' s2] run(2) r have "well_typed reg (ps_obs s2)" by simp
    then show ?thesis
      using run(3) r by (cases r) (auto simp: CB_Charge_def breaker_Execute_def record_attempt_def app split: go_error.splits)
  qed
qed

lemma op_state_keeps: "(\<And>s. I s \<Longrightarrow> I (snd (op s))) \<Longrightarrow> I s \<Longrightarrow> I (op_state op s n)"
  by (induction n arbitrary: s) (simp_all add: op_state_Suc)

lemma retry_keeps:
  assumes "DoWithObserver F R cfg op s = (r, s', outs, ds)" and "\<And>s. I s \<Longrightarrow> I (snd (op s))" and "I s"
  shows "I s'"
proof -
  obtain n where "run_spec R (nat (MaxAttempts (withDefaults cfg))) op s (DoWithObserver F R cfg op s) n"
    using DoWithObserver_spec [where F = F and R = R and cfg = cfg and op = op and s = s] by (elim exE)
  then have "s' = op_state op s n" by (simp add: assms(1) run_spec_def)
  then show ?thesis using op_state_keeps [of I op s n] assms(2,3) by simp
qed

section \<open>Requests\<close>

lemma typed_wired:
  assumes "set app_collectors \<subseteq> set reg" and "breaker_ok (lb_exec L)"
    and "Select U q (Some (DefaultRouter (stripe_adapter E Q L) (razorpay_adapter E Q L))) cur amount = Inr ad"
    and "well_typed reg (ps_obs s)"
  shows "well_typed reg (ps_obs (snd (a_Charge ad req s)))"
proof -
  have "ad = stripe_adapter E Q L \<or> ad = razorpay_adapter E Q L"
    using select_adapter [OF assms(3)] by (auto simp: DefaultRouter_def NewRouter_def split: if_splits)
  then show ?thesis
    by (auto simp: stripe_adapter_def razorpay_adapter_def CircuitBreakerAdapter_def StripeMock_def RazorpayMock_def
        intro!: typed_CB_Charge [OF assms(1,2) _ assms(4)] hush_stripe hush_razorpay)
qed

lemma typed_finish:
  assumes "set app_collectors \<subseteq> set reg" and "well_typed reg (obs w)"
  shows "finish_failed (PaymentRepo E r) i psp ref reason w = (res, w') \<Longrightarrow> well_typed reg (obs w')"
    and "finish_charge (PaymentRepo E r) i psp cres (count_retries outs w) = (res, w') \<Longrightarrow> well_typed reg (obs w')"
proof -
  note app = app_calls_ok [OF assms(1)]
  have f: "well_typed reg (obs v')" if "finish_failed (PaymentRepo E r) i psp ref reason v = (res, v')" "well_typed reg (obs v)"
    for ref reason v v'
    using that by (auto simp: finish_failed_def PaymentRepo_def count_payment_def app split: result_splits dest!: muteD [OF mute_repo(5)])
  have g: "well_typed reg (obs v')" if "finish_success (PaymentRepo E r) i psp ref v = (res, v')" "well_typed reg (obs v)"
    for ref v v'
    using that by (auto simp: finish_success_def PaymentRepo_def count_payment_def app split: result_splits dest!: muteD [OF mute_repo(4)])
  have c: "well_typed reg (obs v) \<Longrightarrow> well_typed reg (obs (count_retries outs v))" for v
    by (induction outs arbitrary: v) (simp_all add: count_retries_def app)
  show "finish_failed (PaymentRepo E r) i psp ref reason w = (res, w') \<Longrightarrow> well_typed reg (obs w')"
    using f assms(2) by blast
  show "finish_charge (PaymentRepo E r) i psp cres (count_retries outs w) = (res, w') \<Longrightarrow> well_typed reg (obs w')"
    using c [OF assms(2)] by (auto simp: finish_charge_def split: sum.splits option.splits go_error.splits if_splits dest: f g)
qed

lemma typed_create:
  assumes "set app_collectors \<subseteq> set reg" and "breaker_ok (lb_exec L)"
    and "CreatePayment E F R (wired_service E Q L p) req (w, ps) = (res, w', ps')"
    and "well_typed reg (obs w)" and "well_typed reg (ps_obs ps)"
  shows "well_typed reg (obs w') \<and> well_typed reg (ps_obs ps')"
proof -
  let ?r = "Some (pc_repo p)"
  have create: "r_CreatePayment (PaymentRepo E ?r) q v = (x, v') \<Longrightarrow> obs v' = obs v" for q v x v'
    by (simp add: PaymentRepo_def) (rule muteD [OF mute_repo(1)])
  have start: "r_UpdatePaymentStatus (PaymentRepo E ?r) i a b v = (x, v') \<Longrightarrow> obs v' = obs v" for i a b v x v'
    by (simp add: PaymentRepo_def) (rule muteD [OF mute_repo(3)])
  from assms(3) [unfolded wired_service_Some] show ?thesis
  proof (cases rule: repo.CreatePayment_cases)
    case (not_created i e)
    then show ?thesis using assms(4,5) create by fastforce
  next
    case (not_started i q w2 e)
    then show ?thesis using assms(4,5) create [OF not_started(1)] start [OF not_started(2)] by simp
  next
    case (no_route i q w2 w3 e)
    then show ?thesis
      using assms(4,5) create [OF no_route(1)] start [OF no_route(2)] typed_finish(1) [OF assms(1) _ no_route(4)] by simp
  next
    case (charged i q w2 w3 ad cres outs ds)
    have "well_typed reg (ps_obs ps')"
      by (rule retry_keeps [OF charged(4)]) (use typed_wired [OF assms(1,2) charged(3)] assms(5) in auto)
    moreover have "well_typed reg (obs w3)" using assms(4) create [OF charged(1)] start [OF charged(2)] by simp
    ultimately show ?thesis using typed_finish(2) [OF assms(1) _ charged(5)] by blast
  qed (use assms(4,5) in auto)
qed

lemma typed_refund:
  assumes "set app_collectors \<subseteq> set reg" and "RefundPayment E (wired_service E Q L p) i req w = (res, w')"
    and "well_typed reg (obs w)"
  shows "well_typed reg (obs w')"
  using assms(2,3)
  by (auto simp: wired_service_Some RefundPayment_def PaymentRepo_def count_payment_def app_calls_ok [OF assms(1)]
      split: result_splits dest!: muteD [OF mute_repo(2)] muteD [OF mute_repo(6)])

lemma typed_get:
  assumes "GetPayment (wired_service E Q L p) i w = (res, w')"
  shows "obs w' = obs w"
  using assms by (auto simp: wired_service_Some GetPayment_def PaymentRepo_def split: if_splits dest!: muteD [OF mute_repo(2)])

lemma typed_route:
  assumes "set app_collectors \<subseteq> set reg" and "breaker_ok (lb_exec L)" and "libs_ok E L"
    and "(m, pat, h) \<in> set (routes E F R Q L p)" and "h r (w, ps) = (ops, w', ps')"
    and "well_typed reg (obs w)" and "well_typed reg (ps_obs ps)"
  shows "well_typed reg (obs w') \<and> well_typed reg (ps_obs ps')"
proof -
  let ?svc = "wired_service E Q L p"
  let ?h = "NewPaymentHandler (Some (PaymentService_api E F R ?svc)) True"
  have prom: "h = lb_prom L \<Longrightarrow> w' = w \<and> ps' = ps" using assms(3,5) unfolding libs_ok_def by (metis fst_conv snd_conv)
  have ping: "db_call E (\<lambda>w. (Inr (), w)) w = (x, w1) \<Longrightarrow> obs w1 = obs w" for x w1
    by (rule muteD [OF mute_db_call]) (simp_all add: mute_def)
  note create = typed_create [OF assms(1,2) _ assms(6,7)] and refund = typed_refund [OF assms(1) _ assms(6)]
  consider "h = lb_prom L" | "h = createPayment E ?h" | "h = getPayment E ?h" | "h = refundPayment E ?h" | "h = healthz E ?h"
    using assms(4) by (auto simp: routes_def Register_def NewPaymentHandler_def)
  then show ?thesis
  proof cases
    case 2
    with assms(5-7) show ?thesis
      by (auto simp: createPayment_def handler_svc_def NewPaymentHandler_def PaymentService_api_def
          split: option.splits sum.splits prod.splits dest: create)
  next
    case 3
    with assms(5-7) show ?thesis
      by (auto simp: getPayment_def handler_svc_def NewPaymentHandler_def PaymentService_api_def
          split: option.splits sum.splits prod.splits dest!: typed_get)
  next
    case 4
    with assms(5-7) show ?thesis
      by (auto simp: refundPayment_def handler_svc_def NewPaymentHandler_def PaymentService_api_def Let_def
          split: option.splits sum.splits prod.splits dest: refund)
  next
    case 5
    with assms(5-7) show ?thesis
      by (auto simp: healthz_def NewPaymentHandler_def split: sum.splits prod.splits dest!: ping)
  qed (use prom assms(6,7) in simp)
qed

lemma typed_server:
  assumes "set app_collectors \<subseteq> set reg" and "breaker_ok (lb_exec L)" and "libs_ok E L"
    and "server E F R Q I L p r (w, ps, st) = (ops, w', ps', st')"
    and "well_typed reg (obs w)" and "well_typed reg (ps_obs ps)"
  shows "well_typed reg (obs w') \<and> well_typed reg (ps_obs ps')"
proof -
  obtain ops1 w1 ps1 st1 where g: "guarded_routes E F R Q I L p r ((tickw w, ps), st) = (ops1, (w1, ps1), st1)"
    by (metis prod.exhaust)
  have "well_typed reg (obs w1) \<and> well_typed reg (ps_obs ps1)"
  proof (cases "(w1, ps1) = (tickw w, ps)")
    case False
    then obtain r' nops where c: "lb_chi L (routes E F R Q L p) r' (tickw w, ps) = (nops, w1, ps1)"
      using Middleware_once [OF g [unfolded guarded_routes_def]] by blast
    from assms(3) c show ?thesis
    proof (cases rule: libs_cases)
      case (mounted m pat h i)
      then show ?thesis using typed_route [OF assms(1-3) mounted] assms(5,6) by simp
    qed (use assms(5,6) in simp)
  qed (use assms(5,6) in simp)
  moreover have "ps' = ps1" "well_typed reg (obs w') = well_typed reg (obs w1)"
    using assms(4) g app_calls_ok [OF assms(1)]
    by (auto simp: server_def Logging_def Metrics_def Now_def Let_def split: if_splits)
  ultimately show ?thesis by simp
qed

lemma typed_steps:
  assumes "set app_collectors \<subseteq> set reg" and "breaker_ok (lb_exec L)" and "libs_ok E L"
    and "(system_step E F L p)\<^sup>*\<^sup>* s s'" and "well_typed reg (obs (fst s) @ ps_obs (fst (snd s)))"
  shows "well_typed reg (obs (fst s') @ ps_obs (fst (snd s')))"
  using assms(4,5)
proof (induction rule: rtranclp_induct)
  case (step s1 s2)
  from step.hyps(2) step.IH [OF step.prems] show ?case
  proof (cases rule: system_step.cases)
    case (request R Q I r w ps st ops)
    obtain w' ps' st' where "s2 = (w', ps', st')" by (metis prod.exhaust)
    with request step.IH [OF step.prems] typed_server [OF assms(1-3), of F R Q I p r w ps st ops w' ps' st'] show ?thesis by simp
  next
    case (round w ps st W)
    with step.IH [OF step.prems] typed_runOnce [OF assms(1)] show ?thesis by simp
  qed
qed simp

text \<open>
  C19: metric calls are well typed. When the collectors of the Go runtime do not use the
  program's prefix, building the registry succeeds, and every call on a collector that the
  process makes, from the construction of the circuit breakers on and through any
  sequence of requests and rounds of the worker, names a registered collector of its kind and
  passes one value per label, so that no \<open>WithLabelValues\<close> panics.
\<close>

theorem metrics_well_typed:
  assumes "runtime_ok cs" and "breaker_ok (lb_exec L)" and "libs_ok E L" and "ps_obs ps = []"
    and "(system_step E F L p)\<^sup>*\<^sup>* (empty_world, initial_psp E Q L ps, st) (w, ps', st')"
  shows "\<exists>reg. initRegistry cs = Inr reg \<and> (\<forall>x \<in> set (obs w @ ps_obs ps'). metric_ok reg x)"
proof -
  let ?reg = "cs @ app_collectors"
  have app: "set app_collectors \<subseteq> set ?reg" by simp
  have "well_typed ?reg (obs empty_world @ ps_obs (initial_psp E Q L ps))"
    using app_calls_ok [OF app] assms(4)
    by (simp add: empty_world_def initial_psp_def NewCircuitBreakerAdapter_def Let_def)
  then have "well_typed ?reg (obs w @ ps_obs ps')"
    using typed_steps [OF app assms(2,3,5)] by simp
  then show ?thesis using initRegistry_ok [OF assms(1)] by (simp add: well_typed_def list_all_iff)
qed

lemma breaker_ok_simple: "breaker_ok (lb_exec simple_libs)"
  unfolding breaker_ok_def
proof (intro allI)
  fix b and f :: "unit psp_state \<Rightarrow> dynamic result \<times> unit psp_state" and s
  show "\<exists>s1 b'. changed s s1 \<and> ((\<exists>e. (e = ErrOpenState \<or> e = ErrTooManyRequests) \<and>
        lb_exec simple_libs b f s = (Inl (Sentinel e), b', s1)) \<or>
      (\<exists>s2. changed (snd (f s1)) s2 \<and> lb_exec simple_libs b f s = (fst (f s1), b', s2)))"
    by (intro exI [of _ s] exI [of _ b] conjI changed_refl disjI2 exI [of _ "snd (f s)"]) (simp add: simple_libs_def)
qed

theorem metrics_well_typed_witness:
  "\<exists>(w :: world) reg. initRegistry [] = Inr reg \<and> SetGauge ''payflow_outbox_pending'' [] 0 \<in> set (obs w) \<and>
     (\<forall>x \<in> set (obs w). metric_ok reg x)"
proof -
  let ?s = "(empty_world, initial_psp sample_env sample_psp simple_libs psp_start, fresh_stores)"
  let ?w = "runOnce sample_env exact_ops (answering 200 0) (pc_worker sample_process) (stale_after (pc_worker sample_process)) empty_world"
  have "system_step sample_env exact_ops simple_libs sample_process ?s (?w, snd ?s)"
    using system_step.round [of sample_env exact_ops simple_libs sample_process empty_world] by simp
  then have run: "(system_step sample_env exact_ops simple_libs sample_process)\<^sup>*\<^sup>* ?s (?w, snd ?s)" by simp
  have "SetGauge ''payflow_outbox_pending'' [] 0 \<in> set (obs ?w)"
    by (simp add: runOnce_def CountPending_def ReclaimStaleProcessing_def ClaimBatch_def db_call_def sample_env_def steady_def empty_world_def
        reclaim_stmt_def claim_stmt_def due_rows_def answering_def plain_log_def sql_count_def Let_def)
  moreover obtain reg where "initRegistry [] = Inr reg" "\<forall>x \<in> set (obs ?w). metric_ok reg x"
    using metrics_well_typed [where cs = "[]", OF _ breaker_ok_simple simple_libs_ok _ run [simplified]]
    by (auto simp: runtime_ok_def psp_start_def)
  ultimately show ?thesis by blast
qed

end
