(* ===== verification/Lifecycle.thy ===== *)
theory Lifecycle
  imports Server
begin

text \<open>
  The life of the server process after the parts are wired (\<open>cmd/server/main.go\<close>): the goroutines
  of the worker and of the listener, the signal, and the shutdown in which \<open>main\<close> first waits for
  the worker, then drains the HTTP server for at most 15 seconds and then runs its deferred calls.
  A round of the worker and the work of a request take effect at once, when they end; a request
  that finds the pool closed meets a fault.
\<close>

section \<open>Goroutines\<close>

text \<open>The calls that \<open>main\<close> defers, in the order in which it does.\<close>

datatype deferred = ShutdownTracer | ClosePool | CloseRedis | StopSignals | CancelTimeout

definition main_deferred :: "deferred list" where
  "main_deferred = [ShutdownTracer, ClosePool, CloseRedis, StopSignals, CancelTimeout]"

text \<open>They are ordered by the moment at which they are deferred.\<close>

fun deferred_at :: "deferred \<Rightarrow> nat" where
  "deferred_at ShutdownTracer = 0"
| "deferred_at ClosePool = 1"
| "deferred_at CloseRedis = 2"
| "deferred_at StopSignals = 3"
| "deferred_at CancelTimeout = 4"

instantiation deferred :: linorder
begin

definition less_eq_deferred :: "deferred \<Rightarrow> deferred \<Rightarrow> bool" where
  "a \<le> b \<longleftrightarrow> deferred_at a \<le> deferred_at b"

definition less_deferred :: "deferred \<Rightarrow> deferred \<Rightarrow> bool" where
  "a < b \<longleftrightarrow> deferred_at a < deferred_at b"

instance
proof
  fix a b :: deferred
  show "a \<le> b \<Longrightarrow> b \<le> a \<Longrightarrow> a = b" by (cases a; cases b) (simp_all add: less_eq_deferred_def)
qed (auto simp: less_eq_deferred_def less_deferred_def)

end

lemma main_deferred_all: "sorted main_deferred" "set main_deferred = UNIV"
proof -
  show "sorted main_deferred" by (simp add: main_deferred_def less_eq_deferred_def)
  have "d \<in> set main_deferred" for d by (cases d) (simp_all add: main_deferred_def)
  then show "set main_deferred = UNIV" by blast
qed

text \<open>What the libraries answer to the deferred calls, and what \<open>main\<close> logs then.\<close>

type_synonym closing = "deferred \<Rightarrow> go_error option"

definition cache_Close :: "closing \<Rightarrow> go_error option" where
  "cache_Close X = X CloseRedis"

definition deferred_log :: "closing \<Rightarrow> deferred \<Rightarrow> string list" where
  "deferred_log X d =
     (case d of
        ShutdownTracer \<Rightarrow> (case X ShutdownTracer of Some _ \<Rightarrow> [''shutdown tracer''] | None \<Rightarrow> [])
      | CloseRedis \<Rightarrow> (case cache_Close X of Some _ \<Rightarrow> [''close redis client''] | None \<Rightarrow> [])
      | _ \<Rightarrow> [])"

text \<open>
  \<open>main\<close> waits for the signal, then for the worker, is in \<open>srv.Shutdown\<close> until a deadline, runs
  the deferred calls that are left, and ends the process with an exit code.
\<close>

datatype main_pc = AwaitSignal | AwaitWorker | InShutdown time | Returning "deferred list" | Exited nat

text \<open>The worker is between two rounds, in a round, or has returned.\<close>

datatype worker_pc = Between | InRound | WorkerDone

record 'b lifecycle =
  lc_sys :: "'b server_state"
  lc_clock :: time
  lc_cancelled :: bool
  lc_worker :: worker_pc
  lc_listening :: bool
  lc_active :: nat
  lc_main :: main_pc
  lc_deadline :: "time option"
  lc_ran :: "deferred list"
  lc_log :: "string list"

definition started :: "'b server_state \<Rightarrow> time \<Rightarrow> 'b lifecycle" where
  "started s t = \<lparr>lc_sys = s, lc_clock = t, lc_cancelled = False, lc_worker = Between, lc_listening = True,
     lc_active = 0, lc_main = AwaitSignal, lc_deadline = None, lc_ran = [], lc_log = []\<rparr>"

definition running :: "'b lifecycle \<Rightarrow> bool" where
  "running c \<longleftrightarrow> (case lc_main c of Exited _ \<Rightarrow> False | _ \<Rightarrow> True)"

definition shutdown_timeout :: duration where
  "shutdown_timeout = 15 * Second"

section \<open>Steps\<close>

text \<open>What one statement of \<open>main\<close> does when it is ready.\<close>

definition main_next :: "closing \<Rightarrow> 'b lifecycle \<Rightarrow> 'b lifecycle option" where
  "main_next X c =
     (case lc_main c of
        AwaitSignal \<Rightarrow>
          if lc_cancelled c then Some (c\<lparr>lc_main := AwaitWorker, lc_log := lc_log c @ [''shutting down'']\<rparr>) else None
      | AwaitWorker \<Rightarrow>
          if lc_worker c = WorkerDone
          then (let deadline = lc_clock c + shutdown_timeout in
            Some (c\<lparr>lc_main := InShutdown deadline, lc_deadline := Some deadline, lc_listening := False\<rparr>))
          else None
      | InShutdown deadline \<Rightarrow>
          if lc_active c = 0 then Some (c\<lparr>lc_main := Returning (rev main_deferred)\<rparr>)
          else if deadline \<le> lc_clock c
          then Some (c\<lparr>lc_main := Returning (rev main_deferred), lc_log := lc_log c @ [''http shutdown'']\<rparr>)
          else None
      | Returning [] \<Rightarrow> Some (c\<lparr>lc_main := Exited 0\<rparr>)
      | Returning (d # ds) \<Rightarrow>
          Some (c\<lparr>lc_main := Returning ds, lc_ran := lc_ran c @ [d], lc_log := lc_log c @ deferred_log X d\<rparr>)
      | Exited _ \<Rightarrow> None)"

text \<open>What the worker does next, outside of the effect of a round.\<close>

definition worker_next :: "'b lifecycle \<Rightarrow> 'b lifecycle option" where
  "worker_next c =
     (case lc_worker c of
        Between \<Rightarrow> Some (c\<lparr>lc_worker := if lc_cancelled c then WorkerDone else InRound\<rparr>)
      | _ \<Rightarrow> None)"

text \<open>
  \<open>signal\<close>: an interrupt or \<open>SIGTERM\<close>, caught until \<open>stop\<close> has run; \<open>accept\<close> and \<open>answer\<close>: a
  request comes in and is answered; \<open>broken\<close>: \<open>ListenAndServe\<close> fails before the shutdown closes
  the listener, and \<open>log.Fatal\<close> ends the process without the deferred calls.
\<close>

inductive lc_step :: "env \<Rightarrow> float_ops \<Rightarrow> 'b libs \<Rightarrow> process \<Rightarrow> closing
    \<Rightarrow> 'b lifecycle \<Rightarrow> 'b lifecycle \<Rightarrow> bool" for E F L p X where
  wait: "running c \<Longrightarrow> 0 \<le> d \<Longrightarrow> lc_step E F L p X c (c\<lparr>lc_clock := lc_clock c + d\<rparr>)"
| signal: "running c \<Longrightarrow> StopSignals \<notin> set (lc_ran c) \<Longrightarrow> lc_step E F L p X c (c\<lparr>lc_cancelled := True\<rparr>)"
| accept: "running c \<Longrightarrow> lc_listening c \<Longrightarrow> lc_step E F L p X c (c\<lparr>lc_active := Suc (lc_active c)\<rparr>)"
| answer: "running c \<Longrightarrow> lc_active c = Suc n \<Longrightarrow> lc_sys c = (w, ps, st) \<Longrightarrow>
    server E F R Q I L p r (w, ps, st) = (ops, s') \<Longrightarrow> lc_step E F L p X c (c\<lparr>lc_sys := s', lc_active := n\<rparr>)"
| round: "running c \<Longrightarrow> lc_worker c = InRound \<Longrightarrow> lc_sys c = (w, ps, st) \<Longrightarrow>
    lc_step E F L p X c (c\<lparr>lc_sys := (runOnce E F W (pc_worker p) (stale_after (pc_worker p)) w, ps, st), lc_worker := Between\<rparr>)"
| work: "running c \<Longrightarrow> worker_next c = Some c' \<Longrightarrow> lc_step E F L p X c c'"
| main: "main_next X c = Some c' \<Longrightarrow> lc_step E F L p X c c'"
| broken: "running c \<Longrightarrow> lc_listening c \<Longrightarrow> lc_step E F L p X c (c\<lparr>lc_main := Exited 1, lc_log := lc_log c @ [''http server'']\<rparr>)"

inductive_cases lc_stepE: "lc_step E F L p X c c'"

section \<open>The running system inside\<close>

text \<open>Every step is a step of the running system or leaves its state alone.\<close>

lemma next_sys:
  "main_next X c = Some c' \<Longrightarrow> lc_sys c' = lc_sys c" "worker_next c = Some c' \<Longrightarrow> lc_sys c' = lc_sys c"
  by (auto simp: main_next_def worker_next_def Let_def split: main_pc.splits worker_pc.splits list.splits if_splits)

lemma step_sys: "lc_step E F L p X c c' \<Longrightarrow> (system_step E F L p)\<^sup>=\<^sup>= (lc_sys c) (lc_sys c')"
  by (induction rule: lc_step.induct) (auto simp: next_sys intro: system_step.intros)

lemma steps_sys:
  assumes "(lc_step E F L p X)\<^sup>*\<^sup>* c c'"
  shows "(system_step E F L p)\<^sup>*\<^sup>* (lc_sys c) (lc_sys c')"
  using assms
proof (induction rule: rtranclp_induct)
  case (step y z)
  then show ?case using step_sys [OF step.hyps(2)] by (auto intro: rtranclp.rtrancl_into_rtrancl)
qed simp

section \<open>The order of the shutdown\<close>

text \<open>
  \<open>drained\<close>: the listener is closed, and the requests have been answered or have had their time.
  The deferred calls that have run and those that are left are together all of them.
\<close>

definition drained :: "'b lifecycle \<Rightarrow> bool" where
  "drained c \<longleftrightarrow> lc_cancelled c \<and> lc_worker c = WorkerDone \<and> \<not> lc_listening c \<and>
     (\<exists>t. lc_deadline c = Some t \<and> (lc_active c = 0 \<or> t \<le> lc_clock c))"

definition lc_inv :: "'b lifecycle \<Rightarrow> bool" where
  "lc_inv c \<longleftrightarrow>
     (lc_worker c = WorkerDone \<longrightarrow> lc_cancelled c) \<and>
     (\<forall>t. lc_deadline c = Some t \<longrightarrow> t \<le> lc_clock c + shutdown_timeout) \<and>
     (case lc_main c of
        AwaitSignal \<Rightarrow> lc_ran c = [] \<and> lc_deadline c = None \<and> lc_listening c
      | AwaitWorker \<Rightarrow> lc_cancelled c \<and> lc_ran c = [] \<and> lc_deadline c = None \<and> lc_listening c
      | InShutdown t \<Rightarrow> lc_cancelled c \<and> lc_worker c = WorkerDone \<and> \<not> lc_listening c \<and> lc_deadline c = Some t \<and> lc_ran c = []
      | Returning ds \<Rightarrow> drained c \<and> lc_ran c @ ds = rev main_deferred
      | Exited n \<Rightarrow> if n = 0 then drained c \<and> lc_ran c = rev main_deferred else lc_listening c \<and> lc_ran c = [])"

lemma inv_started: "lc_inv (started s t)"
  by (simp add: lc_inv_def started_def)

lemma inv_main: "lc_inv c \<Longrightarrow> main_next X c = Some c' \<Longrightarrow> lc_inv c'"
  by (auto simp: lc_inv_def main_next_def drained_def Let_def split: main_pc.splits list.splits if_splits)

lemma inv_worker: "lc_inv c \<Longrightarrow> worker_next c = Some c' \<Longrightarrow> lc_inv c'"
  by (auto simp: lc_inv_def worker_next_def drained_def split: main_pc.splits worker_pc.splits if_splits)

lemma inv_step:
  assumes "lc_step E F L p X c c'" and "lc_inv c"
  shows "lc_inv c'"
  using assms
proof (induction rule: lc_step.induct)
  case (wait c d)
  then show ?case by (auto simp: lc_inv_def drained_def split: main_pc.splits)
next
  case (signal c)
  then show ?case by (auto simp: lc_inv_def drained_def split: main_pc.splits)
next
  case (accept c)
  then show ?case by (auto simp: lc_inv_def drained_def split: main_pc.splits if_splits)
next
  case (answer c n w ps st R Q I r ops s')
  then show ?case by (auto simp: lc_inv_def drained_def split: main_pc.splits if_splits)
next
  case (round c w ps st W)
  then show ?case by (auto simp: lc_inv_def drained_def split: main_pc.splits if_splits)
next
  case (work c c')
  then show ?case by (blast intro: inv_worker)
next
  case (main c c')
  then show ?case by (blast intro: inv_main)
next
  case (broken c)
  then show ?case by (auto simp: lc_inv_def running_def drained_def split: main_pc.splits)
qed

lemma inv_steps: "(lc_step E F L p X)\<^sup>*\<^sup>* c c' \<Longrightarrow> lc_inv c \<Longrightarrow> lc_inv c'"
  by (induction rule: rtranclp_induct) (auto intro: inv_step)

text \<open>
  C22: the shutdown happens in order. Whenever a deferred call has run, there was a signal, the
  worker has returned, the listener is closed, and every request was answered or the 15 seconds
  are over; so the pool and the Redis client are closed after the last round of the worker. The
  calls run in the reverse order, all of them before the process ends with code 0. The
  invariant of the ledger holds at every moment.
\<close>

theorem shutdown_order:
  assumes "libs_ok E L" and "(lc_step E F L p X)\<^sup>*\<^sup>* (started (empty_world, ps, st) t0) c"
  shows "(lc_ran c \<noteq> [] \<longrightarrow> lc_cancelled c \<and> lc_worker c = WorkerDone \<and> \<not> lc_listening c \<and>
      (\<exists>t. lc_deadline c = Some t \<and> (lc_active c = 0 \<or> t \<le> lc_clock c))) \<and>
    (\<exists>rest. lc_ran c @ rest = [CancelTimeout, StopSignals, CloseRedis, ClosePool, ShutdownTracer]) \<and>
    (lc_main c = Exited 0 \<longrightarrow> lc_ran c = [CancelTimeout, StopSignals, CloseRedis, ClosePool, ShutdownTracer]) \<and>
    ledger_inv (fst (lc_sys c))"
proof -
  have "lc_inv c" by (rule inv_steps [OF assms(2) inv_started])
  then have "(lc_ran c \<noteq> [] \<longrightarrow> drained c) \<and> (\<exists>rest. lc_ran c @ rest = rev main_deferred) \<and>
      (lc_main c = Exited 0 \<longrightarrow> lc_ran c = rev main_deferred)"
    by (auto simp: lc_inv_def split: main_pc.splits if_splits)
  moreover have "(system_step E F L p)\<^sup>*\<^sup>* (empty_world, ps, st) (lc_sys c)"
    using steps_sys [OF assms(2)] by (simp add: started_def)
  then have "ledger_inv (fst (lc_sys c))"
    using ledger_steps_inv [OF system_steps_ledger [OF _ assms(1)]] ledger_inv_empty by simp
  ultimately show ?thesis by (simp add: drained_def main_deferred_def)
qed

text \<open>So a call that was deferred earlier runs later, and at the end none is left out.\<close>

lemma ran_descending:
  assumes "(lc_step E F L p X)\<^sup>*\<^sup>* (started s t0) c"
  shows "sorted (rev (lc_ran c))" "lc_main c = Exited 0 \<Longrightarrow> set (lc_ran c) = UNIV"
proof -
  have "lc_inv c" by (rule inv_steps [OF assms inv_started])
  then have r: "(\<exists>rest. lc_ran c @ rest = rev main_deferred)" "lc_main c = Exited 0 \<Longrightarrow> lc_ran c = rev main_deferred"
    by (auto simp: lc_inv_def split: main_pc.splits if_splits)
  from r(1) obtain rest where "lc_ran c @ rest = rev main_deferred" ..
  then have "rev rest @ rev (lc_ran c) = main_deferred" by (metis rev_append rev_rev_ident)
  then show "sorted (rev (lc_ran c))" using main_deferred_all(1) by (metis sorted_append)
  show "set (lc_ran c) = UNIV" if "lc_main c = Exited 0" using r(2) [OF that] main_deferred_all(2) by simp
qed

section \<open>The shutdown ends\<close>

text \<open>\<open>ends E F L p X c t\<close>: without any request being answered the process can end with code 0 by the time \<open>t\<close>.\<close>

definition ends :: "env \<Rightarrow> float_ops \<Rightarrow> 'b libs \<Rightarrow> process \<Rightarrow> closing \<Rightarrow> 'b lifecycle \<Rightarrow> time \<Rightarrow> bool" where
  "ends E F L p X c t \<longleftrightarrow>
     (\<exists>c'. (lc_step E F L p X)\<^sup>*\<^sup>* c c' \<and> lc_main c' = Exited 0 \<and> lc_clock c' \<le> t \<and> lc_active c' = lc_active c)"

lemma ends_step: "lc_step E F L p X c c1 \<Longrightarrow> lc_active c1 = lc_active c \<Longrightarrow> ends E F L p X c1 t \<Longrightarrow> ends E F L p X c t"
  unfolding ends_def by (metis converse_rtranclp_into_rtranclp)

lemma ends_main:
  "main_next X c = Some c1 \<Longrightarrow> lc_active c1 = lc_active c \<Longrightarrow> ends E F L p X c1 t \<Longrightarrow> ends E F L p X c t"
  by (rule ends_step [OF lc_step.main])

lemma ends_returning: "lc_main c = Returning ds \<Longrightarrow> lc_clock c \<le> t \<Longrightarrow> ends E F L p X c t"
proof (induction ds arbitrary: c)
  case Nil
  have "ends E F L p X (c\<lparr>lc_main := Exited 0\<rparr>) t" unfolding ends_def using Nil.prems by (intro exI [of _ "c\<lparr>lc_main := Exited 0\<rparr>"]) simp
  then show ?case by (rule ends_main [rotated 2]) (simp_all add: main_next_def Nil.prems)
next
  case (Cons d ds)
  have "ends E F L p X (c\<lparr>lc_main := Returning ds, lc_ran := lc_ran c @ [d], lc_log := lc_log c @ deferred_log X d\<rparr>) t" by (rule Cons.IH) (simp_all add: Cons.prems)
  then show ?case by (rule ends_main [rotated 2]) (simp_all add: main_next_def Cons.prems)
qed

lemma ends_shutdown:
  assumes "lc_main c = InShutdown d" and "d \<le> t" and "lc_clock c \<le> t"
  shows "ends E F L p X c t"
proof -
  let ?c = "c\<lparr>lc_clock := lc_clock c + (t - lc_clock c)\<rparr>"
  obtain c1 where c1: "main_next X ?c = Some c1" "lc_main c1 = Returning (rev main_deferred)" "lc_clock c1 = t" "lc_active c1 = lc_active c"
    using assms by (cases "lc_active c = 0") (auto simp: main_next_def)
  have "ends E F L p X ?c t" by (rule ends_main [OF c1(1)]) (use c1 in \<open>auto intro: ends_returning\<close>)
  moreover have "lc_step E F L p X c ?c" by (rule lc_step.wait) (use assms in \<open>simp_all add: running_def\<close>)
  ultimately show ?thesis by (intro ends_step [where c = c]) simp_all
qed

lemma ends_worker:
  assumes "lc_main c = AwaitWorker" and "lc_worker c = WorkerDone"
  shows "ends E F L p X c (lc_clock c + shutdown_timeout)"
proof -
  obtain c1 where c1: "main_next X c = Some c1" "lc_main c1 = InShutdown (lc_clock c + shutdown_timeout)" "lc_clock c1 = lc_clock c"
      "lc_active c1 = lc_active c"
    using assms by (simp add: main_next_def Let_def)
  show ?thesis by (rule ends_main [OF c1(1,4)]) (use c1 in \<open>auto intro: ends_shutdown simp: shutdown_timeout_def duration_defs\<close>)
qed

lemma ends_await:
  assumes "lc_main c = AwaitWorker" and "lc_cancelled c" and "lc_worker c \<noteq> InRound"
  shows "ends E F L p X c (lc_clock c + shutdown_timeout)"
proof (cases "lc_worker c")
  case Between
  let ?c = "c\<lparr>lc_worker := WorkerDone\<rparr>"
  have "lc_step E F L p X c ?c" by (rule lc_step.work) (use assms Between in \<open>simp_all add: running_def worker_next_def\<close>)
  moreover have "ends E F L p X ?c (lc_clock ?c + shutdown_timeout)" by (rule ends_worker) (simp_all add: assms(1))
  ultimately show ?thesis by (intro ends_step [where c = c]) simp_all
qed (use assms ends_worker in auto)

lemma ends_round:
  assumes "lc_main c = AwaitWorker" and "lc_cancelled c"
  shows "ends E F L p X c (lc_clock c + shutdown_timeout)"
proof (cases "lc_worker c = InRound")
  case True
  obtain w ps st where s: "lc_sys c = (w, ps, st)" by (metis prod.exhaust)
  let ?c = "c\<lparr>lc_sys := (runOnce E F undefined (pc_worker p) (stale_after (pc_worker p)) w, ps, st), lc_worker := Between\<rparr>"
  have "lc_step E F L p X c ?c" by (rule lc_step.round) (use assms True s in \<open>simp_all add: running_def\<close>)
  moreover have "ends E F L p X ?c (lc_clock ?c + shutdown_timeout)" by (rule ends_await) (simp_all add: assms)
  ultimately show ?thesis by (intro ends_step [where c = c]) simp_all
next
  case False
  with assms show ?thesis by (intro ends_await)
qed

text \<open>
  After a signal the process can always end with code 0 within 15 seconds from where it is, even if
  no request in flight is answered any more; in particular it is never stuck.
\<close>

lemma shutdown_completes:
  assumes "(lc_step E F L p X)\<^sup>*\<^sup>* (started s t0) c" and "lc_cancelled c" and "running c"
  shows "ends E F L p X c (lc_clock c + shutdown_timeout)"
proof -
  have inv: "lc_inv c" by (rule inv_steps [OF assms(1) inv_started])
  have pos: "0 \<le> shutdown_timeout" by (simp add: shutdown_timeout_def duration_defs)
  show ?thesis
  proof (cases "lc_main c")
    case AwaitSignal
    let ?c = "c\<lparr>lc_main := AwaitWorker, lc_log := lc_log c @ [''shutting down'']\<rparr>"
    have "ends E F L p X ?c (lc_clock ?c + shutdown_timeout)" by (rule ends_round) (simp_all add: assms(2))
    with AwaitSignal assms(2) show ?thesis by (intro ends_main [where c = c and ?c1.0 = ?c]) (simp_all add: main_next_def)
  next
    case AwaitWorker
    with assms(2) show ?thesis by (intro ends_round)
  next
    case (InShutdown d)
    with inv pos show ?thesis by (intro ends_shutdown) (auto simp: lc_inv_def)
  next
    case (Returning ds)
    with pos show ?thesis by (intro ends_returning) auto
  qed (use assms(3) in \<open>simp add: running_def\<close>)
qed

section \<open>A concrete shutdown\<close>

theorem shutdown_order_witness:
  "\<exists>c. (lc_step sample_env exact_ops simple_libs sample_process (\<lambda>_. None))\<^sup>*\<^sup>* (started (empty_world, psp_start, fresh_stores) 0) c \<and>
     lc_main c = Exited 0 \<and> lc_ran c = [CancelTimeout, StopSignals, CloseRedis, ClosePool, ShutdownTracer]"
proof -
  let ?step = "lc_step sample_env exact_ops simple_libs sample_process (\<lambda>_. None)"
  let ?c0 = "started (empty_world, psp_start, fresh_stores) 0 :: unit lifecycle"
  have "?step ?c0 (?c0\<lparr>lc_cancelled := True\<rparr>)" by (rule lc_step.signal) (simp_all add: started_def running_def)
  then have 1: "?step\<^sup>*\<^sup>* ?c0 (?c0\<lparr>lc_cancelled := True\<rparr>)" by (rule r_into_rtranclp)
  have "running (?c0\<lparr>lc_cancelled := True\<rparr>)" by (simp add: started_def running_def)
  from shutdown_completes [OF 1 _ this] obtain c where c: "?step\<^sup>*\<^sup>* (?c0\<lparr>lc_cancelled := True\<rparr>) c" "lc_main c = Exited 0"
    by (auto simp: ends_def)
  have "?step\<^sup>*\<^sup>* ?c0 c" using 1 c(1) by (rule rtranclp_trans)
  with shutdown_order [OF simple_libs_ok this] c(2) show ?thesis by blast
qed

end
