(* ===== verification/Test_Support.thy ===== *)
theory Test_Support
  imports Server "HOL-Library.List_Lexorder" "HOL-Library.Char_ord"
begin

text \<open>
  The helpers of the integration tests (\<open>internal/testutil\<close>): finding the module and its file
  \<open>.env\<close>, connecting, migrating up and down, clearing the stores between tests, and the payment
  that the repository tests start from.

  \<open>t.Skip\<close> and \<open>t.Fatal\<close> end the test at once: they are the values of \<open>stop\<close>. A test has
  its own state: the variables of the process, the files, the connections that are open and the
  functions registered with \<open>t.Cleanup\<close>. The operating system and the libraries answer through
  the record \<open>test_env\<close>.
\<close>

section \<open>The state of a test\<close>

datatype stop = Skip string | Fatal string

datatype node = FileNode string | DirNode

type_synonym files = "string \<Rightarrow> node option"

text \<open>
  \<open>ts_once\<close>: \<open>loadTestDotenvOnce\<close> has run; a connection is a number, \<open>ts_next\<close> the next free one.
\<close>

record test_state =
  ts_once :: bool
  ts_environ :: "string \<Rightarrow> string option"
  ts_files :: files
  ts_temps :: nat
  ts_open :: "nat list"
  ts_cleanups :: "nat list"
  ts_next :: nat

text \<open>
  \<open>te_boot\<close>: the libraries that the server uses, too; \<open>te_Caller\<close>: the file that
  \<open>runtime.Caller\<close> names; \<open>te_Load\<close>: what \<open>godotenv.Load\<close> makes of the variables;
  \<open>te_stat\<close>, \<open>te_read\<close>, \<open>te_write\<close>: calls on files that fail, the last with what the file
  holds afterwards; \<open>te_ReadDir\<close>: the names in a directory, each with whether it is a directory;
  \<open>te_TempDir\<close>: the temporary directories that the test gets; \<open>te_Down\<close>: the answers of the
  successive calls of \<open>Down\<close>; \<open>te_Scan\<close>: the keys that the iterator over \<open>idem:*\<close> yields, and
  the error it ends with.
\<close>

record test_env =
  te_boot :: boot
  te_Short :: bool
  te_Caller :: "string option"
  te_Load :: "string \<Rightarrow> (string \<Rightarrow> string option) \<Rightarrow> (string \<Rightarrow> string option)"
  te_stat :: "string \<Rightarrow> go_error option"
  te_read :: "string \<Rightarrow> go_error option"
  te_write :: "string \<Rightarrow> (go_error \<times> node option) option"
  te_ReadDir :: "string \<Rightarrow> (string \<times> bool) list result"
  te_TempDir :: "nat \<Rightarrow> string result"
  te_Down :: "nat \<Rightarrow> go_error option"
  te_Scan :: "stores \<Rightarrow> string list \<times> go_error option"

definition test_Getenv :: "test_state \<Rightarrow> string \<Rightarrow> string" where
  "test_Getenv s k = (case ts_environ s k of None \<Rightarrow> [] | Some v \<Rightarrow> v)"

text \<open>Files. The paths that the helpers make are clean.\<close>

definition os_Stat :: "test_env \<Rightarrow> files \<Rightarrow> string \<Rightarrow> node result" where
  "os_Stat T fs path =
     (case te_stat T path of
        Some err \<Rightarrow> Inl err
      | None \<Rightarrow> (case fs path of
          None \<Rightarrow> Inl (OtherError (''stat '' @ path @ '': no such file or directory'')) | Some nd \<Rightarrow> Inr nd))"

definition os_ReadFile :: "test_env \<Rightarrow> files \<Rightarrow> string \<Rightarrow> string result" where
  "os_ReadFile T fs path =
     (case te_read T path of
        Some err \<Rightarrow> Inl err
      | None \<Rightarrow> (case fs path of
          None \<Rightarrow> Inl (OtherError (''open '' @ path @ '': no such file or directory''))
        | Some DirNode \<Rightarrow> Inl (OtherError (''read '' @ path @ '': is a directory''))
        | Some (FileNode b) \<Rightarrow> Inr b))"

definition os_WriteFile :: "test_env \<Rightarrow> files \<Rightarrow> string \<Rightarrow> string \<Rightarrow> unit result \<times> files" where
  "os_WriteFile T fs path b =
     (case te_write T path of
        Some (err, left) \<Rightarrow> (Inl err, fs(path := left))
      | None \<Rightarrow> if fs path = Some DirNode then (Inl (OtherError (''open '' @ path @ '': is a directory'')), fs)
                else (Inr (), fs(path := Some (FileNode b))))"

text \<open>Connections and \<open>t.Cleanup\<close>. Closing twice does no harm.\<close>

definition open_conn :: "test_state \<Rightarrow> nat \<times> test_state" where
  "open_conn s = (ts_next s, s\<lparr>ts_open := ts_next s # ts_open s, ts_next := Suc (ts_next s)\<rparr>)"

definition Cleanup :: "nat \<Rightarrow> test_state \<Rightarrow> test_state" where
  "Cleanup c s = s\<lparr>ts_cleanups := c # ts_cleanups s\<rparr>"

definition close_conn :: "nat \<Rightarrow> test_state \<Rightarrow> test_state" where
  "close_conn c s = s\<lparr>ts_open := filter (\<lambda>x. x \<noteq> c) (ts_open s)\<rparr>"

text \<open>The end of a test: the functions registered run, the last one first.\<close>

definition run_cleanups :: "test_state \<Rightarrow> test_state" where
  "run_cleanups s = (fold close_conn (ts_cleanups s) s)\<lparr>ts_cleanups := []\<rparr>"

section \<open>The module and its variables\<close>

text \<open>Up from a directory to the first one that holds a file \<open>go.mod\<close>.\<close>

definition has_go_mod :: "test_env \<Rightarrow> files \<Rightarrow> string \<Rightarrow> bool" where
  "has_go_mod T fs dir = (case os_Stat T fs (Join [dir, ''go.mod'']) of Inl _ \<Rightarrow> False | Inr _ \<Rightarrow> True)"

function find_root :: "test_env \<Rightarrow> files \<Rightarrow> string \<Rightarrow> string option" where
  "find_root T fs dir =
     (if has_go_mod T fs dir then Some dir
      else let parent = Dir dir in
        if parent = dir then None else find_root T fs parent)"
  by pat_completeness auto
termination
  by (relation "measure (\<lambda>(T, fs, dir). depth dir)") (simp_all add: Dir_depth)

declare find_root.simps [simp del]

definition moduleRootFromFile :: "test_env \<Rightarrow> files \<Rightarrow> string result" where
  "moduleRootFromFile T fs =
     (case te_Caller T of
        None \<Rightarrow> Inl (OtherError ''runtime.Caller failed'')
      | Some fname \<Rightarrow>
          (case find_root T fs (Dir fname) of
             Some dir \<Rightarrow> Inr dir | None \<Rightarrow> Inl (OtherError ''go.mod not found'')))"

definition moduleRoot :: "test_env \<Rightarrow> files \<Rightarrow> stop + string" where
  "moduleRoot T fs =
     (case te_Caller T of
        None \<Rightarrow> Inl (Fatal ''runtime.Caller failed'')
      | Some fname \<Rightarrow>
          (case find_root T fs (Dir fname) of
             Some dir \<Rightarrow> Inr dir | None \<Rightarrow> Inl (Fatal ''go.mod not found when resolving module root'')))"

definition testDatabaseURLEnv :: string where "testDatabaseURLEnv = ''TEST_DATABASE_URL''"

definition loadTestEnvFromDotenv :: "test_env \<Rightarrow> test_state \<Rightarrow> test_state" where
  "loadTestEnvFromDotenv T s =
     (if ts_once s then s
      else (case moduleRootFromFile T (ts_files s) of
        Inl _ \<Rightarrow> s\<lparr>ts_once := True\<rparr>
      | Inr modroot \<Rightarrow> s\<lparr>ts_once := True, ts_environ := te_Load T (Join [modroot, ''.env'']) (ts_environ s)\<rparr>))"

definition not_set :: stop where
  "not_set = Skip (''set '' @ testDatabaseURLEnv @ '' to run integration tests'')"

section \<open>Connections\<close>

definition MustPool :: "test_env \<Rightarrow> test_state \<Rightarrow> (stop + nat) \<times> test_state" where
  "MustPool T s =
     (if te_Short T then (Inl (Skip ''skipping integration test (-short)''), s)
      else
        (let s1 = loadTestEnvFromDotenv T s; u = test_Getenv s1 testDatabaseURLEnv in
         if u = [] then (Inl not_set, s1)
         else (case pl_Parse (te_boot T) u of
           Some err \<Rightarrow> (Inl (Fatal (''parse '' @ testDatabaseURLEnv @ '': '' @ Error_text err)), s1)
         | None \<Rightarrow>
        (case pl_New (te_boot T) of
           Some err \<Rightarrow> (Inl (Fatal (''pgx pool: '' @ Error_text err)), s1)
         | None \<Rightarrow>
             (let (pool, s2) = open_conn s1; s3 = Cleanup pool s2 in
              case pl_Ping (te_boot T) of
                Some err \<Rightarrow> (Inl (Fatal (''ping database: '' @ Error_text err)), close_conn pool s3)
              | None \<Rightarrow> (Inr pool, s3))))))"

definition MustRedis :: "test_env \<Rightarrow> test_state \<Rightarrow> (stop + nat) \<times> test_state" where
  "MustRedis T s =
     (if te_Short T then (Inl (Skip ''skipping integration test (-short)''), s)
      else
        (let s1 = loadTestEnvFromDotenv T s; addr0 = test_Getenv s1 ''REDIS_ADDR'';
             addr = (if addr0 = [] then ''127.0.0.1:6379'' else addr0);
             (rdb, s2) = open_conn s1; s3 = Cleanup rdb s2
         in case rd_Ping (te_boot T) addr of
              Some err \<Rightarrow> (Inl (Fatal (''redis ping: '' @ Error_text err)), s3)
            | None \<Rightarrow> (Inr rdb, s3)))"

section \<open>Migrating up\<close>

definition migrationsDir :: "test_env \<Rightarrow> test_state \<Rightarrow> stop + string" where
  "migrationsDir T s =
     (let p = test_Getenv s ''MIGRATIONS_PATH'' in
      if p \<noteq> [] then Inr p
      else (case moduleRoot T (ts_files s) of
        Inl x \<Rightarrow> Inl x
      | Inr modroot \<Rightarrow>
          (let up = Join [modroot, ''migrations'', ''up''] in
           case os_Stat T (ts_files s) up of
             Inr DirNode \<Rightarrow> Inr up
           | _ \<Rightarrow> Inr (Join [modroot, ''migrations'']))))"

definition test_migrationsFileURL :: "test_env \<Rightarrow> string \<Rightarrow> string result" where
  "test_migrationsFileURL T dir =
     (case filepath_Abs (os_Getwd (te_boot T)) dir of Inl err \<Rightarrow> Inl err | Inr a \<Rightarrow> Inr (''file://'' @ a))"

text \<open>What both directions do before they migrate.\<close>

definition open_migrate :: "boot \<Rightarrow> string \<Rightarrow> string \<Rightarrow> go_error option" where
  "open_migrate B databaseURL migrationsURL =
     (case mg_Open B databaseURL of
        Some err \<Rightarrow> Some (wrap_pre ''open sql for migrations'' err)
      | None \<Rightarrow>
     (case mg_Ping B databaseURL of
        Some err \<Rightarrow> Some (wrap_pre ''ping for migrations'' err)
      | None \<Rightarrow>
     (case mg_WithInstance B databaseURL of
        Some err \<Rightarrow> Some (wrap_pre ''migrate pgx driver'' err)
      | None \<Rightarrow>
     (case mg_New B migrationsURL of
        Some err \<Rightarrow> Some (wrap_pre ''migrate instance'' err)
      | None \<Rightarrow> None))))"

definition test_runMigrations :: "test_env \<Rightarrow> string \<Rightarrow> string \<Rightarrow> unit result" where
  "test_runMigrations T databaseURL migrationsURL =
     (case open_migrate (te_boot T) databaseURL migrationsURL of
        Some err \<Rightarrow> Inl err
      | None \<Rightarrow>
          (case mg_Up (te_boot T) migrationsURL of
             None \<Rightarrow> Inr ()
           | Some err \<Rightarrow> if \<not> mg_NoChange (te_boot T) err then Inl (wrap_pre ''migrate up'' err) else Inr ()))"

definition MustMigrateUp :: "test_env \<Rightarrow> nat option \<Rightarrow> test_state \<Rightarrow> (stop + unit) \<times> test_state" where
  "MustMigrateUp T pool s =
     (if pool = None then (Inl (Fatal ''pool is nil''), s)
      else
        (let s1 = loadTestEnvFromDotenv T s; u = test_Getenv s1 testDatabaseURLEnv in
         if u = [] then (Inl not_set, s1)
         else (case migrationsDir T s1 of
           Inl x \<Rightarrow> (Inl x, s1)
         | Inr dir \<Rightarrow>
        (case test_migrationsFileURL T dir of
           Inl err \<Rightarrow> (Inl (Fatal (''migrations path: '' @ Error_text err)), s1)
         | Inr migrateURL \<Rightarrow>
        (case test_runMigrations T u migrateURL of
           Inl err \<Rightarrow> (Inl (Fatal (''migrate up: '' @ Error_text err)), s1)
         | Inr _ \<Rightarrow> (Inr (), s1))))))"

section \<open>Migrating down\<close>

definition HasSuffix :: "string \<Rightarrow> string \<Rightarrow> bool" where
  "HasSuffix s suf \<longleftrightarrow> length suf \<le> length s \<and> drop (length s - length suf) s = suf"

definition TrimSuffix :: "string \<Rightarrow> string \<Rightarrow> string" where
  "TrimSuffix s suf = (if HasSuffix s suf then take (length s - length suf) s else s)"

definition copyFile :: "test_env \<Rightarrow> string \<Rightarrow> string \<Rightarrow> files \<Rightarrow> unit result \<times> files" where
  "copyFile T dst src fs =
     (case os_ReadFile T fs src of
        Inl err \<Rightarrow> (Inl err, fs)
      | Inr b \<Rightarrow> os_WriteFile T fs dst b)"

text \<open>The loop over the up migrations: each is copied together with its down migration.\<close>

fun copy_pairs :: "test_env \<Rightarrow> string \<Rightarrow> string \<Rightarrow> string \<Rightarrow> string list \<Rightarrow> files \<Rightarrow> (stop + unit) \<times> files" where
  "copy_pairs T upDir downDir dst [] fs = (Inr (), fs)"
| "copy_pairs T upDir downDir dst (name # names) fs =
     (let stem = TrimSuffix name ''.up.sql'';
          upPath = Join [upDir, name];
          downPath = Join [downDir, stem @ ''.down.sql'']
      in case os_Stat T fs downPath of
           Inl err \<Rightarrow> (Inl (Fatal (''missing down migration for '' @ stem @ '': '' @ Error_text err)), fs)
         | Inr _ \<Rightarrow>
        (case copyFile T (Join [dst, name]) upPath fs of
           (Inl err, fs1) \<Rightarrow> (Inl (Fatal (''copy '' @ name @ '': '' @ Error_text err)), fs1)
         | (Inr _, fs1) \<Rightarrow>
        (case copyFile T (Join [dst, stem @ ''.down.sql'']) downPath fs1 of
           (Inl err, fs2) \<Rightarrow> (Inl (Fatal (''copy '' @ stem @ ''.down.sql: '' @ Error_text err)), fs2)
         | (Inr _, fs2) \<Rightarrow> copy_pairs T upDir downDir dst names fs2)))"

definition up_names :: "(string \<times> bool) list \<Rightarrow> string list" where
  "up_names ents = sort (map fst (filter (\<lambda>(name, isdir). \<not> (isdir \<or> \<not> HasSuffix name ''.up.sql'')) ents))"

definition combinedMigrationsDir :: "test_env \<Rightarrow> test_state \<Rightarrow> (stop + string) \<times> test_state" where
  "combinedMigrationsDir T s =
     (case moduleRoot T (ts_files s) of
        Inl x \<Rightarrow> (Inl x, s)
      | Inr modroot \<Rightarrow>
          (let upDir = Join [modroot, ''migrations'', ''up''];
               downDir = Join [modroot, ''migrations'', ''down'']
           in case te_ReadDir T upDir of
                Inl err \<Rightarrow> (Inl (Fatal (''read up migrations: '' @ Error_text err)), s)
              | Inr ents \<Rightarrow>
                  (let ups = up_names ents in
                   if ups = [] then (Inl (Fatal ''no *.up.sql files in migrations/up''), s)
                   else (case te_TempDir T (ts_temps s) of
                     Inl err \<Rightarrow> (Inl (Fatal (''TempDir: '' @ Error_text err)), s)
                   | Inr dst \<Rightarrow>
                       (case copy_pairs T upDir downDir dst ups (ts_files s) of
                          (Inl x, fs) \<Rightarrow> (Inl x, s\<lparr>ts_temps := Suc (ts_temps s), ts_files := fs\<rparr>)
                        | (Inr _, fs) \<Rightarrow> (Inr dst, s\<lparr>ts_temps := Suc (ts_temps s), ts_files := fs\<rparr>))))))"

text \<open>\<open>Down\<close> is called until it has nothing to do; \<open>n\<close> counts the calls.\<close>

partial_function (option) down_loop :: "test_env \<Rightarrow> nat \<Rightarrow> unit result option" where
  "down_loop T n =
     (case te_Down T n of
        None \<Rightarrow> down_loop T (Suc n)
      | Some err \<Rightarrow> if mg_NoChange (te_boot T) err then Some (Inr ()) else Some (Inl (wrap_pre ''migrate down step'' err)))"

definition runMigrateDownAll :: "test_env \<Rightarrow> string \<Rightarrow> string \<Rightarrow> unit result option" where
  "runMigrateDownAll T databaseURL migrationsURL =
     (case open_migrate (te_boot T) databaseURL migrationsURL of
        Some err \<Rightarrow> Some (Inl err)
      | None \<Rightarrow> down_loop T 0)"

text \<open>\<open>None\<close>: the loop over \<open>Down\<close> does not end.\<close>

definition MustMigrateDownAll :: "test_env \<Rightarrow> nat option \<Rightarrow> test_state \<Rightarrow> ((stop + unit) \<times> test_state) option" where
  "MustMigrateDownAll T pool s =
     (if pool = None then Some (Inl (Fatal ''pool is nil''), s)
      else
        (let s1 = loadTestEnvFromDotenv T s; u = test_Getenv s1 testDatabaseURLEnv in
         if u = [] then Some (Inl not_set, s1)
         else (case combinedMigrationsDir T s1 of
           (Inl x, s2) \<Rightarrow> Some (Inl x, s2)
         | (Inr dir, s2) \<Rightarrow>
        (case test_migrationsFileURL T dir of
           Inl err \<Rightarrow> Some (Inl (Fatal (''migrations path: '' @ Error_text err)), s2)
         | Inr migrateURL \<Rightarrow>
        (case runMigrateDownAll T u migrateURL of
           None \<Rightarrow> None
         | Some (Inl err) \<Rightarrow> Some (Inl (Fatal (''migrate down: '' @ Error_text err)), s2)
         | Some (Inr _) \<Rightarrow> Some (Inr (), s2))))))"

section \<open>Clearing the stores, and a payment\<close>

text \<open>One statement on the four tables; those of the idempotency middleware are in \<open>stores\<close>.\<close>

definition truncate_stmt :: "world \<times> stores \<Rightarrow> world \<times> stores" where
  "truncate_stmt = (\<lambda>(w, st). (w\<lparr>payments := [], refunds := [], outbox := []\<rparr>, st\<lparr>st_rows := []\<rparr>))"

definition Truncate :: "env \<Rightarrow> idem_env \<Rightarrow> world \<times> stores \<Rightarrow> (stop + unit) \<times> world \<times> stores" where
  "Truncate E I ws =
     (let v = (tickw (fst ws), istep I (snd ws)) in
      case fault_at E (tick (fst ws)) of
        None \<Rightarrow> (Inr (), truncate_stmt v)
      | Some (f, applied) \<Rightarrow>
          (Inl (Fatal (''truncate: '' @ Error_text (fault_error f))), if applied then truncate_stmt v else v))"

definition NewPayment :: "env \<Rightarrow> uuid \<Rightarrow> string \<Rightarrow> world \<Rightarrow> (stop + payment) \<times> world" where
  "NewPayment E merchantID idempotencyKey w =
     (case NewID E w of
        (Inl err, w1) \<Rightarrow> (Inl (Fatal (''new payment id: '' @ Error_text err)), w1)
      | (Inr i, w1) \<Rightarrow>
          (case Now E w1 of (now, w2) \<Rightarrow>
             (Inr \<lparr>p_ID = i, p_MerchantID = merchantID, p_Amount = 100, p_Currency = ''USD'', p_Status = StatusInitiated,
                p_IdempotencyKey = idempotencyKey, p_PSP = [], p_PSPReferenceID = [], p_FailureReason = [],
                p_CreatedAt = now, p_UpdatedAt = now\<rparr>, w2)))"

definition redis_Del :: "string \<Rightarrow> stores \<Rightarrow> unit \<times> stores" where
  "redis_Del k st = ((), st\<lparr>st_redis := (st_redis st)(k := None)\<rparr>)"

fun del_keys :: "env \<Rightarrow> idem_env \<Rightarrow> string list \<Rightarrow> stores \<Rightarrow> (stop + unit) \<times> stores" where
  "del_keys E I [] st = (Inr (), st)"
| "del_keys E I (k # ks) st =
     (case redis_call I (redis_Del k) st of
        (Inl err, st1) \<Rightarrow> (Inl (Fatal (''redis del '' @ Quote (e_quote E) k @ '': '' @ Error_text err)), st1)
      | (Inr _, st1) \<Rightarrow> del_keys E I ks st1)"

definition FlushRedisIdempotency :: "test_env \<Rightarrow> env \<Rightarrow> idem_env \<Rightarrow> nat option \<Rightarrow> stores \<Rightarrow> (stop + unit) \<times> stores" where
  "FlushRedisIdempotency T E I rdb st =
     (if rdb = None then (Inr (), st)
      else (case te_Scan T st of (ks, failed) \<Rightarrow>
        (case del_keys E I ks st of
           (Inl x, st1) \<Rightarrow> (Inl x, st1)
         | (Inr _, st1) \<Rightarrow>
             (case failed of
                Some err \<Rightarrow> (Inl (Fatal (''redis scan: '' @ Error_text err)), st1)
              | None \<Rightarrow> (Inr (), st1)))))"

section \<open>The module root\<close>

lemma ex_pos_Suc: "\<not> P 0 \<Longrightarrow> (\<exists>n. P n) \<longleftrightarrow> (\<exists>n. P (Suc n))"
  by (metis not0_implies_Suc)

lemma find_root_spec:
  "find_root T fs d =
     (if \<exists>n. has_go_mod T fs ((Dir ^^ n) d)
      then Some ((Dir ^^ (LEAST n. has_go_mod T fs ((Dir ^^ n) d))) d) else None)"
proof (induction T fs d rule: find_root.induct)
  case (1 T fs d)
  let ?P = "\<lambda>n. has_go_mod T fs ((Dir ^^ n) d)"
  show ?case
  proof (cases "?P 0 \<or> Dir d = d")
    case True
    then consider "?P 0" | "\<not> ?P 0" "Dir d = d" by blast
    then show ?thesis
    proof cases
      case 1
      then have "(LEAST n. ?P n) = 0" by (intro Least_equality) auto
      with 1 show ?thesis using exI [of ?P 0] by (simp add: find_root.simps [of T fs d])
    next
      case 2
      then have "(Dir ^^ n) d = d" for n by (induction n) simp_all
      with 2 show ?thesis by (simp add: find_root.simps [of T fs d])
    qed
  next
    case False
    then have zero: "\<not> ?P 0" by blast
    have ex: "(\<exists>n. ?P n) \<longleftrightarrow> (\<exists>n. ?P (Suc n))" by (rule ex_pos_Suc [of ?P, OF zero])
    have least: "(LEAST n. ?P n) = Suc (LEAST n. ?P (Suc n))" if "\<exists>n. ?P n"
      using that zero Least_Suc [of ?P] by blast
    show ?thesis
      using False 1 ex least by (simp add: find_root.simps [of T fs d] Let_def funpow_Suc_right del: funpow.simps)
  qed
qed

text \<open>
  The search for the module ends, and it finds the nearest directory above the source file
  that holds a file \<open>go.mod\<close>; when no directory up to the root holds one, the test fails.
\<close>

theorem module_root_nearest:
  assumes "te_Caller T = Some f"
  shows "moduleRoot T fs =
    (if \<exists>n. has_go_mod T fs ((Dir ^^ n) (Dir f))
     then Inr ((Dir ^^ (LEAST n. has_go_mod T fs ((Dir ^^ n) (Dir f)))) (Dir f))
     else Inl (Fatal ''go.mod not found when resolving module root''))"
  using assms by (simp add: moduleRoot_def find_root_spec)

section \<open>Migrating down until nothing is left\<close>

lemma down_loop_at:
  assumes "te_Down T n = Some err" and "\<forall>m. k \<le> m \<and> m < n \<longrightarrow> te_Down T m = None" and "k \<le> n"
  shows "down_loop T k = Some (if mg_NoChange (te_boot T) err then Inr () else Inl (wrap_pre ''migrate down step'' err))"
  using assms
proof (induction "n - k" arbitrary: k)
  case 0
  then show ?case by (simp add: down_loop.simps [of T k])
next
  case (Suc j)
  then have "k < n" by linarith
  with Suc.prems have "te_Down T k = None" by blast
  moreover have "down_loop T (Suc k) = Some (if mg_NoChange (te_boot T) err then Inr () else Inl (wrap_pre ''migrate down step'' err))"
    using Suc.hyps(2) Suc.prems \<open>k < n\<close> by (intro Suc.hyps(1)) auto
  ultimately show ?case by (simp add: down_loop.simps [of T k])
qed

lemma down_loop_answered:
  assumes "down_loop T k = Some r"
  shows "\<exists>n \<ge> k. te_Down T n \<noteq> None"
  using _ assms
proof (rule down_loop.raw_induct)
  fix dl and T :: test_env and k r
  assume ih: "\<And>T k r. dl T k = Some r \<Longrightarrow> \<exists>n \<ge> k. te_Down T n \<noteq> None"
    and body: "(case te_Down T k of
        None \<Rightarrow> dl T (Suc k)
      | Some err \<Rightarrow> if mg_NoChange (te_boot T) err then Some (Inr ()) else Some (Inl (wrap_pre ''migrate down step'' err))) = Some r"
  show "\<exists>n \<ge> k. te_Down T n \<noteq> None"
  proof (cases "te_Down T k")
    case None
    with body have "dl T (Suc k) = Some r" by simp
    from ih [OF this] show ?thesis by (meson Suc_leD)
  next
    case (Some err)
    then have "k \<le> k \<and> te_Down T k \<noteq> None" by simp
    then show ?thesis by blast
  qed
qed

text \<open>
  The loop ends when, and only when, \<open>Down\<close> answers with an error one day: it succeeds if the
  first one says that nothing is left to do.
\<close>

lemma down_loop_spec:
  "down_loop T 0 =
     (if \<forall>n. te_Down T n = None then None
      else (let err = the (te_Down T (LEAST n. te_Down T n \<noteq> None)) in
        Some (if mg_NoChange (te_boot T) err then Inr () else Inl (wrap_pre ''migrate down step'' err))))"
proof (cases "\<forall>n. te_Down T n = None")
  case True
  then have "down_loop T 0 = None" using down_loop_answered [of T 0] by (cases "down_loop T 0") auto
  with True show ?thesis by simp
next
  case False
  let ?n = "LEAST n. te_Down T n \<noteq> None"
  have "te_Down T ?n \<noteq> None" using False LeastI_ex [of "\<lambda>n. te_Down T n \<noteq> None"] by blast
  then obtain err where "te_Down T ?n = Some err" by blast
  moreover have "\<forall>m. 0 \<le> m \<and> m < ?n \<longrightarrow> te_Down T m = None" using not_less_Least by blast
  ultimately have "down_loop T 0 = Some (if mg_NoChange (te_boot T) err then Inr () else Inl (wrap_pre ''migrate down step'' err))"
    by (rule down_loop_at) simp
  with False \<open>te_Down T ?n = Some err\<close> show ?thesis by (simp only: if_False Let_def option.sel)
qed

section \<open>Pairs of migrations\<close>

lemma HasSuffix_iff: "HasSuffix s suf \<longleftrightarrow> (\<exists>t. s = t @ suf)"
  by (auto simp: HasSuffix_def) (metis append_take_drop_id)

lemma TrimSuffix_append [simp]: "TrimSuffix (t @ suf) suf = t"
  by (simp add: TrimSuffix_def HasSuffix_def)

lemma set_up_names: "set (up_names ents) = {name. (name, False) \<in> set ents \<and> HasSuffix name ''.up.sql''}"
  by (auto simp: up_names_def image_iff)

lemma distinct_up_names: "distinct (map fst ents) \<Longrightarrow> distinct (up_names ents)"
  by (simp add: up_names_def distinct_map_filter)

text \<open>The names of a pair, and where the pair belongs.\<close>

lemma pair_names:
  assumes "slash \<notin> set t"
  shows "plain_name (t @ ''.up.sql'')" "plain_name (t @ ''.down.sql'')"
  using assms by (auto simp: plain_name_def append_eq_Cons_conv)

lemma up_not_down: "(t @ ''.up.sql'') \<noteq> u @ ''.down.sql''"
proof
  assume "t @ ''.up.sql'' = u @ ''.down.sql''"
  then have "rev (t @ ''.up.sql'') = rev (u @ ''.down.sql'')" by simp
  then show False by simp
qed

lemma copyFile_ok:
  assumes "copyFile T dst src fs = (Inr x, fs')"
  shows "\<exists>b. fs src = Some (FileNode b) \<and> fs' = fs(dst := Some (FileNode b))"
  using assms
  by (auto simp: copyFile_def os_ReadFile_def os_WriteFile_def split: sum.splits option.splits node.splits prod.splits if_splits)

text \<open>
  Stems of migrations are copied pair by pair; \<open>paired\<close> says that the target holds both files
  of a stem as the sources have them.
\<close>

definition paired :: "string \<Rightarrow> string \<Rightarrow> string \<Rightarrow> files \<Rightarrow> files \<Rightarrow> string \<Rightarrow> bool" where
  "paired upDir downDir dst fs fs' t \<longleftrightarrow>
     (\<exists>b c. fs (Join [upDir, t @ ''.up.sql'']) = Some (FileNode b) \<and> fs' (Join [dst, t @ ''.up.sql'']) = Some (FileNode b) \<and>
       fs (Join [downDir, t @ ''.down.sql'']) = Some (FileNode c) \<and> fs' (Join [dst, t @ ''.down.sql'']) = Some (FileNode c))"

definition pair_paths :: "string \<Rightarrow> string \<Rightarrow> string set" where
  "pair_paths dst t = {Join [dst, t @ ''.up.sql''], Join [dst, t @ ''.down.sql'']}"

lemma copy_pair:
  assumes "copy_pairs T upDir downDir dst ((t @ ''.up.sql'') # names) fs = (Inr (), fs')"
    and "Join [dst, t @ ''.up.sql''] \<noteq> Join [downDir, t @ ''.down.sql'']"
    and "Join [dst, t @ ''.up.sql''] \<noteq> Join [dst, t @ ''.down.sql'']"
  obtains fs1 where "paired upDir downDir dst fs fs1 t" "\<forall>p. p \<notin> pair_paths dst t \<longrightarrow> fs1 p = fs p"
    "copy_pairs T upDir downDir dst names fs1 = (Inr (), fs')"
proof -
  obtain x f1 where c1: "copyFile T (Join [dst, t @ ''.up.sql'']) (Join [upDir, t @ ''.up.sql'']) fs = (Inr x, f1)"
    using assms(1) by (auto simp: Let_def split: sum.splits prod.splits)
  obtain y f2 where c2: "copyFile T (Join [dst, t @ ''.down.sql'']) (Join [downDir, t @ ''.down.sql'']) f1 = (Inr y, f2)"
      "copy_pairs T upDir downDir dst names f2 = (Inr (), fs')"
    using assms(1) by (auto simp: Let_def c1 split: sum.splits prod.splits)
  obtain b where b: "fs (Join [upDir, t @ ''.up.sql'']) = Some (FileNode b)" "f1 = fs(Join [dst, t @ ''.up.sql''] := Some (FileNode b))"
    using copyFile_ok [OF c1] by blast
  obtain c where c: "f1 (Join [downDir, t @ ''.down.sql'']) = Some (FileNode c)" "f2 = f1(Join [dst, t @ ''.down.sql''] := Some (FileNode c))"
    using copyFile_ok [OF c2(1)] by blast
  show thesis
    by (rule that [OF _ _ c2(2)]) (use b c assms(2,3) in \<open>auto simp: paired_def pair_paths_def\<close>)
qed

lemma pair_paths_disjoint:
  assumes "dst \<noteq> []" "slash \<notin> set t" "slash \<notin> set u" "t \<noteq> u"
  shows "pair_paths dst t \<inter> pair_paths dst u = {}"
  using assms pair_names [OF assms(2)] pair_names [OF assms(3)] up_not_down [of t u] up_not_down [of u t]
  by (auto simp: pair_paths_def Join_name_eq)

text \<open>The three directories, of which the target is none of the sources.\<close>

definition separate :: "string \<Rightarrow> string \<Rightarrow> string \<Rightarrow> bool" where
  "separate upDir downDir dst \<longleftrightarrow>
     upDir \<noteq> [] \<and> downDir \<noteq> [] \<and> dst \<noteq> [] \<and> dir_prefix dst \<noteq> dir_prefix upDir \<and> dir_prefix dst \<noteq> dir_prefix downDir"

lemma sources_apart:
  assumes "separate upDir downDir dst" "slash \<notin> set t" "slash \<notin> set u"
  shows "Join [upDir, u @ ''.up.sql''] \<notin> pair_paths dst t" "Join [downDir, u @ ''.down.sql''] \<notin> pair_paths dst t"
  using assms Join_other_dir [OF _ _ pair_names(1) pair_names(1), of dst upDir t u]
    Join_other_dir [OF _ _ pair_names(2) pair_names(1), of dst upDir t u]
    Join_other_dir [OF _ _ pair_names(1) pair_names(2), of dst downDir t u]
    Join_other_dir [OF _ _ pair_names(2) pair_names(2), of dst downDir t u]
  by (auto simp: separate_def pair_paths_def eq_commute)

lemma copy_pairs_ok:
  assumes "copy_pairs T upDir downDir dst (map (\<lambda>t. t @ ''.up.sql'') ts) fs = (Inr (), fs')"
    and "distinct ts" and "\<forall>t \<in> set ts. slash \<notin> set t" and "separate upDir downDir dst"
  shows "(\<forall>t \<in> set ts. paired upDir downDir dst fs fs' t) \<and> (\<forall>p. p \<notin> \<Union> (pair_paths dst ` set ts) \<longrightarrow> fs' p = fs p)"
  using assms(1-3)
proof (induction ts arbitrary: fs)
  case (Cons t ts)
  have dst: "dst \<noteq> []" using assms(4) by (simp add: separate_def)
  have slash: "slash \<notin> set t" "\<forall>u \<in> set ts. slash \<notin> set u" using Cons.prems(3) by simp_all
  have "Join [dst, t @ ''.up.sql''] \<noteq> Join [downDir, t @ ''.down.sql'']"
    using sources_apart(2) [OF assms(4) slash(1) slash(1)] by (auto simp: pair_paths_def)
  moreover have "Join [dst, t @ ''.up.sql''] \<noteq> Join [dst, t @ ''.down.sql'']"
    using Join_name_eq [OF dst pair_names(1) [OF slash(1)] pair_names(2) [OF slash(1)]] up_not_down [of t t] by simp
  ultimately obtain fs1 where fs1: "paired upDir downDir dst fs fs1 t" "\<forall>p. p \<notin> pair_paths dst t \<longrightarrow> fs1 p = fs p"
      "copy_pairs T upDir downDir dst (map (\<lambda>t. t @ ''.up.sql'') ts) fs1 = (Inr (), fs')"
    using copy_pair [of T upDir downDir dst t "map (\<lambda>t. t @ ''.up.sql'') ts" fs fs'] Cons.prems(1) by auto
  have ih: "\<forall>u \<in> set ts. paired upDir downDir dst fs1 fs' u" "\<forall>p. p \<notin> \<Union> (pair_paths dst ` set ts) \<longrightarrow> fs' p = fs1 p"
    using Cons.IH [OF fs1(3)] Cons.prems(2) slash(2) by auto
  have "paired upDir downDir dst fs fs' u" if u: "u \<in> set ts" for u
  proof -
    have "paired upDir downDir dst fs1 fs' u" using ih(1) u by blast
    moreover have "fs1 (Join [upDir, u @ ''.up.sql'']) = fs (Join [upDir, u @ ''.up.sql''])"
      "fs1 (Join [downDir, u @ ''.down.sql'']) = fs (Join [downDir, u @ ''.down.sql''])"
      using sources_apart [OF assms(4) slash(1), of u] slash(2) u fs1(2) by blast+
    ultimately show ?thesis by (simp add: paired_def)
  qed
  moreover have "pair_paths dst t \<inter> \<Union> (pair_paths dst ` set ts) = {}"
    using pair_paths_disjoint [OF dst slash(1)] slash(2) Cons.prems(2) by fastforce
  then have "paired upDir downDir dst fs fs' t"
    using fs1(1) ih(2) by (simp add: paired_def pair_paths_def)
  ultimately show ?case using ih(2) fs1(2) by auto
qed simp

lemma up_names_stems:
  obtains ts where "up_names ents = map (\<lambda>t. t @ ''.up.sql'') ts"
proof
  show "up_names ents = map (\<lambda>t. t @ ''.up.sql'') (map (\<lambda>n. TrimSuffix n ''.up.sql'') (up_names ents))"
    by (rule nth_equalityI) (use set_up_names [of ents] in \<open>auto simp: HasSuffix_iff dest!: nth_mem\<close>)
qed

text \<open>
  C35: when the directory for migrating down is built, it holds every up migration of the module
  together with its down migration, both as the sources have them, and nothing else was
  written; there is at least one pair.
\<close>

theorem combined_migrations:
  assumes "combinedMigrationsDir T s = (Inr dst, s')" and "moduleRoot T (ts_files s) = Inr r"
    and "te_ReadDir T (Join [r, ''migrations'', ''up'']) = Inr ents"
    and "distinct (map fst ents)" and "\<forall>(n, d) \<in> set ents. slash \<notin> set n"
    and "separate (Join [r, ''migrations'', ''up'']) (Join [r, ''migrations'', ''down'']) dst"
  shows "(\<exists>t. (t @ ''.up.sql'', False) \<in> set ents) \<and>
    (\<forall>t. (t @ ''.up.sql'', False) \<in> set ents \<longrightarrow>
       paired (Join [r, ''migrations'', ''up'']) (Join [r, ''migrations'', ''down'']) dst (ts_files s) (ts_files s') t) \<and>
    (\<forall>p. (\<forall>t. (t @ ''.up.sql'', False) \<in> set ents \<longrightarrow> p \<notin> pair_paths dst t) \<longrightarrow> ts_files s' p = ts_files s p)"
proof -
  obtain ts where ts: "up_names ents = map (\<lambda>t. t @ ''.up.sql'') ts" by (rule up_names_stems)
  have mem: "t \<in> set ts \<longleftrightarrow> (t @ ''.up.sql'', False) \<in> set ents" for t
    using set_up_names [of ents] by (auto simp: ts HasSuffix_iff image_iff set_eq_iff)
  have "distinct ts" using distinct_up_names [OF assms(4)] by (simp add: ts distinct_map)
  moreover have "\<forall>t \<in> set ts. slash \<notin> set t" using assms(5) by (fastforce simp: mem)
  moreover have "up_names ents \<noteq> []"
    "copy_pairs T (Join [r, ''migrations'', ''up'']) (Join [r, ''migrations'', ''down'']) dst (up_names ents) (ts_files s) = (Inr (), ts_files s')"
    using assms(1) by (auto simp: combinedMigrationsDir_def assms(2,3) Let_def split: if_splits sum.splits prod.splits)
  ultimately have copied: "ts \<noteq> []"
    "\<forall>t \<in> set ts. paired (Join [r, ''migrations'', ''up'']) (Join [r, ''migrations'', ''down'']) dst (ts_files s) (ts_files s') t"
    "\<forall>p. p \<notin> \<Union> (pair_paths dst ` set ts) \<longrightarrow> ts_files s' p = ts_files s p"
    using copy_pairs_ok [OF _ _ _ assms(6), of T ts "ts_files s" "ts_files s'"] by (auto simp: ts)
  have "\<exists>t. t \<in> set ts" using copied(1) by (meson hd_in_set)
  with copied(2,3) show ?thesis by (auto simp: mem)
qed

section \<open>What a test leaves behind\<close>

text \<open>
  A run of a test calls the helpers in any order, for as long as they return. \<open>test_step\<close> is one
  call, \<open>test_run\<close> a sequence of them; a test whose last call does not return ends there, too.
\<close>

inductive test_step :: "test_env \<Rightarrow> test_state \<Rightarrow> test_state \<Rightarrow> bool" for T where
  pool: "test_step T s (snd (MustPool T s))"
| redis: "test_step T s (snd (MustRedis T s))"
| up: "test_step T s (snd (MustMigrateUp T p s))"
| down: "MustMigrateDownAll T p s = Some (r, s') \<Longrightarrow> test_step T s s'"

inductive test_run :: "test_env \<Rightarrow> test_state \<Rightarrow> test_state \<Rightarrow> bool" for T where
  stay: "test_run T s s"
| call: "test_run T s s' \<Longrightarrow> test_step T s' s'' \<Longrightarrow> test_run T s s''"

definition fresh_test :: "(string \<Rightarrow> string option) \<Rightarrow> files \<Rightarrow> test_state" where
  "fresh_test environ fs = \<lparr>ts_once = False, ts_environ = environ, ts_files = fs, ts_temps = 0, ts_open = [],
     ts_cleanups = [], ts_next = 0\<rparr>"

text \<open>\<open>godotenv.Load\<close> does not override variables that are set.\<close>

definition load_keeps :: "test_env \<Rightarrow> bool" where
  "load_keeps T \<longleftrightarrow> (\<forall>path e k v. e k = Some v \<longrightarrow> te_Load T path e k = Some v)"

text \<open>
  From the first state \<open>s0\<close> of a test: the variables are those of the process, or those after the one
  call of \<open>Load\<close>, and every connection that is open is registered to be closed.
\<close>

definition test_inv :: "test_env \<Rightarrow> test_state \<Rightarrow> test_state \<Rightarrow> bool" where
  "test_inv T s0 s \<longleftrightarrow>
     (ts_once s \<or> ts_environ s = ts_environ s0) \<and>
     (ts_environ s = ts_environ s0 \<or> (\<exists>path. ts_environ s = te_Load T path (ts_environ s0))) \<and>
     set (ts_open s) \<subseteq> set (ts_cleanups s)"

lemma test_inv_fields [simp]:
  "test_inv T s0 (s\<lparr>ts_temps := n, ts_files := fs\<rparr>) = test_inv T s0 s"
  by (simp add: test_inv_def)

lemma load_inv: "test_inv T s0 s \<Longrightarrow> test_inv T s0 (loadTestEnvFromDotenv T s)"
  by (auto simp: loadTestEnvFromDotenv_def test_inv_def split: sum.splits)

lemma open_inv: "test_inv T s0 s \<Longrightarrow> open_conn s = (c, s1) \<Longrightarrow> test_inv T s0 (Cleanup c s1)"
  by (auto simp: open_conn_def Cleanup_def test_inv_def)

lemma close_inv: "test_inv T s0 s \<Longrightarrow> test_inv T s0 (close_conn c s)"
  by (auto simp: close_conn_def test_inv_def)

lemma combined_inv: "test_inv T s0 s \<Longrightarrow> combinedMigrationsDir T s = (r, s') \<Longrightarrow> test_inv T s0 s'"
  by (auto simp: combinedMigrationsDir_def Let_def split: sum.splits if_splits prod.splits)

lemma conn_inv:
  assumes "test_inv T s0 s"
  obtains c s2 where "open_conn (loadTestEnvFromDotenv T s) = (c, s2)" "test_inv T s0 (Cleanup c s2)"
    "test_inv T s0 (close_conn c (Cleanup c s2))"
  using open_inv [OF load_inv [OF assms]] close_inv by (metis prod.exhaust)

lemma pool_inv:
  assumes "test_inv T s0 s"
  shows "test_inv T s0 (snd (MustPool T s))"
proof -
  obtain c s2 where "open_conn (loadTestEnvFromDotenv T s) = (c, s2)" "test_inv T s0 (Cleanup c s2)"
    "test_inv T s0 (close_conn c (Cleanup c s2))" by (rule conn_inv [OF assms])
  with assms load_inv [OF assms] show ?thesis by (simp add: MustPool_def Let_def split: option.splits)
qed

lemma redis_inv:
  assumes "test_inv T s0 s"
  shows "test_inv T s0 (snd (MustRedis T s))"
proof -
  obtain c s2 where "open_conn (loadTestEnvFromDotenv T s) = (c, s2)" "test_inv T s0 (Cleanup c s2)"
    by (rule conn_inv [OF assms])
  with assms load_inv [OF assms] show ?thesis by (simp add: MustRedis_def Let_def split: option.splits)
qed

lemma up_inv: "test_inv T s0 s \<Longrightarrow> test_inv T s0 (snd (MustMigrateUp T p s))"
  using load_inv [of T s0 s] by (auto simp: MustMigrateUp_def Let_def split: sum.splits)

lemma down_inv:
  assumes "test_inv T s0 s" and "MustMigrateDownAll T p s = Some (r, s')"
  shows "test_inv T s0 s'"
proof -
  let ?s1 = "loadTestEnvFromDotenv T s"
  obtain d s2 where c: "combinedMigrationsDir T ?s1 = (d, s2)" by fastforce
  have "s' = s \<or> s' = ?s1 \<or> s' = s2"
    using assms(2) by (simp add: MustMigrateDownAll_def Let_def c split: if_splits sum.splits option.splits)
  then show ?thesis using assms(1) load_inv [OF assms(1)] combined_inv [OF load_inv [OF assms(1)] c] by auto
qed

lemmas step_invs = pool_inv redis_inv up_inv down_inv

lemma run_inv: "test_run T s0 s \<Longrightarrow> test_inv T s0 s0 \<Longrightarrow> test_inv T s0 s"
  by (induction rule: test_run.induct) (auto elim!: test_step.cases intro: step_invs)

lemma fold_close_conn: "ts_open (fold close_conn cs s) = filter (\<lambda>x. x \<notin> set cs) (ts_open s)"
  by (induction cs arbitrary: s) (auto simp: close_conn_def intro: filter_cong)

text \<open>
  Whatever helpers a test has called, and whether or not the last one ended it, the functions
  registered with \<open>t.Cleanup\<close> leave no connection open; the file \<open>.env\<close> was loaded at most
  once, and no variable that the shell had set was changed.
\<close>

theorem test_cleans_up:
  assumes "load_keeps T" and "test_run T (fresh_test environ fs) s"
  shows "ts_open (run_cleanups s) = [] \<and>
    (ts_environ s = environ \<or> (\<exists>path. ts_environ s = te_Load T path environ)) \<and>
    (\<forall>k v. environ k = Some v \<longrightarrow> ts_environ s k = Some v)"
proof -
  have "test_inv T (fresh_test environ fs) (fresh_test environ fs)" by (simp add: test_inv_def fresh_test_def)
  from run_inv [OF assms(2) this] have inv: "set (ts_open s) \<subseteq> set (ts_cleanups s)"
      "ts_environ s = environ \<or> (\<exists>path. ts_environ s = te_Load T path environ)"
    by (simp_all add: test_inv_def fresh_test_def)
  have "ts_open (run_cleanups s) = []" using inv(1) by (auto simp: run_cleanups_def fold_close_conn filter_empty_conv)
  with inv(2) assms(1) show ?thesis by (auto simp: load_keeps_def)
qed

section \<open>Migrating up as the server does\<close>

lemma runMigrations_open:
  "runMigrations B u url =
     (case open_migrate B u url of
        Some err \<Rightarrow> Inl err
      | None \<Rightarrow> (case mg_Up B url of
          None \<Rightarrow> Inr () | Some err \<Rightarrow> if \<not> mg_NoChange B err then Inl (wrap_pre ''migrate up'' err) else Inr ()))"
  by (simp add: runMigrations_def open_migrate_def split: option.splits)

lemma open_migrate_cong:
  assumes "mg_Open B' = mg_Open B" "mg_Ping B' = mg_Ping B" "mg_WithInstance B' = mg_WithInstance B" "mg_New B' = mg_New B"
  shows "open_migrate B' = open_migrate B"
  by (simp add: open_migrate_def assms fun_eq_iff split: option.split)

lemma load_files [simp]: "ts_files (loadTestEnvFromDotenv T s) = ts_files s"
  by (simp add: loadTestEnvFromDotenv_def split: sum.splits)

lemma IsAbs_Join: "IsAbs d \<Longrightarrow> IsAbs (Join (d # es))"
  by (cases d; cases es) (auto simp: Join_def IsAbs_Clean, simp_all add: IsAbs_def)

text \<open>
  The tests migrate the same way as the server. With the server started in the module's
  directory, on the test database and with the variables and libraries of the test,
  \<open>MustMigrateUp\<close> runs the very migrations that \<open>main\<close> would run, and fails exactly when \<open>main\<close>
  would; \<open>MIGRATIONS_PATH\<close>, if it is set, must not be relative.
\<close>

theorem migrates_like_server:
  assumes "loadTestEnvFromDotenv T s = s1" and "test_Getenv s1 testDatabaseURLEnv = u" and "u \<noteq> []"
    and "moduleRoot T (ts_files s) = Inr d" and "IsAbs d"
    and "test_Getenv s1 ''MIGRATIONS_PATH'' = [] \<or> IsAbs (test_Getenv s1 ''MIGRATIONS_PATH'')"
    and "B = (te_boot T)\<lparr>os_Getenv := (test_Getenv s1)(''DATABASE_URL'' := u), os_Getwd := Inr d,
      os_IsDir := (\<lambda>p. os_Stat T (ts_files s) p = Inr DirNode)\<rparr>"
  shows "\<exists>dir url. migrations_dir B = Inr dir \<and> migrationsFileURL B dir = Inr url \<and>
    MustMigrateUp T (Some c) s =
      ((case runMigrations B u url of
          Inl err \<Rightarrow> Inl (Fatal (''migrate up: '' @ Error_text err)) | Inr _ \<Rightarrow> Inr ()), s1)"
proof -
  have files: "ts_files s1 = ts_files s" using load_files [of T s] assms(1) by simp
  obtain dir where dir: "migrations_dir B = Inr dir" "migrationsDir T s1 = Inr dir" "IsAbs dir"
  proof (cases "test_Getenv s1 ''MIGRATIONS_PATH'' = []")
    case True
    then show thesis
      by (intro that [of "if os_Stat T (ts_files s) (Join [d, ''migrations'', ''up'']) = Inr DirNode
            then Join [d, ''migrations'', ''up''] else Join [d, ''migrations'']"])
        (auto simp: migrations_dir_def migrationsDir_def assms(4,7) files Let_def IsAbs_Join [OF assms(5)]
          split: sum.splits node.splits)
  next
    case False
    with assms(6) show thesis
      by (intro that [of "test_Getenv s1 ''MIGRATIONS_PATH''"]) (simp_all add: migrations_dir_def migrationsDir_def assms(7))
  qed
  have url: "migrationsFileURL B dir = Inr (''file://'' @ Clean dir)" "test_migrationsFileURL T dir = Inr (''file://'' @ Clean dir)"
    using dir(3) by (simp_all add: migrationsFileURL_def test_migrationsFileURL_def filepath_Abs_def)
  have run: "test_runMigrations T u v = runMigrations B u v" for v
    using open_migrate_cong [of B "te_boot T"]
    by (simp add: runMigrations_open test_runMigrations_def assms(7) split: option.split)
  have "MustMigrateUp T (Some c) s =
      ((case runMigrations B u (''file://'' @ Clean dir) of
          Inl err \<Rightarrow> Inl (Fatal (''migrate up: '' @ Error_text err)) | Inr _ \<Rightarrow> Inr ()), s1)"
    using assms(3) by (simp add: MustMigrateUp_def assms(1,2) dir(2) url(2) run Let_def split: sum.splits)
  with dir(1) url(1) show ?thesis by blast
qed

text \<open>
  A relative \<open>MIGRATIONS_PATH\<close>, which the server takes from the directory it is started in, is
  taken from the working directory of the test: the directory of the package.
\<close>

lemma relative_migrations_path:
  assumes "test_Getenv s ''MIGRATIONS_PATH'' = p" and "p \<noteq> []" "\<not> IsAbs p" and "os_Getwd (te_boot T) = Inr wd"
  shows "migrationsDir T s = Inr p \<and> test_migrationsFileURL T p = Inr (''file://'' @ Join [wd, p])"
  using assms by (simp add: migrationsDir_def test_migrationsFileURL_def filepath_Abs_def)

lemma relative_path_misses:
  "Join [''/m/internal/repository'', ''migrations/up''] = ''/m/internal/repository/migrations/up''"
  by (simp add: Join_def Clean_def IsAbs_def elements_def clean_step_def)

section \<open>Clean stores\<close>

lemma del_keys_effect:
  assumes "undisturbed I" and "del_keys E I ks st = (r, st')"
  shows "r = Inr () \<and> st_rows st' = st_rows st \<and> st_redis st' = (\<lambda>k. if k \<in> set ks then None else st_redis st k) \<and>
    st_clock st \<le> st_clock st'"
  using assms(2)
proof (induction ks arbitrary: st)
  case (Cons k ks)
  let ?v = "(istep I st)\<lparr>st_redis := (st_redis (istep I st))(k := None)\<rparr>"
  have "del_keys E I ks ?v = (r, st')" using Cons.prems by (simp add: undisturbed_call [OF assms(1)] redis_Del_def)
  moreover have "st_clock st \<le> st_clock (istep I st)" using same_data_step [OF assms(1), of st] by (simp add: same_data_def)
  ultimately show ?case
    using Cons.IH [of ?v] undisturbed_call(3,4) [OF assms(1), of st] by (auto simp: fun_eq_iff)
qed simp

text \<open>
  What \<open>SCAN\<close> promises: a full iteration yields every key that is there all the time; and the
  pattern \<open>idem:*\<close> is a prefix.
\<close>

definition scan_ok :: "test_env \<Rightarrow> stores \<Rightarrow> bool" where
  "scan_ok T st \<longleftrightarrow> (\<forall>ks. te_Scan T st = (ks, None) \<longrightarrow>
     (\<forall>k. HasPrefix k ''idem:'' \<and> st_redis st k \<noteq> None \<longrightarrow> k \<in> set ks) \<and> (\<forall>k \<in> set ks. HasPrefix k ''idem:''))"

lemma flush_effect:
  assumes "undisturbed I" and "scan_ok T st" and "FlushRedisIdempotency T E I (Some c) st = (Inr (), st')"
  shows "st_rows st' = st_rows st \<and> st_redis st' = (\<lambda>k. if HasPrefix k ''idem:'' then None else st_redis st k) \<and>
    st_clock st \<le> st_clock st'"
proof -
  obtain ks where ks: "te_Scan T st = (ks, None)" "del_keys E I ks st = (Inr (), st')"
    using assms(3) by (auto simp: FlushRedisIdempotency_def split: prod.splits sum.splits option.splits)
  have "(if k \<in> set ks then None else st_redis st k) = (if HasPrefix k ''idem:'' then None else st_redis st k)" for k
    using assms(2) ks(1) unfolding scan_ok_def by (cases "st_redis st k") auto
  with del_keys_effect [OF assms(1) ks(2)] show ?thesis by simp
qed

lemma idem_keys: "HasPrefix (redisResponseKey k) ''idem:''" "HasPrefix (redisLockKey k) ''idem:''"
  by (simp_all add: HasPrefix_def redisResponseKey_def redisLockKey_def)

lemma truncate_effect:
  assumes "undisturbed I" and "Truncate E I (w, st) = (Inr (), w', st')"
  shows "payments w' = [] \<and> refunds w' = [] \<and> outbox w' = [] \<and> st_rows st' = [] \<and> st_redis st' = st_redis st \<and>
    st_clock st \<le> st_clock st'"
  using assms(2) undisturbed_call(3,4) [OF assms(1), of st] same_data_step [OF assms(1), of st]
  by (auto simp: Truncate_def truncate_stmt_def same_data_def Let_def split: option.splits)

text \<open>
  C34: a test that begins with \<open>Truncate\<close> and \<open>FlushRedisIdempotency\<close> finds the stores clean: the
  ledger is empty and sound, and the requests that follow are answered as by a cache that has seen
  no request before, whatever earlier tests had left; keys of others stay in Redis.
\<close>

theorem test_isolation:
  assumes "undisturbed I" "digest_ok I" and "id_redis m \<or> id_db m" "0 < id_responseTTL m" and "well_behaved E next"
    and "\<forall>r \<in> set rs. utf8 E (rq_Path r) = rq_Path r \<and> utf8 E (rq_Method r) = rq_Method r"
    and "Truncate E I (w, st) = (Inr (), w1, st1)"
    and "FlushRedisIdempotency T E I (Some c) st1 = (Inr (), st2)" and "scan_ok T st1"
    and "0 \<le> st_clock st" "st_clock st' + 1000 \<le> st_clock st2 + id_responseTTL m" "st_clock st' + id_responseTTL m < 2 ^ 63"
    and "serve (Middleware E I (Some m) (Some next)) rs (s, st2) = (outs, s', st')"
  shows "payments w1 = [] \<and> ledger_inv w1 \<and>
    (\<exists>A. serve (serve_once E I next) rs (s, Map.empty) = (outs, s', A)) \<and>
    (\<forall>k. \<not> HasPrefix k ''idem:'' \<longrightarrow> st_redis st2 k = st_redis st k)"
proof -
  let ?L = "st_clock st2 + id_responseTTL m"
  note t = truncate_effect [OF assms(1,7)] and f = flush_effect [OF assms(1,9,8)]
  have "cached_as E m ?L st2 Map.empty" "unlocked m st2"
    using t f idem_keys by (simp_all add: cached_as_def stored_def key_rows_def unlocked_def)
  moreover have "Idempotency_Spec.within m ?L st2 st'" using assms(10-12) t f by (simp add: within_def)
  ultimately have "\<exists>A. serve (serve_once E I next) rs (s, Map.empty) = (outs, s', A)"
    using serve_refines [OF assms(1-6) _ _ _ assms(13)] by blast
  moreover have "ledger_inv w1" using t by (simp add: ledger_inv_def)
  ultimately show ?thesis using t f by simp
qed

section \<open>The payment of the tests\<close>

text \<open>The repository takes the payment on a database that has neither its identifier nor its key.\<close>

lemma fixture_stored:
  assumes "NewPayment E mid key w = (Inr p, w1)" and "ids_ok E" "no_faults E" "repo_ready r" and "mid \<noteq> uuid_Nil"
    and "TrimSpace key \<noteq> []" "length (TrimSpace key) \<le> 255"
    and "p_ID p \<notin> pr_id ` set (payments w)" "TrimSpace key \<notin> pr_idempotency_key ` set (payments w)"
  shows "\<exists>q w' row. repo_CreatePayment E r (Some p) w1 = (Inr q, w') \<and> payments w' = payments w @ [row] \<and>
    pr_id row = p_ID p \<and> pr_status row = StatusInitiated"
proof -
  obtain i where i: "uuid7_at E (tick w) = Inr i"
    using assms(1) by (auto simp: NewPayment_def NewID_def split: sum.splits)
  have p: "p_ID p = i" "p_MerchantID p = mid" "p_Amount p = 100" "p_Currency p = ''USD''" "p_Status p = StatusInitiated"
    "p_IdempotencyKey p = key" "payments w1 = payments w"
    using assms(1) i by (auto simp: NewPayment_def NewID_def Now_def)
  have "i \<noteq> uuid_Nil" using assms(2) i by (auto simp: ids_ok_def)
  moreover have "TrimSpace (ToUpper (e_upper E) ''USD'') = ''USD''" "ValidCurrency ''USD''"
    by (simp_all add: ToUpper_def ascii_upper_def TrimSpace_fixed asciiSpace_def ValidCurrency_def allowedCurrencies_def)
  ultimately have v: "validatePaymentForCreate E (Some p) = Inr (p\<lparr>p_IdempotencyKey := TrimSpace key, p_Currency := ''USD''\<rparr>)"
    using assms(5-7) p by (simp add: validatePaymentForCreate_def IsInt64_def IsKnownStatus_def StatusInitiated_def Let_def)
  obtain q' w' row where "repo_CreatePayment E r (Some p) w1 = (Inr q', w')" "payments w' = payments w1 @ [row]"
      "pr_id row = p_ID p" "pr_status row = p_Status p"
    by (rule create_ok [where w = w1, OF assms(3,4) v]) (use assms(8,9) p in auto)
  with p show ?thesis by auto
qed

section \<open>Concrete tests\<close>

definition sample_test :: test_env where
  "sample_test = \<lparr>te_boot = sample_boot, te_Short = False, te_Caller = Some ''/m/t/db.go'', te_Load = (\<lambda>_ e. e),
     te_stat = (\<lambda>_. None), te_read = (\<lambda>_. None), te_write = (\<lambda>_. None),
     te_ReadDir = (\<lambda>_. Inr [(''1.up.sql'', False), (''notes'', False)]), te_TempDir = (\<lambda>_. Inr ''/tmp/1''),
     te_Down = (\<lambda>n. if n = 0 then None else Some (OtherError ''no change'')), te_Scan = (\<lambda>_. ([''idem:resp:k1''], None))\<rparr>"

definition sample_files :: files where
  "sample_files = map_of [(''/m/go.mod'', FileNode ''module m''), (''/m/migrations/up'', DirNode),
     (''/m/migrations/up/1.up.sql'', FileNode ''create''), (''/m/migrations/down/1.down.sql'', FileNode ''drop'')]"

lemma sample_test_fields:
  "te_Caller sample_test = Some ''/m/t/db.go''" "te_stat sample_test p = None" "te_read sample_test p = None" "te_write sample_test p = None"
  "te_ReadDir sample_test p = Inr [(''1.up.sql'', False), (''notes'', False)]" "te_TempDir sample_test n = Inr ''/tmp/1''"
  "te_Load sample_test p e = e" "te_boot sample_test = sample_boot" "te_Scan sample_test st = ([''idem:resp:k1''], None)"
  by (simp_all add: sample_test_def)

lemma sample_files_at:
  "sample_files ''/m/go.mod'' = Some (FileNode ''module m'')" "sample_files ''/m/t/go.mod'' = None"
  "sample_files ''/m/migrations/up'' = Some DirNode" "sample_files ''/m/migrations/up/1.up.sql'' = Some (FileNode ''create'')"
  "sample_files ''/m/migrations/down/1.down.sql'' = Some (FileNode ''drop'')"
  "sample_files ''/tmp/1/1.up.sql'' = None" "sample_files ''/tmp/1/1.down.sql'' = None"
  by (simp_all add: sample_files_def)

lemmas path_eval = Join_def Clean_def Dir_def IsAbs_def elements_def clean_step_def

lemma sample_paths:
  "Dir ''/m/t/db.go'' = ''/m/t''" "Dir ''/m/t'' = ''/m''" "Join [''/m/t'', ''go.mod''] = ''/m/t/go.mod''"
  "Join [''/m'', ''go.mod''] = ''/m/go.mod''" "Join [''/m'', ''migrations'', ''up''] = ''/m/migrations/up''"
  "Join [''/m'', ''migrations'', ''down''] = ''/m/migrations/down''"
  "Join [''/m/migrations/up'', ''1.up.sql''] = ''/m/migrations/up/1.up.sql''"
  "Join [''/m/migrations/down'', ''1.down.sql''] = ''/m/migrations/down/1.down.sql''"
  "Join [''/tmp/1'', ''1.up.sql''] = ''/tmp/1/1.up.sql''" "Join [''/tmp/1'', ''1.down.sql''] = ''/tmp/1/1.down.sql''"
  by (simp_all add: path_eval)

lemma sample_go_mod: "has_go_mod sample_test sample_files ''/m''" "\<not> has_go_mod sample_test sample_files ''/m/t''"
  by (simp_all add: has_go_mod_def sample_paths os_Stat_def sample_test_fields sample_files_at)

theorem module_root_nearest_witness: "moduleRoot sample_test sample_files = Inr ''/m''"
proof -
  let ?P = "\<lambda>n. has_go_mod sample_test sample_files ((Dir ^^ n) (Dir ''/m/t/db.go''))"
  note m = module_root_nearest [OF sample_test_fields(1), of sample_files]
  have P: "?P 1" "\<not> ?P 0" by (simp_all add: sample_paths sample_go_mod)
  have "(LEAST n. ?P n) = 1" by (rule Least_equality) (use P in \<open>auto simp: Suc_le_eq intro: Suc_leI gr0I\<close>)
  moreover have "\<exists>n. ?P n" using P(1) by blast
  ultimately show ?thesis unfolding m by (simp only: if_True) (simp add: sample_paths)
qed

lemma sample_root: "moduleRoot sample_test sample_files = Inr ''/m''"
  by (simp add: moduleRoot_def sample_test_fields find_root.simps [of _ _ "''/m/t''"] find_root.simps [of _ _ "''/m''"]
      sample_go_mod sample_paths Let_def)

lemma sample_up: "up_names [(''1.up.sql'', False), (''notes'', False)] = [''1.up.sql'']"
  by (simp add: up_names_def HasSuffix_def)

lemma sample_names: "distinct (map fst [(''1.up.sql'', False), (''notes'', False)])"
  "\<forall>(n, d) \<in> set [(''1.up.sql'', False), (''notes'', False)]. slash \<notin> set n"
  by simp_all

lemma sample_stem: "TrimSuffix ''1.up.sql'' ''.up.sql'' = ''1''"
  by (simp add: TrimSuffix_def HasSuffix_def)

text \<open>The pair of files is copied to the temporary directory.\<close>

theorem combined_migrations_witness:
  "\<exists>s'. combinedMigrationsDir sample_test (fresh_test Map.empty sample_files) = (Inr ''/tmp/1'', s') \<and>
     paired ''/m/migrations/up'' ''/m/migrations/down'' ''/tmp/1'' sample_files (ts_files s') ''1''"
proof -
  let ?s = "fresh_test Map.empty sample_files"
  have f: "ts_files ?s = sample_files" by (simp add: fresh_test_def)
  obtain s' where c: "combinedMigrationsDir sample_test ?s = (Inr ''/tmp/1'', s')"
    by (simp add: combinedMigrationsDir_def f sample_root sample_paths sample_test_fields sample_up sample_stem os_Stat_def
        copyFile_def os_ReadFile_def os_WriteFile_def sample_files_at Let_def)
  have "separate (Join [''/m'', ''migrations'', ''up'']) (Join [''/m'', ''migrations'', ''down'']) ''/tmp/1''"
    by (simp add: separate_def dir_prefix_def sample_paths path_eval)
  note m = combined_migrations [OF c _ sample_test_fields(5) _ _ this]
  have "(''1.up.sql'', False) = (''1'' @ ''.up.sql'', False)" by simp
  then have "paired (Join [''/m'', ''migrations'', ''up'']) (Join [''/m'', ''migrations'', ''down'']) ''/tmp/1'' (ts_files ?s) (ts_files s') ''1''"
    using m by (metis f sample_root sample_names list.set_intros(1))
  then have "paired ''/m/migrations/up'' ''/m/migrations/down'' ''/tmp/1'' sample_files (ts_files s') ''1''"
    unfolding f sample_paths .
  with c show ?thesis by blast
qed

text \<open>A test that connects to the database and to Redis.\<close>

theorem test_cleans_up_witness:
  "ts_open (run_cleanups (snd (MustRedis sample_test (snd (MustPool sample_test (fresh_test [''TEST_DATABASE_URL'' \<mapsto> ''db''] sample_files)))))) = []"
proof -
  have "load_keeps sample_test" by (simp add: load_keeps_def sample_test_fields)
  moreover have "test_run sample_test (fresh_test [''TEST_DATABASE_URL'' \<mapsto> ''db''] sample_files)
    (snd (MustRedis sample_test (snd (MustPool sample_test (fresh_test [''TEST_DATABASE_URL'' \<mapsto> ''db''] sample_files)))))"
    by (rule test_run.call [OF test_run.call [OF test_run.stay test_step.pool] test_step.redis])
  ultimately show ?thesis by (rule test_cleans_up [THEN conjunct1])
qed

text \<open>The migrations of the sample module are those that the server would run.\<close>

theorem migrates_like_server_witness:
  "fst (MustMigrateUp sample_test (Some 0) (fresh_test [''TEST_DATABASE_URL'' \<mapsto> ''db''] sample_files)) = Inr ()"
proof -
  let ?s = "fresh_test [''TEST_DATABASE_URL'' \<mapsto> ''db''] sample_files"
  let ?s1 = "loadTestEnvFromDotenv sample_test ?s"
  have env: "ts_environ ?s1 = [''TEST_DATABASE_URL'' \<mapsto> ''db'']"
    by (simp add: loadTestEnvFromDotenv_def fresh_test_def sample_test_fields split: sum.splits)
  have u: "test_Getenv ?s1 testDatabaseURLEnv = ''db''" by (simp add: test_Getenv_def env testDatabaseURLEnv_def)
  have r: "moduleRoot sample_test (ts_files ?s) = Inr ''/m''" by (simp add: fresh_test_def sample_root)
  have p: "test_Getenv ?s1 ''MIGRATIONS_PATH'' = [] \<or> IsAbs (test_Getenv ?s1 ''MIGRATIONS_PATH'')"
    by (simp add: test_Getenv_def env)
  obtain B dir url where m: "B = sample_boot\<lparr>os_Getenv := (test_Getenv ?s1)(''DATABASE_URL'' := ''db''), os_Getwd := Inr ''/m'',
      os_IsDir := (\<lambda>p. os_Stat sample_test (ts_files ?s) p = Inr DirNode)\<rparr>"
    "MustMigrateUp sample_test (Some 0) ?s =
      ((case runMigrations B ''db'' url of
          Inl err \<Rightarrow> Inl (Fatal (''migrate up: '' @ Error_text err)) | Inr _ \<Rightarrow> Inr ()), ?s1)"
    using migrates_like_server [OF refl u _ r _ p refl, of 0] by (auto simp: sample_test_fields IsAbs_def)
  have "runMigrations B ''db'' url = Inr ()" by (simp add: m(1) runMigrations_def sample_boot_def)
  with m(2) show ?thesis by simp
qed

text \<open>A response that an earlier test left in Redis is not replayed.\<close>

definition dirty_stores :: stores where
  "dirty_stores = fresh_stores\<lparr>st_redis := [''idem:resp:k1'' \<mapsto> (RText ''stale'', 24 * Hour)]\<rparr>"

theorem test_isolation_witness:
  "\<exists>st2 ops st'. FlushRedisIdempotency sample_test steady quiet (Some 0) (snd (snd (Truncate steady quiet (empty_world, dirty_stores)))) = (Inr (), st2) \<and>
     Middleware steady quiet (Some sample_idempotency) (Some counting) (keyed_post ''x'') (0, st2) = (ops, 1, st')"
proof -
  obtain w1 st1 where t: "Truncate steady quiet (empty_world, dirty_stores) = (Inr (), w1, st1)"
    by (simp add: Truncate_def truncate_stmt_def steady_def empty_world_def Let_def)
  obtain st2 where fl: "FlushRedisIdempotency sample_test steady quiet (Some 0) st1 = (Inr (), st2)"
    by (simp add: FlushRedisIdempotency_def sample_test_fields undisturbed_call [OF quiet_ok(1)] redis_Del_def)
  have "st_redis st1 = [''idem:resp:k1'' \<mapsto> (RText ''stale'', 24 * Hour)]"
    using truncate_effect [OF quiet_ok(1) t] by (simp add: dirty_stores_def)
  then have scan: "scan_ok sample_test st1" by (simp add: scan_ok_def sample_test_fields HasPrefix_def)
  obtain ops s' st' where c: "Middleware steady quiet (Some sample_idempotency) (Some counting) (keyed_post ''x'') (0, st2) = (ops, s', st')"
    by (metis prod.exhaust)
  have s: "serve (Middleware steady quiet (Some sample_idempotency) (Some counting)) [keyed_post ''x''] (0, st2) = ([ops], s', st')"
    by (simp add: c)
  have late: "st_clock st' \<le> st_clock st2 + 8 * Second + 150 * Millisecond + 19000"
    using Middleware_bounded [OF c quiet_lat] by (simp add: sample_wait)
  have lat: "ie_lat quiet n = 1000" for n by (simp add: quiet_def)
  have "fault_at steady 0 = None" by (simp add: steady_def)
  then have "st_clock st1 = 1000"
    using t by (auto simp: Truncate_def truncate_stmt_def empty_world_def lat dirty_stores_def fresh_stores_def Let_def)
  then have "st_clock st2 = 2000"
    using fl by (auto simp: FlushRedisIdempotency_def sample_test_fields undisturbed_call(1) [OF quiet_ok(1)] redis_Del_def lat)
  then have start: "0 \<le> st_clock dirty_stores" "st_clock st2 \<le> Second"
    by (simp_all add: dirty_stores_def fresh_stores_def duration_defs)
  have "\<exists>A. serve (serve_once steady quiet counting) [keyed_post ''x''] (0, Map.empty) = ([ops], s', A)"
    by (rule test_isolation [OF quiet_ok(1,2,4,5,3) _ t fl scan start(1) _ _ s, THEN conjunct2, THEN conjunct2, THEN conjunct1])
      (use keyed_ok(1) late start(2) in \<open>simp_all add: sample_idempotency_def NewIdempotency_def default_defs\<close>)
  then have "s' = 1" by (auto simp: serve_once_guarded [OF keyed_ok(2,3)] run_abs_def counting_def)
  with t fl c show ?thesis by auto
qed

end
